(* ===== verification/Prelude.thy ===== *)
theory Prelude
  imports Main "HOL-Library.Word" "HOL-Library.Monad_Syntax" "HOL-Library.Code_Target_Nat"
begin

text \<open>
  Shared vocabulary of the development: machine words at the widths the Go code uses, the
  type of a Go computation that may panic, checked indexing and slicing of byte slices,
  the big- and little-endian byte facts the codecs rest on, and the interface of a
  unit-by-unit stream consumer (a locale interpreted by the control connection and by the
  interleaved RTSP reader).
\<close>

unbundle bit_operations_syntax

type_synonym byte = "8 word"
type_synonym u16 = "16 word"
type_synonym u32 = "32 word"

text \<open>
  A Go expression that can panic (index or slice out of range, a negative \<open>make\<close>, an
  explicit \<open>panic\<close>) is a value of type \<open>'a go\<close>: \<open>None\<close> is the panic. Nil
  pointers and error returns are values inside it, never \<open>None\<close> itself.
\<close>

type_synonym 'a go = "'a option"

named_theorems go_eval "equations of the Go runtime primitives"
named_theorems codec "round-trip equations of encoders and decoders"

subsection \<open>Checked indexing and slicing\<close>

definition index :: "'a list \<Rightarrow> nat \<Rightarrow> 'a go" where
  "index xs i = (if i < length xs then Some (xs ! i) else None)"

text \<open>\<open>xs[a:b]\<close> on a slice whose capacity is its length.\<close>

definition slice :: "'a list \<Rightarrow> nat \<Rightarrow> nat \<Rightarrow> 'a list go" where
  "slice xs a b = (if a \<le> b \<and> b \<le> length xs then Some (take (b - a) (drop a xs)) else None)"

lemma index_Some [go_eval]: "i < length xs \<Longrightarrow> index xs i = Some (xs ! i)"
  by (simp add: index_def)

lemma index_None [go_eval]: "length xs \<le> i \<Longrightarrow> index xs i = None"
  by (simp add: index_def)

lemma slice_Some [go_eval]:
  "a \<le> b \<Longrightarrow> b \<le> length xs \<Longrightarrow> slice xs a b = Some (take (b - a) (drop a xs))"
  by (simp add: slice_def)

lemma index_eq_Some_iff: "index xs i = Some x \<longleftrightarrow> i < length xs \<and> x = xs ! i"
  by (auto simp: index_def)

lemma index_append_right [simp]:
  "index (xs @ ys) (length xs + n) = index ys n"
  by (simp add: index_def)

lemma index_append_right0 [simp]: "index (xs @ ys) (length xs) = index ys 0"
  using index_append_right [of xs ys 0] by simp

lemma index_Cons_0 [simp]: "index (x # xs) 0 = Some x"
  by (simp add: index_def)

lemma index_Cons_Suc [simp]: "index (x # xs) (Suc n) = index xs n"
  by (simp add: index_def)

lemma index_Cons_numeral [simp]:
  "index (x # xs) (numeral n) = index xs (numeral n - 1)"
  by (simp add: index_def nth_Cons')

lemma index_Nil [simp]: "index [] n = None"
  by (simp add: index_def)

lemma index_mono: "index xs i = Some x \<Longrightarrow> index (xs @ ys) i = Some x"
  by (auto simp: index_eq_Some_iff nth_append)

lemma bind_go_eq_None_iff:
  "Option.bind m f = None \<longleftrightarrow> m = None \<or> (\<exists>x. m = Some x \<and> f x = None)"
  by (cases m) auto

lemma take_drop_append [simp]:
  "take (length ys) (drop (length xs) (xs @ ys @ zs)) = ys"
  by simp

lemma list_decomp:
  "i < length xs \<Longrightarrow> drop i xs = xs ! i # drop (Suc i) xs"
  by (rule Cons_nth_drop_Suc [symmetric])

subsection \<open>Error returns\<close>

text \<open>\<open>x, err := m; if err != nil { return err }; f(x)\<close>\<close>

definition and_then :: "'e + 'a \<Rightarrow> ('a \<Rightarrow> 'e + 'b) \<Rightarrow> 'e + 'b" where
  "and_then m f = (case m of Inl e \<Rightarrow> Inl e | Inr x \<Rightarrow> f x)"

lemma and_then_simps [simp]:
  "and_then (Inl e) f = Inl e"
  "and_then (Inr x) f = f x"
  by (simp_all add: and_then_def)

lemma and_then_Inr_iff: "and_then m f = Inr y \<longleftrightarrow> (\<exists>x. m = Inr x \<and> f x = Inr y)"
  by (cases m) simp_all

lemma and_then_Inl_iff:
  "and_then m f = Inl e \<longleftrightarrow> m = Inl e \<or> (\<exists>x. m = Inr x \<and> f x = Inl e)"
  by (cases m) auto

subsection \<open>Bytes and words\<close>

text \<open>Reading a machine word off its bytes, in both byte orders, as the code's shifts do.\<close>

definition be16 :: "byte \<Rightarrow> byte \<Rightarrow> u16" where
  "be16 a b = push_bit 8 (ucast a) OR ucast b"

definition be32 :: "byte \<Rightarrow> byte \<Rightarrow> byte \<Rightarrow> byte \<Rightarrow> u32" where
  "be32 a b c d =
     push_bit 24 (ucast a) OR push_bit 16 (ucast b) OR push_bit 8 (ucast c) OR ucast d"

text \<open>The conversion \<open>byte(x)\<close> of a word shifted right by \<open>n\<close> bits.\<close>

definition byte_at :: "nat \<Rightarrow> 'a::len word \<Rightarrow> byte" where
  "byte_at n w = ucast (drop_bit n w)"

lemma byte_bit_high [simp]: "8 \<le> n \<Longrightarrow> \<not> bit (b :: byte) n"
  by (auto dest: bit_imp_le_length)

lemma unat_byte_lt [simp]: "unat (b :: byte) < 256"
proof -
  have "unat b < 2 ^ LENGTH(8)" by (rule unsigned_less)
  then show ?thesis by simp
qed

lemma byte_at_be16_hi [codec]: "byte_at 8 (be16 a b) = a"
  unfolding byte_at_def be16_def by (rule bit_word_eqI) (auto simp: bit_simps)

lemma byte_at_be16_lo [codec]: "byte_at 0 (be16 a b) = b"
  unfolding byte_at_def be16_def by (rule bit_word_eqI) (auto simp: bit_simps)

lemma be16_byte_at [codec]: "be16 (byte_at 8 w) (byte_at 0 w) = w"
  unfolding byte_at_def be16_def by (rule bit_word_eqI) (auto simp: bit_simps)

lemma be32_byte_at [codec]:
  "be32 (byte_at 24 w) (byte_at 16 w) (byte_at 8 w) (byte_at 0 w) = w"
proof (rule bit_word_eqI)
  fix n assume "n < LENGTH(32)"
  then have "n < 8 \<or> (8 \<le> n \<and> n < 16) \<or> (16 \<le> n \<and> n < 24) \<or> (24 \<le> n \<and> n < 32)"
    by auto
  then show "bit (be32 (byte_at 24 w) (byte_at 16 w) (byte_at 8 w) (byte_at 0 w)) n = bit w n"
    unfolding byte_at_def be32_def by (elim disjE) (auto simp: bit_simps)
qed

lemma unat_be16: "unat (be16 a b) = 256 * unat a + unat b"
proof -
  have "be16 a b = push_bit 8 (ucast a) + ucast b"
    unfolding be16_def
    by (rule disjunctive_add_eq_or [symmetric], rule bit_word_eqI) (auto simp: bit_simps)
  also have "unat \<dots> = 256 * unat a + unat b"
    using unat_byte_lt [of a] unat_byte_lt [of b]
    by (simp del: unat_byte_lt
        add: unat_word_ariths push_bit_eq_mult unsigned_ucast_eq take_bit_eq_mod)
  finally show ?thesis .
qed

lemma unat_byte_of_nat [simp]: "unat (of_nat n :: byte) = n mod 256"
  by (simp add: unat_of_nat take_bit_eq_mod)

lemma unat_u16_lt [simp]: "unat (w :: u16) < 65536"
proof -
  have "unat w < 2 ^ LENGTH(16)" by (rule unsigned_less)
  then show ?thesis by simp
qed

subsection \<open>Seven-bit groups\<close>

lemma and_127 [simp]: "(n::nat) AND 127 = n mod 128"
  using take_bit_eq_mask [of 7 n] by (simp add: take_bit_eq_mod mask_eq_exp_minus_1)

lemma or_128: "(n::nat) < 128 \<Longrightarrow> n OR 128 = n + 128"
proof -
  assume n: "n < 128"
  have "n + 128 = n OR 128"
  proof (rule disjunctive_add_eq_or, rule bit_eqI)
    fix k
    have "take_bit 7 n = n" using n by (simp add: take_bit_eq_mod)
    then have "bit n k \<Longrightarrow> k < 7" using bit_take_bit_iff by metis
    moreover have "bit (128::nat) k \<Longrightarrow> k = 7"
      using bit_exp_iff [where 'a=nat, of 7 k] by simp
    ultimately show "bit (n AND 128) k = bit 0 k" by (auto simp: bit_and_iff)
  qed
  then show ?thesis by simp
qed

lemma join7: "a < 128 \<Longrightarrow> (a::nat) OR push_bit 7 b = a + 128 * b"
proof -
  assume a: "a < 128"
  have "a + push_bit 7 b = a OR push_bit 7 b"
  proof (rule disjunctive_add_eq_or, rule bit_eqI)
    fix k
    have "take_bit 7 a = a" using a by (simp add: take_bit_eq_mod)
    then have "bit a k \<Longrightarrow> k < 7" using bit_take_bit_iff by metis
    then show "bit (a AND push_bit 7 b) k = bit 0 k" by (auto simp: bit_simps)
  qed
  then show ?thesis by (simp add: push_bit_eq_mult mult.commute)
qed

lemma byte_and_80: "(b :: byte) AND 0x80 = 0 \<longleftrightarrow> unat b < 128"
proof -
  have "b AND 0x80 = 0 \<longleftrightarrow> \<not> bit b 7"
    using and_exp_eq_0_iff_not_bit [of b 7] by simp
  also have "bit b 7 = bit (unat b) 7"
    by (simp add: bit_unsigned_iff)
  also have "\<dots> = odd (unat b div 128)"
    by (simp add: bit_iff_odd)
  also have "(\<not> \<dots>) \<longleftrightarrow> unat b < 128"
  proof (cases "unat b < 128")
    case False
    then have "unat b div 128 = 1"
      using unat_byte_lt [of b] by (simp del: unat_byte_lt add: div_nat_eqI)
    with False show ?thesis by simp
  qed simp
  finally show ?thesis .
qed

subsection \<open>Bytes and characters\<close>

text \<open>
  Go strings are byte strings, as Isabelle's \<open>char list\<close> is; the conversions
  \<open>[]byte(s)\<close> and \<open>string(b)\<close> change the type only.
\<close>

definition to_bytes :: "string \<Rightarrow> byte list" where
  "to_bytes s = map of_char s"

definition of_bytes :: "byte list \<Rightarrow> string" where
  "of_bytes bs = map (\<lambda>b. char_of (unat b)) bs"

lemma unat_of_char_byte [simp]: "unat (of_char c :: byte) = of_char c"
proof -
  have "(of_char c :: byte) = of_nat (of_char c)"
    by (simp add: of_nat_of_char)
  then show ?thesis by (simp only: unat_byte_of_nat) simp
qed

lemma of_char_char_of_byte [simp]: "(of_char (char_of (unat b)) :: byte) = b"
  by (simp add: word_unat_eq_iff)

lemma of_bytes_to_bytes [simp, codec]: "of_bytes (to_bytes s) = s"
  by (simp add: of_bytes_def to_bytes_def comp_def)

lemma to_bytes_of_bytes [simp, codec]: "to_bytes (of_bytes bs) = bs"
  by (simp add: of_bytes_def to_bytes_def comp_def)

lemma to_bytes_append [simp]: "to_bytes (s @ t) = to_bytes s @ to_bytes t"
  by (simp add: to_bytes_def)

lemma of_bytes_append [simp]: "of_bytes (s @ t) = of_bytes s @ of_bytes t"
  by (simp add: of_bytes_def)

lemma length_to_bytes [simp]: "length (to_bytes s) = length s"
  by (simp add: to_bytes_def)

lemma length_of_bytes [simp]: "length (of_bytes s) = length s"
  by (simp add: of_bytes_def)

subsection \<open>Consuming a byte stream unit by unit\<close>

text \<open>
  A reader accumulates the chunks a socket delivers in a buffer and, after each chunk,
  takes complete units off its front for as long as there are any. The provider of the
  unit parser promises that a unit is never empty, never longer than the buffer, and that
  more input never changes a unit already complete. The reader's loop is \<open>drain\<close>; it
  stops consuming once the state is no longer \<open>alive\<close> (the handler returned), and a dead
  reader drops its buffer.
\<close>

locale stream_consumer =
  fixes next_unit :: "'b list \<Rightarrow> ('u \<times> nat) option"
    and act :: "'s \<Rightarrow> 'u \<Rightarrow> 's"
    and alive :: "'s \<Rightarrow> bool"
    and drain :: "'s \<Rightarrow> 'b list \<Rightarrow> 's \<times> 'b list"
  assumes unit_bounds: "next_unit b = Some (u, n) \<Longrightarrow> 0 < n \<and> n \<le> length b"
    and unit_stable: "next_unit b = Some (u, n) \<Longrightarrow> next_unit (b @ c) = Some (u, n)"
    and drain_eq: "drain s b =
      (if alive s
       then (case next_unit b of
               None \<Rightarrow> (s, b)
             | Some (u, n) \<Rightarrow> drain (act s u) (drop n b))
       else (s, []))"
begin

lemma drain_dead: "\<not> alive s \<Longrightarrow> drain s b = (s, [])"
  by (subst drain_eq) simp

lemma drain_wait: "alive s \<Longrightarrow> next_unit b = None \<Longrightarrow> drain s b = (s, b)"
  by (subst drain_eq) simp

lemma drain_take:
  "alive s \<Longrightarrow> next_unit b = Some (u, n) \<Longrightarrow> drain s b = drain (act s u) (drop n b)"
  by (subst drain_eq) simp

lemma drain_Nil: "drain s [] = (s, [])"
proof (cases "alive s \<and> next_unit [] \<noteq> None")
  case True
  then obtain u n where "next_unit [] = Some (u, n)" by auto
  then show ?thesis using unit_bounds by fastforce
next
  case False
  then show ?thesis using drain_dead drain_wait by blast
qed

text \<open>Draining early and then again after more input is draining once.\<close>

lemma drain_append: "drain s b = (s', r) \<Longrightarrow> drain s' (r @ c) = drain s (b @ c)"
proof (induction "length b" arbitrary: s b rule: less_induct)
  case less
  show ?case
  proof (cases "alive s")
    case False
    with less.prems show ?thesis by (simp add: drain_dead)
  next
    case True
    show ?thesis
    proof (cases "next_unit b")
      case None
      with True less.prems show ?thesis by (simp add: drain_wait)
    next
      case (Some un)
      then obtain u n where un: "next_unit b = Some (u, n)" by (cases un) auto
      then have n: "0 < n" "n \<le> length b" using unit_bounds by auto
      from less.prems True un have "drain (act s u) (drop n b) = (s', r)"
        by (simp add: drain_take)
      then have "drain s' (r @ c) = drain (act s u) (drop n b @ c)"
        using n by (intro less.hyps) auto
      also have "\<dots> = drain s (b @ c)"
        using True unit_stable [OF un, of c] n by (simp add: drain_take)
      finally show ?thesis .
    qed
  qed
qed

lemma drain_chunks:
  "drain s b = (s', r) \<Longrightarrow>
   foldl (\<lambda>(s, r) c. drain s (r @ c)) (s', r) cs = drain s (b @ concat cs)"
proof (induction cs arbitrary: b s' r)
  case Nil
  then show ?case by simp
next
  case (Cons c cs)
  obtain s'' r'' where step: "drain s (b @ c) = (s'', r'')" by fastforce
  then have "drain s' (r @ c) = (s'', r'')"
    using drain_append [OF Cons.prems] by simp
  then show ?case
    using Cons.IH [OF step] by simp
qed

text \<open>How the bytes were cut into chunks does not matter.\<close>

lemma chunking_irrelevant:
  "foldl (\<lambda>(s, r) c. drain s (r @ c)) (s, []) cs = drain s (concat cs)"
  using drain_chunks [OF drain_Nil, of s cs] by simp

end

subsection \<open>Invariants along runs\<close>

text \<open>
  A transition system with labelled steps, and its runs. The provider promises induction along
  a run: what every step keeps, a run keeps. A quantity that no step from a good state changes
  is frozen.
\<close>

locale step_system =
  fixes step :: "'s \<Rightarrow> 'a \<Rightarrow> 's \<Rightarrow> bool"
    and run :: "'s \<Rightarrow> 'l list \<Rightarrow> 's \<Rightarrow> bool"
  assumes run_induct: "run s ls t \<Longrightarrow> I s \<Longrightarrow> (\<And>u a v. step u a v \<Longrightarrow> I u \<Longrightarrow> I v) \<Longrightarrow> I t"
begin

lemma run_keeps: "(\<And>u a v. step u a v \<Longrightarrow> I u \<Longrightarrow> I v) \<Longrightarrow> run s ls t \<Longrightarrow> I s \<Longrightarrow> I t"
  by (rule run_induct)

lemma run_freezes:
  assumes "\<And>u a v. step u a v \<Longrightarrow> I u \<Longrightarrow> I v \<and> f v = f u" and "run s ls t" and "I s"
  shows "I t \<and> f t = f s"
  using assms(2)
  by (rule run_induct [where I = "\<lambda>u. I u \<and> f u = f s"]) (use assms(1,3) in auto)

end

end
