(* ===== verification/Go_Strings.thy ===== *)
theory Go_Strings
  imports Prelude "HOL-Library.Char_ord" "HOL-Library.List_Lexorder"
begin

text \<open>
  The functions of the standard packages \<open>strings\<close>, \<open>strconv\<close> and \<open>unicode/utf8\<close>
  that the program calls, on Go strings (byte strings, \<open>char list\<close> here; \<open><\<close> is the
  lexicographic order on bytes, as Go compares). White space is Unicode's
  \<open>White_Space\<close>, recognised by its UTF-8 encodings. Case mapping of a non-ASCII rune is
  data of package \<open>unicode\<close>; it is the parameter \<open>U\<close> of the functions that need it.
\<close>

subsection \<open>Characters\<close>

definition code :: "char \<Rightarrow> nat" where
  "code c = of_char c"

definition is_digit :: "char \<Rightarrow> bool" where
  "is_digit c \<longleftrightarrow> 48 \<le> code c \<and> code c \<le> 57"

definition is_upper :: "char \<Rightarrow> bool" where
  "is_upper c \<longleftrightarrow> 65 \<le> code c \<and> code c \<le> 90"

definition is_lower :: "char \<Rightarrow> bool" where
  "is_lower c \<longleftrightarrow> 97 \<le> code c \<and> code c \<le> 122"

definition is_ascii :: "char \<Rightarrow> bool" where
  "is_ascii c \<longleftrightarrow> code c < 128"

definition lower_char :: "char \<Rightarrow> char" where
  "lower_char c = (if is_upper c then char_of (code c + 32) else c)"

definition upper_char :: "char \<Rightarrow> char" where
  "upper_char c = (if is_lower c then char_of (code c - 32) else c)"

lemma code_lt [simp]: "code c < 256"
  by (simp add: code_def)

lemma code_char_of [simp]: "n < 256 \<Longrightarrow> code (char_of n) = n"
  by (simp add: code_def)

lemma code_inject [simp]: "code c = code d \<longleftrightarrow> c = d"
  by (simp add: code_def)

subsection \<open>Searching and cutting\<close>

definition has_prefix :: "string \<Rightarrow> string \<Rightarrow> bool" where
  "has_prefix p s \<longleftrightarrow> take (length p) s = p"

definition has_suffix :: "string \<Rightarrow> string \<Rightarrow> bool" where
  "has_suffix p s \<longleftrightarrow> has_prefix (rev p) (rev s)"

definition trim_prefix :: "string \<Rightarrow> string \<Rightarrow> string" where
  "trim_prefix p s = (if has_prefix p s then drop (length p) s else s)"

text \<open>\<open>strings.Index\<close> and \<open>strings.IndexByte\<close>; \<open>None\<close> is the result -1.\<close>

fun str_index :: "string \<Rightarrow> string \<Rightarrow> nat option" where
  "str_index p [] = (if p = [] then Some 0 else None)"
| "str_index p (c # s) =
     (if has_prefix p (c # s) then Some 0 else map_option Suc (str_index p s))"

fun index_byte :: "char \<Rightarrow> string \<Rightarrow> nat option" where
  "index_byte b [] = None"
| "index_byte b (c # s) = (if c = b then Some 0 else map_option Suc (index_byte b s))"

definition last_index_byte :: "char \<Rightarrow> string \<Rightarrow> nat option" where
  "last_index_byte b s = map_option (\<lambda>i. length s - 1 - i) (index_byte b (rev s))"

definition contains :: "string \<Rightarrow> string \<Rightarrow> bool" where
  "contains s p \<longleftrightarrow> str_index p s \<noteq> None"

text \<open>\<open>strings.Cut\<close> at a one-byte separator: the parts and whether it was found.\<close>

definition cut :: "char \<Rightarrow> string \<Rightarrow> string \<times> string \<times> bool" where
  "cut b s = (case index_byte b s of
      None \<Rightarrow> (s, [], False)
    | Some i \<Rightarrow> (take i s, drop (i + 1) s, True))"

text \<open>\<open>strings.Split\<close> for a non-empty separator.\<close>

function split_on :: "string \<Rightarrow> string \<Rightarrow> string list" where
  "split_on p s =
     (case str_index p s of
        None \<Rightarrow> [s]
      | Some i \<Rightarrow>
          if p = [] then [s] else take i s # split_on p (drop (i + length p) s))"
  by pat_completeness auto

lemma has_prefix_iff: "has_prefix p s \<longleftrightarrow> (\<exists>r. s = p @ r)"
proof
  assume "has_prefix p s"
  then have "s = p @ drop (length p) s"
    unfolding has_prefix_def by (metis append_take_drop_id)
  then show "\<exists>r. s = p @ r" by blast
qed (auto simp: has_prefix_def)

lemma has_prefix_Cons: "has_prefix (c # p) s \<longleftrightarrow> (\<exists>r. s = c # r \<and> has_prefix p r)"
  by (auto simp: has_prefix_iff)

lemma has_prefix_Nil [simp]: "has_prefix [] s"
  by (simp add: has_prefix_def)

lemma has_prefix_append [simp]: "has_prefix p (p @ s)"
  by (simp add: has_prefix_def)

lemma str_index_Some: "str_index p s = Some i \<Longrightarrow> i + length p \<le> length s \<and> has_prefix p (drop i s)"
proof (induction s arbitrary: i)
  case Nil
  then show ?case by (auto split: if_splits)
next
  case (Cons c s)
  show ?case
  proof (cases "has_prefix p (c # s)")
    case True
    then have "length p \<le> length (c # s)"
      unfolding has_prefix_iff by (metis le_add1 length_append)
    with True Cons.prems show ?thesis by auto
  next
    case False
    with Cons show ?thesis by auto
  qed
qed

lemma str_index_None: "str_index p s = None \<Longrightarrow> \<not> has_prefix p (drop i s) \<or> p = []"
proof (induction s arbitrary: i)
  case Nil
  then show ?case by (auto simp: has_prefix_iff split: if_splits)
next
  case (Cons c s)
  then show ?case by (cases i) (auto split: if_splits)
qed

termination split_on
proof (relation "measure (length \<circ> snd)")
  fix p s :: string and i
  assume "str_index p s = Some i" and "p \<noteq> []"
  then show "((p, drop (i + length p) s), p, s) \<in> measure (length \<circ> snd)"
    using str_index_Some [of p s i] by (cases p) auto
qed simp

declare split_on.simps [simp del]

definition crlf :: string where
  "crlf = [CHR 0x0D, CHR 0x0A]"

fun join :: "string \<Rightarrow> string list \<Rightarrow> string" where
  "join sep [] = []"
| "join sep [s] = s"
| "join sep (s # t # r) = s @ sep @ join sep (t # r)"

lemma split_on_nonempty [simp]: "split_on p s \<noteq> []"
  by (subst split_on.simps) (simp split: option.splits)

lemma join_split_on: "join p (split_on p s) = s"
proof (induction p s rule: split_on.induct)
  case (1 p s)
  show ?case
  proof (cases "str_index p s")
    case None
    then show ?thesis by (subst split_on.simps) simp
  next
    case (Some i)
    show ?thesis
    proof (cases "p = []")
      case True
      with Some show ?thesis by (subst split_on.simps) simp
    next
      case False
      from Some have i: "i + length p \<le> length s" "has_prefix p (drop i s)"
        by (auto dest: str_index_Some)
      let ?r = "split_on p (drop (i + length p) s)"
      have "join p (take i s # ?r) = take i s @ p @ join p ?r"
        by (cases ?r) auto
      also have "\<dots> = take i s @ p @ drop (i + length p) s"
        using 1 Some False by simp
      also have "\<dots> = s"
        using i(2) by (auto simp: has_prefix_iff)
          (metis add.commute append_take_drop_id append_eq_conv_conj drop_drop)
      finally show ?thesis
        using Some False by (subst split_on.simps) simp
    qed
  qed
qed

subsection \<open>White space\<close>

text \<open>The UTF-8 encodings of the runes for which \<open>unicode.IsSpace\<close> holds.\<close>

definition space_codes :: "nat list list" where
  "space_codes =
     [[0x09], [0x0A], [0x0B], [0x0C], [0x0D], [0x20], [0xC2, 0x85], [0xC2, 0xA0],
      [0xE1, 0x9A, 0x80]] @
     map (\<lambda>k. [0xE2, 0x80, k])
       [0x80, 0x81, 0x82, 0x83, 0x84, 0x85, 0x86, 0x87, 0x88, 0x89, 0x8A, 0xA8, 0xA9, 0xAF] @
     [[0xE2, 0x81, 0x9F], [0xE3, 0x80, 0x80]]"

definition space_runes :: "string list" where
  "space_runes = map (map char_of) space_codes"

definition leading :: "string list \<Rightarrow> string \<Rightarrow> string option" where
  "leading ws s = find (\<lambda>w. w \<noteq> [] \<and> has_prefix w s) ws"

lemma leading_Some: "leading ws s = Some w \<Longrightarrow> w \<in> set ws \<and> w \<noteq> [] \<and> has_prefix w s"
  by (auto simp: leading_def find_Some_iff)

lemma leading_None: "leading ws s = None \<Longrightarrow> w \<in> set ws \<Longrightarrow> w \<noteq> [] \<Longrightarrow> \<not> has_prefix w s"
  by (auto simp: leading_def find_None_iff)

lemma leading_shorter:
  "leading ws s = Some w \<Longrightarrow> length (drop (length w) s) < length s"
  by (cases w; cases s) (auto dest!: leading_Some simp: has_prefix_def)

function strip :: "string list \<Rightarrow> string \<Rightarrow> string" where
  "strip ws s = (case leading ws s of None \<Rightarrow> s | Some w \<Rightarrow> strip ws (drop (length w) s))"
  by pat_completeness auto
termination
  by (relation "measure (length \<circ> snd)") (auto dest: leading_shorter)

declare strip.simps [simp del]

text \<open>\<open>strings.TrimSpace\<close>\<close>

definition trim_space :: "string \<Rightarrow> string" where
  "trim_space s = rev (strip (map rev space_runes) (rev (strip space_runes s)))"

text \<open>\<open>strings.Fields\<close>: the accumulator is the field being read, in reverse.\<close>

function fields_from :: "string \<Rightarrow> string \<Rightarrow> string list" where
  "fields_from acc [] = (if acc = [] then [] else [rev acc])"
| "fields_from acc (c # s) =
     (case leading space_runes (c # s) of
        None \<Rightarrow> fields_from (c # acc) s
      | Some w \<Rightarrow>
          (if acc = [] then [] else [rev acc]) @ fields_from [] (drop (length w) (c # s)))"
  by pat_completeness auto
termination
  by (relation "measure (length \<circ> snd)") (use leading_shorter in \<open>fastforce+\<close>)

definition Fields :: "string \<Rightarrow> string list" where
  "Fields s = fields_from [] s"

text \<open>\<open>strings.TrimRight\<close> and \<open>strings.Trim\<close> with a one-byte cutset.\<close>

definition trim_right_byte :: "char \<Rightarrow> string \<Rightarrow> string" where
  "trim_right_byte b s = rev (dropWhile (\<lambda>c. c = b) (rev s))"

definition trim_byte :: "char \<Rightarrow> string \<Rightarrow> string" where
  "trim_byte b s = trim_right_byte b (dropWhile (\<lambda>c. c = b) s)"

subsection \<open>UTF-8 and case mapping\<close>

text \<open>
  For a leading byte: the length of the encoding, the bits it contributes and the range
  its second byte must lie in; \<open>utf8.DecodeRuneInString\<close> yields \<open>RuneError\<close> of width 1
  on anything else.
\<close>

definition lead_byte :: "nat \<Rightarrow> (nat \<times> nat \<times> nat \<times> nat) option" where
  "lead_byte b =
     (if 0xC2 \<le> b \<and> b \<le> 0xDF then Some (2, b mod 32, 0x80, 0xBF)
      else if b = 0xE0 then Some (3, 0, 0xA0, 0xBF)
      else if b = 0xED then Some (3, 13, 0x80, 0x9F)
      else if 0xE1 \<le> b \<and> b \<le> 0xEF then Some (3, b mod 16, 0x80, 0xBF)
      else if b = 0xF0 then Some (4, 0, 0x90, 0xBF)
      else if 0xF1 \<le> b \<and> b \<le> 0xF3 then Some (4, b mod 8, 0x80, 0xBF)
      else if b = 0xF4 then Some (4, 4, 0x80, 0x8F)
      else None)"

definition rune_error :: nat where
  "rune_error = 0xFFFD"

definition decode_rune :: "string \<Rightarrow> nat \<times> nat" where
  "decode_rune s =
     (case s of
        [] \<Rightarrow> (rune_error, 0)
      | c # r \<Rightarrow>
          if code c < 128 then (code c, 1)
          else case lead_byte (code c) of
            None \<Rightarrow> (rune_error, 1)
          | Some (n, bits, lo, hi) \<Rightarrow>
              let cont = map code (take (n - 1) r)
              in if length cont = n - 1 \<and> lo \<le> cont ! 0 \<and> cont ! 0 \<le> hi
                    \<and> (\<forall>b \<in> set (tl cont). 0x80 \<le> b \<and> b \<le> 0xBF)
                 then (foldl (\<lambda>v b. v * 64 + b mod 64) bits cont, n)
                 else (rune_error, 1))"

definition encode_rune :: "nat \<Rightarrow> string" where
  "encode_rune r =
     (let r = (if 0x10FFFF < r \<or> (0xD800 \<le> r \<and> r \<le> 0xDFFF) then rune_error else r)
      in map char_of
           (if r < 0x80 then [r]
            else if r < 0x800 then [0xC0 + r div 64, 0x80 + r mod 64]
            else if r < 0x10000 then [0xE0 + r div 4096, 0x80 + r div 64 mod 64, 0x80 + r mod 64]
            else [0xF0 + r div 262144, 0x80 + r div 4096 mod 64, 0x80 + r div 64 mod 64,
                  0x80 + r mod 64]))"

lemma lead_byte_len: "lead_byte b = Some (n, bits, lo, hi) \<Longrightarrow> 2 \<le> n \<and> n \<le> 4"
  unfolding lead_byte_def by (auto split: if_split_asm)

lemma decode_rune_width: "s \<noteq> [] \<Longrightarrow> 0 < snd (decode_rune s)"
  by (cases s)
    (auto simp: decode_rune_def Let_def dest: lead_byte_len split: option.splits prod.splits)

function map_runes :: "(nat \<Rightarrow> nat) \<Rightarrow> string \<Rightarrow> string" where
  "map_runes f s =
     (if s = [] then []
      else let (r, n) = decode_rune s in encode_rune (f r) @ map_runes f (drop n s))"
  by pat_completeness auto
termination
proof (relation "measure (length \<circ> snd)")
  fix f s x and r n :: nat
  assume "s \<noteq> []" "x = decode_rune s" "(r, n) = x"
  then show "((f, drop n s), f, s) \<in> measure (length \<circ> snd)"
    using decode_rune_width [of s] by (cases "decode_rune s") auto
qed simp

declare map_runes.simps [simp del]

record unicode =
  lower_rune :: "nat \<Rightarrow> nat"
  upper_rune :: "nat \<Rightarrow> nat"

definition to_lower :: "unicode \<Rightarrow> string \<Rightarrow> string" where
  "to_lower U s =
     (if list_all is_ascii s then map lower_char s
      else map_runes (\<lambda>r. if r < 128 then code (lower_char (char_of r)) else lower_rune U r) s)"

definition to_upper :: "unicode \<Rightarrow> string \<Rightarrow> string" where
  "to_upper U s =
     (if list_all is_ascii s then map upper_char s
      else map_runes (\<lambda>r. if r < 128 then code (upper_char (char_of r)) else upper_rune U r) s)"

subsection \<open>Decimal numbers\<close>

definition digit_val :: "char \<Rightarrow> nat" where
  "digit_val c = code c - 48"

definition decimal :: "string \<Rightarrow> nat" where
  "decimal s = foldl (\<lambda>n c. 10 * n + digit_val c) 0 s"

definition max_int :: int where
  "max_int = 2 ^ 63 - 1"

text \<open>
  \<open>strconv.Atoi\<close> for a 64-bit \<open>int\<close>: the number returned and whether the error is
  non-nil. A syntax error returns 0, an overflow the nearest representable number.
\<close>

definition atoi :: "string \<Rightarrow> int \<times> bool" where
  "atoi s =
     (let neg = (case s of c # _ \<Rightarrow> c = CHR ''-'' | [] \<Rightarrow> False);
          digits = (case s of c # r \<Rightarrow> if c = CHR ''-'' \<or> c = CHR ''+'' then r else s | [] \<Rightarrow> [])
      in if digits = [] \<or> \<not> list_all is_digit digits then (0, True)
         else let v = int (decimal digits)
              in if neg then (if v > max_int + 1 then (- (max_int + 1), True) else (- v, False))
                 else (if v > max_int then (max_int, True) else (v, False)))"

definition digit_char :: "nat \<Rightarrow> char" where
  "digit_char d = char_of (48 + d)"

fun itoa_nat :: "nat \<Rightarrow> string" where
  "itoa_nat n = (if n < 10 then [digit_char n] else itoa_nat (n div 10) @ [digit_char (n mod 10)])"

declare itoa_nat.simps [simp del]

definition itoa :: "int \<Rightarrow> string" where
  "itoa i = (if i < 0 then CHR ''-'' # itoa_nat (nat (- i)) else itoa_nat (nat i))"

lemma code_digit_char [simp]: "d < 10 \<Longrightarrow> code (digit_char d) = 48 + d"
  by (simp add: digit_char_def)

lemma is_digit_digit_char [simp]: "d < 10 \<Longrightarrow> is_digit (digit_char d)"
  by (simp add: is_digit_def)

lemma itoa_nat_digits: "list_all is_digit (itoa_nat n)"
  by (induction n rule: itoa_nat.induct) (subst itoa_nat.simps, simp)

lemma itoa_nat_nonempty: "itoa_nat n \<noteq> []"
  by (subst itoa_nat.simps) simp

lemma decimal_snoc: "decimal (s @ [c]) = 10 * decimal s + digit_val c"
  by (simp add: decimal_def)

lemma decimal_itoa_nat: "decimal (itoa_nat n) = n"
proof (induction n rule: itoa_nat.induct)
  case (1 n)
  show ?case
  proof (cases "n < 10")
    case True
    then show ?thesis by (subst itoa_nat.simps) (simp add: decimal_def digit_val_def)
  next
    case False
    with 1 show ?thesis by (subst itoa_nat.simps) (simp add: decimal_snoc digit_val_def)
  qed
qed

lemma is_digit_not_sign: "is_digit c \<Longrightarrow> c \<noteq> CHR ''-'' \<and> c \<noteq> CHR ''+'' \<and> c \<noteq> CHR ''/''"
  by (auto simp: is_digit_def code_def)

lemma atoi_digits:
  "list_all is_digit s \<Longrightarrow> s \<noteq> [] \<Longrightarrow> int (decimal s) \<le> max_int \<Longrightarrow> atoi s = (int (decimal s), False)"
  by (cases s) (auto simp: atoi_def dest: is_digit_not_sign)

lemma atoi_itoa: "0 \<le> i \<Longrightarrow> i \<le> max_int \<Longrightarrow> atoi (itoa i) = (i, False)"
  by (simp add: itoa_def atoi_digits itoa_nat_digits itoa_nat_nonempty decimal_itoa_nat)

lemma index_byte_append: "b \<notin> set s \<Longrightarrow> index_byte b (s @ b # r) = Some (length s)"
  by (induction s) auto

lemma index_byte_Some:
  "index_byte b s = Some k \<Longrightarrow> k < length s \<and> s = take k s @ b # drop (k + 1) s \<and> b \<notin> set (take k s)"
  by (induction s arbitrary: k) (auto split: if_splits)

lemma index_byte_None: "index_byte b s = None \<longleftrightarrow> b \<notin> set s"
  by (induction s) auto

subsection \<open>Trimming and splitting at a known byte\<close>

lemma has_prefix_at:
  "c \<notin> set p \<Longrightarrow> has_prefix p (x @ c # y) \<longleftrightarrow> has_prefix p x"
proof
  assume c: "c \<notin> set p" and "has_prefix p (x @ c # y)"
  then have t: "take (length p) (x @ c # y) = p" by (simp add: has_prefix_def)
  have "length p \<le> length x"
  proof (rule ccontr)
    assume "\<not> length p \<le> length x"
    then have "c \<in> set (take (length p) (x @ c # y))" by (cases "length p - length x") auto
    with t c show False by simp
  qed
  with t show "has_prefix p x" by (simp add: has_prefix_def)
next
  assume "has_prefix p x" then show "has_prefix p (x @ c # y)" by (auto simp: has_prefix_iff)
qed

lemma leading_at:
  "c \<notin> \<Union> (set ` set ws) \<Longrightarrow> leading ws (x @ c # y) = leading ws x"
  unfolding leading_def by (rule find_cong [OF refl]) (auto simp: has_prefix_at)

lemma strip_at:
  "c \<notin> \<Union> (set ` set ws) \<Longrightarrow> strip ws (x @ c # y) = strip ws x @ c # y"
proof (induction ws x rule: strip.induct)
  case (1 ws x)
  show ?case
  proof (cases "leading ws x")
    case None
    with 1 show ?thesis by (simp add: strip.simps [of ws x] strip.simps [of ws "x @ c # y"] leading_at)
  next
    case (Some w)
    then have "length w \<le> length x" by (auto dest!: leading_Some simp: has_prefix_iff)
    with 1 Some show ?thesis
      by (simp add: strip.simps [of ws x] strip.simps [of ws "x @ c # y"] leading_at)
  qed
qed

lemma strip_Nil [simp]: "strip ws [] = []"
  by (subst strip.simps) (auto dest!: leading_Some simp: has_prefix_iff split: option.splits)

lemma strip_suffix: "\<exists>n. strip ws s = drop n s"
proof (induction ws s rule: strip.induct)
  case (1 ws s)
  show ?case
  proof (cases "leading ws s")
    case None
    then show ?thesis by (subst strip.simps) (auto intro: exI [of _ 0])
  next
    case (Some w)
    with 1 obtain n where "strip ws (drop (length w) s) = drop n (drop (length w) s)" by blast
    with Some show ?thesis by (subst strip.simps) auto
  qed
qed

lemma strip_id_length:
  assumes "length (strip ws s) = length s"
  shows "strip ws s = s"
proof -
  obtain n where n: "strip ws s = drop n s" using strip_suffix by blast
  with assms have "n = 0 \<or> s = []" by (cases s) auto
  with n show ?thesis by auto
qed

definition never_space :: "char \<Rightarrow> bool" where
  "never_space c \<longleftrightarrow> c \<notin> \<Union> (set ` set space_runes)"

lemma trim_space_id:
  assumes "trim_space s = s"
  shows "strip space_runes s = s" and "strip (map rev space_runes) (rev s) = rev s"
proof -
  have a: "length (strip ws t) \<le> length t" for ws t using strip_suffix [of ws t] by auto
  have "length (trim_space s) \<le> length (strip space_runes s)"
    unfolding trim_space_def using a [of "map rev space_runes" "rev (strip space_runes s)"] by simp
  then have "length (strip space_runes s) = length s"
    using a [of space_runes s] unfolding assms by (rule order_antisym [rotated])
  then show s: "strip space_runes s = s" by (rule strip_id_length)
  have "rev (strip (map rev space_runes) (rev s)) = s"
    using assms unfolding trim_space_def s .
  then show "strip (map rev space_runes) (rev s) = rev s" by (rule rev_swap [THEN iffD1])
qed

lemma leading_blank: "leading space_runes (CHR '' '' # s) = Some '' ''"
  by (simp add: leading_def space_runes_def space_codes_def has_prefix_def char_of_def bit_0)

lemma trim_space_lead:
  assumes "trim_space s = s"
  shows "trim_space (CHR '' '' # s) = s"
proof -
  have "strip space_runes (CHR '' '' # s) = s"
    using trim_space_id(1) [OF assms] by (subst strip.simps) (simp add: leading_blank)
  then show ?thesis using trim_space_id(2) [OF assms] by (simp add: trim_space_def)
qed
text \<open>A line that begins and continues with bytes of no white space.\<close>

lemma trim_space_Cons:
  assumes "never_space c"
  shows "trim_space (c # s) = c # rev (strip (map rev space_runes) (rev s))"
  using assms strip_at [of c space_runes "[]" s] strip_at [of c "map rev space_runes" "rev s" "[]"]
  by (simp add: trim_space_def never_space_def)

lemma trim_space_middle:
  assumes "never_space c" and "never_space d" and "trim_space s = s"
  shows "trim_space (c # x @ d # s) = c # x @ d # s"
  using assms strip_at [of d "map rev space_runes" "rev s" "rev x"]
  by (simp add: trim_space_Cons never_space_def trim_space_id)

lemma split_on_notin:
  "b \<notin> set s \<Longrightarrow> split_on [b] s = [s]"
proof -
  assume "b \<notin> set s"
  then have "str_index [b] s = None" by (induction s) (auto simp: has_prefix_Cons)
  then show ?thesis by (subst split_on.simps) simp
qed

lemma split_on_append:
  assumes "b \<notin> set s"
  shows "split_on [b] (s @ b # r) = s # split_on [b] r"
proof -
  have "str_index [b] (s @ b # r) = Some (length s)"
    using assms by (induction s) (auto simp: has_prefix_Cons)
  then show ?thesis by (subst split_on.simps) simp
qed

lemma split_on_join:
  "list_all (\<lambda>l. b \<notin> set l) ls \<Longrightarrow> ls \<noteq> [] \<Longrightarrow> split_on [b] (join [b] ls) = ls"
proof (induction ls)
  case (Cons l ls)
  then show ?case by (cases ls) (simp_all add: split_on_append split_on_notin)
qed simp

text \<open>Lines that end in CRLF.\<close>

lemma crlf_Cons: "crlf = CHR 0x0D # [CHR 0x0A]"
  by (simp add: crlf_def)

lemma str_index_skip:
  "p = x # q \<Longrightarrow> x \<notin> set l \<Longrightarrow> str_index p (l @ s) = map_option (\<lambda>i. length l + i) (str_index p s)"
proof (induction l)
  case Nil
  then show ?case by (simp add: option.map_ident)
next
  case (Cons c l)
  then have "\<not> has_prefix p (c # l @ s)" by (auto simp: has_prefix_Cons)
  with Cons show ?case by (simp add: option.map_comp comp_def)
qed

lemma str_index_found: "has_prefix p s \<Longrightarrow> str_index p s = Some 0"
  by (cases s) (auto simp: has_prefix_iff)

lemma split_crlf_last: "CHR 0x0D \<notin> set l \<Longrightarrow> split_on crlf l = [l]"
proof -
  assume "CHR 0x0D \<notin> set l"
  then have "str_index crlf l = None"
    using str_index_skip [OF crlf_Cons, of l "[]"] by (simp add: crlf_def)
  then show ?thesis by (subst split_on.simps) simp
qed

lemma split_crlf_append:
  assumes "CHR 0x0D \<notin> set l"
  shows "split_on crlf (l @ crlf @ r) = l # split_on crlf r"
proof -
  have "str_index crlf (l @ crlf @ r) = Some (length l)"
    using str_index_skip [OF crlf_Cons assms, of "crlf @ r"] by (simp add: str_index_found)
  then show ?thesis by (subst split_on.simps) (simp add: crlf_def)
qed

lemma split_crlf_join:
  "list_all (\<lambda>l. CHR 0x0D \<notin> set l) ls \<Longrightarrow> ls \<noteq> [] \<Longrightarrow> split_on crlf (join crlf ls) = ls"
proof (induction ls)
  case (Cons l ls)
  then show ?case by (cases ls) (simp_all add: split_crlf_last split_crlf_append)
qed simp

lemma never_space_ascii: "33 \<le> code c \<Longrightarrow> code c < 128 \<Longrightarrow> never_space c"
  unfolding never_space_def space_runes_def space_codes_def by (auto simp: code_def)

text \<open>The case tables of a text that has ASCII letters only.\<close>

definition ascii_only :: unicode where
  "ascii_only = \<lparr>lower_rune = \<lambda>r. r, upper_rune = \<lambda>r. r\<rparr>"

end
