(* ===== verification/Net_Url.thy ===== *)
theory Net_Url
  imports Go_Strings
begin

text \<open>
  The standard package \<open>net/url\<close>, as far as the program uses it: \<open>Parse\<close> with its
  percent-decoding, the accessors \<open>Port\<close>, \<open>Hostname\<close> and \<open>Query\<close>, \<open>String\<close>,
  \<open>ResolveReference\<close> and \<open>QueryEscape\<close>. An error return is \<open>None\<close>: every caller
  only asks whether there was one. Nothing here can panic.
\<close>

subsection \<open>Percent-encoding\<close>

datatype encoding = EncPath | EncHost | EncZone | EncUserPassword | EncQuery | EncFragment

definition is_alnum :: "char \<Rightarrow> bool" where
  "is_alnum c \<longleftrightarrow> is_lower c \<or> is_upper c \<or> is_digit c"

definition should_escape :: "encoding \<Rightarrow> char \<Rightarrow> bool" where
  "should_escape m c =
     (if is_alnum c then False
      else if (m = EncHost \<or> m = EncZone) \<and> c \<in> set ''!$&()*+,;=:[]<>'' \<union> {CHR 0x22, CHR 0x27}
      then False
      else if c \<in> set ''-_.~'' then False
      else if c \<in> set ''$&+,/:;=?@'' \<and> m \<in> {EncPath, EncUserPassword, EncQuery, EncFragment}
      then (case m of
              EncPath \<Rightarrow> c = CHR ''?''
            | EncUserPassword \<Rightarrow> c \<in> set ''@/?:''
            | EncQuery \<Rightarrow> True
            | _ \<Rightarrow> False)
      else if m = EncFragment \<and> c \<in> set ''!()*'' then False
      else True)"

definition is_hex :: "char \<Rightarrow> bool" where
  "is_hex c \<longleftrightarrow> is_digit c \<or> (97 \<le> code c \<and> code c \<le> 102) \<or> (65 \<le> code c \<and> code c \<le> 70)"

definition unhex :: "char \<Rightarrow> nat" where
  "unhex c = (if is_digit c then code c - 48
              else if 97 \<le> code c \<and> code c \<le> 102 then code c - 87
              else if 65 \<le> code c \<and> code c \<le> 70 then code c - 55
              else 0)"

definition hex_digit :: "nat \<Rightarrow> char" where
  "hex_digit n = (if n < 10 then char_of (48 + n) else char_of (55 + n))"

definition hex_lower :: "nat \<Rightarrow> char" where
  "hex_lower n = (if n < 10 then char_of (48 + n) else char_of (87 + n))"

definition pct_ok :: "encoding \<Rightarrow> char \<Rightarrow> char \<Rightarrow> bool" where
  "pct_ok m a b \<longleftrightarrow> is_hex a \<and> is_hex b
     \<and> (m = EncHost \<longrightarrow> \<not> (unhex a < 8 \<and> [a, b] \<noteq> ''25''))
     \<and> (m = EncZone \<longrightarrow>
          (let v = unhex a * 16 + unhex b
           in [a, b] = ''25'' \<or> v = 32 \<or> \<not> should_escape EncHost (char_of v)))"

fun unescape :: "encoding \<Rightarrow> string \<Rightarrow> string option" where
  "unescape m [] = Some []"
| "unescape m (c # s) =
     (if c = CHR ''%'' then
        (case s of
           a # b # r \<Rightarrow>
             if pct_ok m a b
             then map_option ((#) (char_of (unhex a * 16 + unhex b))) (unescape m r)
             else None
         | _ \<Rightarrow> None)
      else if c = CHR ''+'' \<and> m = EncQuery then map_option ((#) (CHR '' '')) (unescape m s)
      else if (m = EncHost \<or> m = EncZone) \<and> code c < 128 \<and> should_escape m c then None
      else map_option ((#) c) (unescape m s))"

definition escape_char :: "encoding \<Rightarrow> char \<Rightarrow> string" where
  "escape_char m c =
     (if should_escape m c then
        (if c = CHR '' '' \<and> m = EncQuery then ''+''
         else [CHR ''%'', hex_digit (code c div 16), hex_digit (code c mod 16)])
      else [c])"

definition escape :: "encoding \<Rightarrow> string \<Rightarrow> string" where
  "escape m s = concat (map (escape_char m) s)"

definition query_escape :: "string \<Rightarrow> string" where
  "query_escape s = escape EncQuery s"

subsection \<open>The URL record and Parse\<close>

record userinfo =
  username :: string
  password :: "string option"

record url =
  Scheme :: string
  Opaque :: string
  User :: "userinfo option"
  Host :: string
  Path :: string
  RawPath :: string
  OmitHost :: bool
  ForceQuery :: bool
  RawQuery :: string
  Fragment :: string
  RawFragment :: string

definition empty_url :: url where
  "empty_url = \<lparr>Scheme = [], Opaque = [], User = None, Host = [], Path = [], RawPath = [],
     OmitHost = False, ForceQuery = False, RawQuery = [], Fragment = [], RawFragment = []\<rparr>"

definition has_ctl_byte :: "string \<Rightarrow> bool" where
  "has_ctl_byte s \<longleftrightarrow> list_ex (\<lambda>c. code c < 32 \<or> code c = 127) s"

text \<open>\<open>getScheme\<close> scans from position \<open>i\<close>; \<open>raw\<close> is the whole input.\<close>

fun scheme_scan :: "string \<Rightarrow> nat \<Rightarrow> string \<Rightarrow> (string \<times> string) option" where
  "scheme_scan raw i [] = Some ([], raw)"
| "scheme_scan raw i (c # s) =
     (if is_lower c \<or> is_upper c then scheme_scan raw (i + 1) s
      else if is_digit c \<or> c \<in> set ''+-.'' then
        (if i = 0 then Some ([], raw) else scheme_scan raw (i + 1) s)
      else if c = CHR '':'' then (if i = 0 then None else Some (take i raw, s))
      else Some ([], raw))"

definition valid_optional_port :: "string \<Rightarrow> bool" where
  "valid_optional_port p = (case p of [] \<Rightarrow> True | c # r \<Rightarrow> c = CHR '':'' \<and> list_all is_digit r)"

definition valid_userinfo :: "string \<Rightarrow> bool" where
  "valid_userinfo s =
     list_all (\<lambda>c. is_alnum c \<or> c \<in> set ''-._:~!$&()*+,;=%@'' \<union> {CHR 0x27}) s"

definition parse_host :: "string \<Rightarrow> string option" where
  "parse_host host =
     (if has_prefix ''['' host then
        (case last_index_byte (CHR '']'') host of
           None \<Rightarrow> None
         | Some i \<Rightarrow>
             if \<not> valid_optional_port (drop (i + 1) host) then None
             else (case str_index ''%25'' (take i host) of
                     None \<Rightarrow> unescape EncHost host
                   | Some z \<Rightarrow> do {
                       h1 \<leftarrow> unescape EncHost (take z host);
                       h2 \<leftarrow> unescape EncZone (drop z (take i host));
                       h3 \<leftarrow> unescape EncHost (drop i host);
                       Some (h1 @ h2 @ h3)
                     }))
      else (case last_index_byte (CHR '':'') host of
              None \<Rightarrow> unescape EncHost host
            | Some i \<Rightarrow>
                if valid_optional_port (drop i host) then unescape EncHost host else None))"

definition parse_userinfo :: "string \<Rightarrow> userinfo option" where
  "parse_userinfo s =
     (if \<not> valid_userinfo s then None
      else (case cut (CHR '':'') s of
              (name, _, False) \<Rightarrow>
                map_option (\<lambda>u. \<lparr>username = u, password = None\<rparr>) (unescape EncUserPassword name)
            | (name, pass, True) \<Rightarrow> do {
                u \<leftarrow> unescape EncUserPassword name;
                p \<leftarrow> unescape EncUserPassword pass;
                Some \<lparr>username = u, password = Some p\<rparr>
              }))"

definition parse_authority :: "string \<Rightarrow> (userinfo option \<times> string) option" where
  "parse_authority a =
     (case last_index_byte (CHR ''@'') a of
        None \<Rightarrow> map_option (\<lambda>h. (None, h)) (parse_host a)
      | Some i \<Rightarrow> do {
          h \<leftarrow> parse_host (drop (i + 1) a);
          u \<leftarrow> parse_userinfo (take i a);
          Some (Some u, h)
        })"

definition set_path :: "url \<Rightarrow> string \<Rightarrow> url option" where
  "set_path u p =
     map_option (\<lambda>path. u\<lparr>Path := path, RawPath := if p = escape EncPath path then [] else p\<rparr>)
       (unescape EncPath p)"

definition set_fragment :: "url \<Rightarrow> string \<Rightarrow> url option" where
  "set_fragment u f =
     map_option (\<lambda>frag. u\<lparr>Fragment := frag,
                          RawFragment := if f = escape EncFragment frag then [] else f\<rparr>)
       (unescape EncFragment f)"

text \<open>The part of \<open>parse\<close> after the scheme and the query have been split off.\<close>

definition parse_rest :: "url \<Rightarrow> string \<Rightarrow> url option" where
  "parse_rest u rest =
     (if \<not> has_prefix ''/'' rest \<and> Scheme u \<noteq> [] then Some (u\<lparr>Opaque := rest\<rparr>)
      else if \<not> has_prefix ''/'' rest \<and> contains (fst (cut (CHR ''/'') rest)) '':'' then None
      else if (Scheme u \<noteq> [] \<or> \<not> has_prefix ''///'' rest) \<and> has_prefix ''//'' rest then
        (let authority = drop 2 rest;
             n = (case index_byte (CHR ''/'') authority of None \<Rightarrow> length authority | Some i \<Rightarrow> i)
         in case parse_authority (take n authority) of
              None \<Rightarrow> None
            | Some (user, host) \<Rightarrow> set_path (u\<lparr>User := user, Host := host\<rparr>) (drop n authority))
      else if Scheme u \<noteq> [] \<and> has_prefix ''/'' rest then set_path (u\<lparr>OmitHost := True\<rparr>) rest
      else set_path u rest)"

definition parse_no_fragment :: "string \<Rightarrow> url option" where
  "parse_no_fragment raw =
     (if has_ctl_byte raw then None
      else if raw = ''*'' then Some (empty_url\<lparr>Path := ''*''\<rparr>)
      else (case scheme_scan raw 0 raw of
              None \<Rightarrow> None
            | Some (scheme, rest) \<Rightarrow>
                let u = empty_url\<lparr>Scheme := map lower_char scheme\<rparr>
                in if has_suffix ''?'' rest \<and> count_list rest (CHR ''?'') = 1
                   then parse_rest (u\<lparr>ForceQuery := True\<rparr>) (butlast rest)
                   else (case cut (CHR ''?'') rest of
                           (front, query, _) \<Rightarrow> parse_rest (u\<lparr>RawQuery := query\<rparr>) front)))"

definition parse_url :: "string \<Rightarrow> url option" where
  "parse_url raw =
     (case cut (CHR ''#'') raw of
        (front, frag, _) \<Rightarrow>
          (case parse_no_fragment front of
             None \<Rightarrow> None
           | Some u \<Rightarrow> if frag = [] then Some u else set_fragment u frag))"

subsection \<open>Accessors\<close>

definition split_host_port :: "string \<Rightarrow> string \<times> string" where
  "split_host_port hp =
     (let (host, port) =
        (case last_index_byte (CHR '':'') hp of
           None \<Rightarrow> (hp, [])
         | Some i \<Rightarrow> if valid_optional_port (drop i hp) then (take i hp, drop (i + 1) hp)
                     else (hp, []))
      in (if has_prefix ''['' host \<and> has_suffix '']'' host
          then take (length host - 2) (drop 1 host) else host, port))"

definition url_port :: "url \<Rightarrow> string" where
  "url_port u = snd (split_host_port (Host u))"

definition url_hostname :: "url \<Rightarrow> string" where
  "url_hostname u = fst (split_host_port (Host u))"

text \<open>\<open>Query\<close> as the list of its pairs in the order of the string; pairs that do not
  decode are skipped, as the ignored error says.\<close>

definition query_pair :: "string \<Rightarrow> (string \<times> string) option" where
  "query_pair p =
     (if contains p '';'' \<or> p = [] then None
      else (case cut (CHR ''='') p of
              (k, v, _) \<Rightarrow> do {
                k' \<leftarrow> unescape EncQuery k;
                v' \<leftarrow> unescape EncQuery v;
                Some (k', v')
              }))"

definition url_query :: "url \<Rightarrow> (string \<times> string) list" where
  "url_query u = List.map_filter query_pair (split_on ''&'' (RawQuery u))"

subsection \<open>String and ResolveReference\<close>

definition valid_encoded :: "encoding \<Rightarrow> string \<Rightarrow> bool" where
  "valid_encoded m s =
     list_all (\<lambda>c. c \<in> set ''!$&()*+,;=:@[]%'' \<union> {CHR 0x27} \<or> \<not> should_escape m c) s"

definition escaped_path :: "url \<Rightarrow> string" where
  "escaped_path u =
     (if RawPath u \<noteq> [] \<and> valid_encoded EncPath (RawPath u)
         \<and> unescape EncPath (RawPath u) = Some (Path u)
      then RawPath u
      else if Path u = ''*'' then ''*''
      else escape EncPath (Path u))"

definition escaped_fragment :: "url \<Rightarrow> string" where
  "escaped_fragment u =
     (if RawFragment u \<noteq> [] \<and> valid_encoded EncFragment (RawFragment u)
         \<and> unescape EncFragment (RawFragment u) = Some (Fragment u)
      then RawFragment u
      else escape EncFragment (Fragment u))"

definition userinfo_string :: "userinfo \<Rightarrow> string" where
  "userinfo_string ui =
     (if username ui \<noteq> [] \<or> (password ui \<noteq> None \<and> password ui \<noteq> Some [])
      then escape EncUserPassword (username ui) @
           (case password ui of None \<Rightarrow> [] | Some p \<Rightarrow> '':'' @ escape EncUserPassword p)
      else [])"

definition url_string :: "url \<Rightarrow> string" where
  "url_string u =
     (let scheme = (if Scheme u \<noteq> [] then Scheme u @ '':'' else []);
          body =
            (if Opaque u \<noteq> [] then scheme @ Opaque u
             else
               let auth =
                     (if (Scheme u \<noteq> [] \<or> Host u \<noteq> [] \<or> User u \<noteq> None)
                         \<and> \<not> (OmitHost u \<and> Host u = [] \<and> User u = None)
                      then (if Host u \<noteq> [] \<or> Path u \<noteq> [] \<or> User u \<noteq> None then ''//'' else []) @
                           (case User u of None \<Rightarrow> [] | Some ui \<Rightarrow> userinfo_string ui @ ''@'') @
                           escape EncHost (Host u)
                      else []);
                   path = escaped_path u;
                   pre = scheme @ auth @
                     (if path \<noteq> [] \<and> \<not> has_prefix ''/'' path \<and> Host u \<noteq> [] then ''/'' else []);
                   dot = (if pre = [] \<and> contains (fst (cut (CHR ''/'') path)) '':'' then ''./'' else [])
               in pre @ dot @ path)
      in body @
         (if ForceQuery u \<or> RawQuery u \<noteq> [] then ''?'' @ RawQuery u else []) @
         (if Fragment u \<noteq> [] then ''#'' @ escaped_fragment u else []))"

text \<open>One path segment of \<open>resolvePath\<close>: the bytes written after the leading slash and
  the flag \<open>first\<close>.\<close>

definition resolve_seg :: "string \<times> bool \<Rightarrow> string \<Rightarrow> string \<times> bool" where
  "resolve_seg st elem =
     (case st of (dst, first) \<Rightarrow>
        if elem = ''.'' then (dst, False)
        else if elem = ''..'' then
          (case last_index_byte (CHR ''/'') dst of
             None \<Rightarrow> ([], True)
           | Some i \<Rightarrow> (take i dst, first))
        else (dst @ (if first then [] else ''/'') @ elem, False))"

definition resolve_path :: "string \<Rightarrow> string \<Rightarrow> string" where
  "resolve_path base ref =
     (let full = (if ref = [] then base
                  else if hd ref \<noteq> CHR ''/'' then
                    (case last_index_byte (CHR ''/'') base of
                       None \<Rightarrow> ref | Some i \<Rightarrow> take (i + 1) base @ ref)
                  else ref)
      in if full = [] then []
         else let segs = split_on ''/'' full;
                  dst = fst (foldl resolve_seg ([], True) segs);
                  r = ''/'' @ dst @ (if last segs = ''.'' \<or> last segs = ''..'' then ''/'' else [])
              in if has_prefix ''//'' r then drop 1 r else r)"

definition with_path :: "url \<Rightarrow> string \<Rightarrow> url" where
  "with_path u p = (case set_path u p of None \<Rightarrow> u | Some v \<Rightarrow> v)"

definition resolve_reference :: "url \<Rightarrow> url \<Rightarrow> url" where
  "resolve_reference u ref =
     (let url = (if Scheme ref = [] then ref\<lparr>Scheme := Scheme u\<rparr> else ref)
      in if Scheme ref \<noteq> [] \<or> Host ref \<noteq> [] \<or> User ref \<noteq> None
         then with_path url (resolve_path (escaped_path ref) [])
         else if Opaque ref \<noteq> [] then url\<lparr>User := None, Host := [], Path := []\<rparr>
         else
           let url1 =
                 (if Path ref = [] \<and> \<not> ForceQuery ref \<and> RawQuery ref = []
                  then (let v = url\<lparr>RawQuery := RawQuery u\<rparr>
                        in if Fragment ref = []
                           then v\<lparr>Fragment := Fragment u, RawFragment := RawFragment u\<rparr> else v)
                  else url)
           in if Path ref = [] \<and> Opaque u \<noteq> []
              then url1\<lparr>Opaque := Opaque u, User := None, Host := [], Path := []\<rparr>
              else with_path (url1\<lparr>Host := Host u, User := User u\<rparr>)
                     (resolve_path (escaped_path u) (escaped_path ref)))"

end
