(* ===== verification/Crc32.thy ===== *)
theory Crc32
  imports Prelude
begin

text \<open>
  CRC-32 with the IEEE polynomial, as the standard library's
  \<open>hash/crc32.ChecksumIEEE\<close> computes it (reflected polynomial 0xEDB88320, the register
  inverted before and after). The lemmas show that the register update loses no
  information, so that a change confined to one byte always changes the checksum.
\<close>

definition crc_poly :: u32 where
  "crc_poly = 0xEDB88320"

definition crc_step :: "u32 \<Rightarrow> u32" where
  "crc_step c = (if bit c 0 then drop_bit 1 c XOR crc_poly else drop_bit 1 c)"

fun crc_steps :: "nat \<Rightarrow> u32 \<Rightarrow> u32" where
  "crc_steps 0 c = c"
| "crc_steps (Suc n) c = crc_steps n (crc_step c)"

definition crc_update :: "u32 \<Rightarrow> byte \<Rightarrow> u32" where
  "crc_update c b = crc_steps 8 (c XOR ucast b)"

definition checksumIEEE :: "byte list \<Rightarrow> u32" where
  "checksumIEEE bs = NOT (foldl crc_update (NOT 0) bs)"

lemma crc_steps_8:
  "crc_steps 8 c = crc_step (crc_step (crc_step (crc_step (crc_step (crc_step (crc_step (crc_step c)))))))"
  by (simp add: numeral_eq_Suc)

text \<open>The equations that evaluate a checksum of a literal packet with the simplifier.\<close>

lemmas crc_eval = checksumIEEE_def crc_update_def crc_steps_8 crc_step_def crc_poly_def

lemma checksumIEEE_check_string: "checksumIEEE (to_bytes ''123456789'') = 0xCBF43926"
  by (simp add: crc_eval to_bytes_def)

subsection \<open>The register update is injective\<close>

lemma xor_right_cancel: "(a :: 'a::len word) XOR c = b XOR c \<longleftrightarrow> a = b"
  by (auto simp: bit_eq_iff bit_xor_iff)

lemma xor_left_cancel: "c XOR (a :: 'a::len word) = c XOR b \<longleftrightarrow> a = b"
  by (auto simp: bit_eq_iff bit_xor_iff)

lemma crc_poly_top: "bit crc_poly 31"
  by (simp add: crc_poly_def)

lemma crc_step_top: "bit (crc_step c) 31 = bit c 0"
  using crc_poly_top by (auto simp: crc_step_def bit_simps dest: bit_imp_le_length)

lemma crc_step_inj: "crc_step c = crc_step d \<longleftrightarrow> c = d"
proof
  assume eq: "crc_step c = crc_step d"
  then have low: "bit c 0 = bit d 0"
    using crc_step_top by metis
  with eq have hi: "drop_bit 1 c = drop_bit 1 d"
    by (auto simp: crc_step_def xor_right_cancel split: if_splits)
  show "c = d"
  proof (rule bit_word_eqI)
    fix n assume "n < LENGTH(32)"
    show "bit c n = bit d n"
    proof (cases n)
      case 0
      with low show ?thesis by simp
    next
      case (Suc m)
      from hi have "bit (drop_bit 1 c) m = bit (drop_bit 1 d) m" by simp
      with Suc show ?thesis by (simp add: bit_simps)
    qed
  qed
qed simp

lemma crc_steps_inj: "crc_steps n c = crc_steps n d \<longleftrightarrow> c = d"
  by (induction n arbitrary: c d) (simp_all add: crc_step_inj)

lemma ucast_byte_u32_inj: "(ucast (a :: byte) :: u32) = ucast b \<longleftrightarrow> a = b"
proof
  assume "(ucast a :: u32) = ucast b"
  then have "(ucast (ucast a :: u32) :: byte) = ucast (ucast b :: u32)" by simp
  moreover have "(ucast (ucast x :: u32) :: byte) = x" for x :: byte
    by (rule bit_word_eqI) (auto simp: bit_simps)
  ultimately show "a = b" by simp
qed simp

lemma crc_update_inj_state: "crc_update c b = crc_update d b \<longleftrightarrow> c = d"
  by (simp add: crc_update_def crc_steps_inj xor_right_cancel)

lemma crc_update_inj_byte: "crc_update c a = crc_update c b \<longleftrightarrow> a = b"
  by (simp add: crc_update_def crc_steps_inj xor_left_cancel ucast_byte_u32_inj)

lemma foldl_crc_update_inj:
  "foldl crc_update c bs = foldl crc_update d bs \<longleftrightarrow> c = d"
  by (induction bs arbitrary: c d) (simp_all add: crc_update_inj_state)

lemma not_word_inj: "NOT (a :: 'a::len word) = NOT b \<longleftrightarrow> a = b"
  by (auto simp: bit_eq_iff bit_not_iff)

text \<open>A change of exactly one byte is always detected.\<close>

lemma checksumIEEE_one_byte:
  "checksumIEEE (xs @ a # ys) = checksumIEEE (xs @ b # ys) \<longleftrightarrow> a = b"
  by (simp add: checksumIEEE_def not_word_inj foldl_crc_update_inj crc_update_inj_byte)

end
