(* ===== verification/Config.thy ===== *)
theory Config
  imports Net_Url Crc32
begin

text \<open>
  internal/config/config.go: reading and validating the environment. \<open>Load\<close> returns a
  configuration or the first error; the lemmas give what every accepted configuration
  satisfies, which the packet builders and the tuner registry rely on, and the strength of
  the device-id checksum.
\<close>

subsection \<open>Defaults and errors\<close>

definition DefaultServerPort :: int where "DefaultServerPort = 34400"
definition DefaultFriendlyName :: string where "DefaultFriendlyName = ''octotuner''"
definition DefaultPlaylistRefreshSecond :: int where "DefaultPlaylistRefreshSecond = 300"
definition DefaultTunerCount :: int where "DefaultTunerCount = 4"
definition DefaultDeviceID :: string where "DefaultDeviceID = ''105A1B22''"
definition HdhomerunMaxTunerCount :: int where "HdhomerunMaxTunerCount = 255"

lemmas config_defaults =
  DefaultServerPort_def DefaultFriendlyName_def DefaultPlaylistRefreshSecond_def
  DefaultTunerCount_def DefaultDeviceID_def HdhomerunMaxTunerCount_def

text \<open>One constructor per error message; the string is the variable it names.\<close>

datatype config_error =
    IsRequired string
  | HasOuterWhitespace string
  | InvalidURL string
  | NotHttp string
  | NoExplicitPort string
  | HasCredentials string
  | NotOriginOnly string
  | NotPlainDecimal string
  | NotTcpPort string
  | NotPositive string
  | ExceedsMax string int
  | DeviceIDFormat
  | DeviceIDChecksum
  | BlankDeviceAuth
  | PortMismatch

record config =
  M3UURL :: url
  AdvertisedBaseURL :: url
  ServerPort :: int
  FriendlyName :: string
  PlaylistRefreshSeconds :: int
  TunerCount :: int
  DeviceID :: string
  DeviceAuth :: string

subsection \<open>Field parsers\<close>

type_synonym environment = "string \<rightharpoonup> string"

definition getenv :: "environment \<Rightarrow> string \<Rightarrow> string" where
  "getenv env key = (case env key of None \<Rightarrow> [] | Some v \<Rightarrow> v)"

definition defaultString :: "string \<Rightarrow> string \<Rightarrow> string" where
  "defaultString v fallback = (if v = [] then fallback else v)"

definition parseURL :: "environment \<Rightarrow> string \<Rightarrow> config_error + url" where
  "parseURL env key =
     (case env key of
        None \<Rightarrow> Inl (IsRequired key)
      | Some v \<Rightarrow>
          if v = [] then Inl (IsRequired key)
          else if trim_space v \<noteq> v then Inl (HasOuterWhitespace key)
          else (case parse_url v of
                  None \<Rightarrow> Inl (InvalidURL key)
                | Some parsed \<Rightarrow>
                    if Scheme parsed = [] \<or> Host parsed = [] then Inl (InvalidURL key)
                    else if Scheme parsed \<notin> {''http'', ''https''} then Inl (NotHttp key)
                    else Inr parsed))"

definition requireExplicitPort :: "url \<Rightarrow> string \<Rightarrow> config_error + unit" where
  "requireExplicitPort v key = (if url_port v = [] then Inl (NoExplicitPort key) else Inr ())"

definition requireOriginOnlyBaseURL :: "url \<Rightarrow> string \<Rightarrow> config_error + unit" where
  "requireOriginOnlyBaseURL v key =
     (if User v \<noteq> None then Inl (HasCredentials key)
      else if (Path v \<noteq> [] \<and> Path v \<noteq> ''/'') \<or> RawQuery v \<noteq> [] \<or> Fragment v \<noteq> []
      then Inl (NotOriginOnly key)
      else Inr ())"

text \<open>The pattern \<open>^(0|[1-9]\d*)$\<close>.\<close>

definition plain_decimal :: "string \<Rightarrow> bool" where
  "plain_decimal s \<longleftrightarrow> s = ''0'' \<or> (s \<noteq> [] \<and> hd s \<noteq> CHR ''0'' \<and> list_all is_digit s)"

definition parsePort :: "string \<Rightarrow> string \<Rightarrow> int \<Rightarrow> config_error + int" where
  "parsePort v key fallback =
     (if v = [] then Inr fallback
      else if \<not> plain_decimal v then Inl (NotPlainDecimal key)
      else let (parsed, err) = atoi v
           in if err \<or> parsed < 1 \<or> parsed > 65535 then Inl (NotTcpPort key) else Inr parsed)"

definition parsePositiveInt :: "string \<Rightarrow> string \<Rightarrow> int \<Rightarrow> int \<Rightarrow> config_error + int" where
  "parsePositiveInt v key fallback maximum =
     (if v = [] then Inr fallback
      else if \<not> plain_decimal v then Inl (NotPlainDecimal key)
      else let (parsed, err) = atoi v
           in if err \<or> parsed \<le> 0 then Inl (NotPositive key)
              else if maximum > 0 \<and> parsed > maximum then Inl (ExceedsMax key maximum)
              else Inr parsed)"

definition deviceIDLookupTbl :: "u32 list" where
  "deviceIDLookupTbl =
     [0xA, 0x5, 0xF, 0x6, 0x7, 0xC, 0x1, 0xB, 0x9, 0x2, 0x8, 0xD, 0x4, 0x3, 0xE, 0x0]"

text \<open>\<open>strconv.ParseUint(s, 16, 32)\<close>; \<open>None\<close> is its error.\<close>

definition parse_hex32 :: "string \<Rightarrow> nat option" where
  "parse_hex32 s =
     (if s = [] \<or> \<not> list_all is_hex s then None
      else let v = foldl (\<lambda>n c. 16 * n + unhex c) 0 s
           in if v < 2 ^ 32 then Some v else None)"

definition nibble :: "64 word \<Rightarrow> nat \<Rightarrow> 64 word" where
  "nibble v n = drop_bit n v AND 0x0F"

definition deviceIDChecksum :: "64 word \<Rightarrow> u32" where
  "deviceIDChecksum v =
     deviceIDLookupTbl ! unat (nibble v 28) XOR ucast (nibble v 24) XOR
     deviceIDLookupTbl ! unat (nibble v 20) XOR ucast (nibble v 16) XOR
     deviceIDLookupTbl ! unat (nibble v 12) XOR ucast (nibble v 8) XOR
     deviceIDLookupTbl ! unat (nibble v 4) XOR ucast (nibble v 0)"

definition isValidHdhomerunDeviceID :: "string \<Rightarrow> bool" where
  "isValidHdhomerunDeviceID s =
     (case parse_hex32 s of None \<Rightarrow> False | Some v \<Rightarrow> deviceIDChecksum (of_nat v) = 0)"

definition is_upper_hex :: "char \<Rightarrow> bool" where
  "is_upper_hex c \<longleftrightarrow> is_digit c \<or> (65 \<le> code c \<and> code c \<le> 70)"

definition normalizeDeviceID :: "unicode \<Rightarrow> string \<Rightarrow> config_error + string" where
  "normalizeDeviceID U v =
     (let deviceID = to_upper U (trim_space v)
      in if \<not> (length deviceID = 8 \<and> list_all is_upper_hex deviceID) then Inl DeviceIDFormat
         else if \<not> isValidHdhomerunDeviceID deviceID then Inl DeviceIDChecksum
         else Inr deviceID)"

definition portFromURL :: "url \<Rightarrow> int" where
  "portFromURL v =
     (if url_port v \<noteq> [] then fst (atoi (url_port v))
      else if Scheme v = ''https'' then 443
      else 80)"

subsection \<open>Load\<close>

definition Load :: "unicode \<Rightarrow> environment \<Rightarrow> config_error + config" where
  "Load U env =
     and_then (parseURL env ''M3U_URL'') (\<lambda>m3uURL.
     and_then (parseURL env ''ADVERTISED_BASE_URL'') (\<lambda>advertisedBaseURL.
     and_then (requireExplicitPort advertisedBaseURL ''ADVERTISED_BASE_URL'') (\<lambda>_.
     and_then (requireOriginOnlyBaseURL advertisedBaseURL ''ADVERTISED_BASE_URL'') (\<lambda>_.
     and_then (parsePort (getenv env ''SERVER_PORT'') ''SERVER_PORT'' DefaultServerPort) (\<lambda>serverPort.
     let friendlyName =
       (let name = trim_space (getenv env ''HDHR_FRIENDLY_NAME'')
        in if name = [] then DefaultFriendlyName else name) in
     and_then (parsePositiveInt (getenv env ''PLAYLIST_REFRESH_SECONDS'')
       ''PLAYLIST_REFRESH_SECONDS'' DefaultPlaylistRefreshSecond 0) (\<lambda>refreshSeconds.
     and_then (parsePositiveInt (getenv env ''HDHR_TUNER_COUNT'')
       ''HDHR_TUNER_COUNT'' DefaultTunerCount HdhomerunMaxTunerCount) (\<lambda>tunerCount.
     and_then (normalizeDeviceID U (defaultString (getenv env ''HDHR_DEVICE_ID'') DefaultDeviceID))
       (\<lambda>deviceID.
     let deviceAuth =
       (if getenv env ''HDHR_DEVICE_AUTH'' = [] then ''octotuner-'' @ deviceID
        else getenv env ''HDHR_DEVICE_AUTH'') in
     if trim_space deviceAuth = [] then Inl BlankDeviceAuth
     else if serverPort \<noteq> portFromURL advertisedBaseURL then Inl PortMismatch
     else Inr \<lparr>M3UURL = m3uURL, AdvertisedBaseURL = advertisedBaseURL,
       ServerPort = serverPort, FriendlyName = friendlyName,
       PlaylistRefreshSeconds = refreshSeconds, TunerCount = tunerCount,
       DeviceID = deviceID, DeviceAuth = deviceAuth\<rparr>))))))))"

subsection \<open>What an accepted configuration satisfies\<close>

lemma parsePort_range:
  "parsePort v key fallback = Inr p \<Longrightarrow> 1 \<le> fallback \<Longrightarrow> fallback \<le> 65535 \<Longrightarrow> 1 \<le> p \<and> p \<le> 65535"
  by (auto simp: parsePort_def split: if_splits prod.splits)

lemma parsePositiveInt_range:
  "parsePositiveInt v key fallback maximum = Inr p \<Longrightarrow> 1 \<le> fallback \<Longrightarrow>
   1 \<le> p \<and> (0 < maximum \<longrightarrow> fallback \<le> maximum \<longrightarrow> p \<le> maximum)"
  by (auto simp: parsePositiveInt_def split: if_splits prod.splits)

lemma parseURL_Inr:
  "parseURL env key = Inr u \<Longrightarrow>
     Scheme u \<in> {''http'', ''https''} \<and> Host u \<noteq> [] \<and>
     (\<exists>v. env key = Some v \<and> parse_url v = Some u)"
  by (auto simp: parseURL_def split: if_splits option.splits)

lemma normalizeDeviceID_Inr:
  "normalizeDeviceID U v = Inr d \<Longrightarrow>
     length d = 8 \<and> list_all is_upper_hex d \<and> isValidHdhomerunDeviceID d"
  by (auto simp: normalizeDeviceID_def Let_def split: if_splits)

definition url_ok :: "url \<Rightarrow> bool" where
  "url_ok u \<longleftrightarrow> Scheme u \<in> {''http'', ''https''} \<and> Host u \<noteq> []"

definition origin_only :: "url \<Rightarrow> bool" where
  "origin_only u \<longleftrightarrow> url_ok u \<and> url_port u \<noteq> [] \<and> User u = None \<and> Path u \<in> {[], ''/''}
     \<and> RawQuery u = [] \<and> Fragment u = []"

definition device_id_ok :: "string \<Rightarrow> bool" where
  "device_id_ok d \<longleftrightarrow> length d = 8 \<and> list_all is_upper_hex d \<and> isValidHdhomerunDeviceID d"

definition valid_config :: "config \<Rightarrow> bool" where
  "valid_config cfg \<longleftrightarrow>
     url_ok (M3UURL cfg) \<and> origin_only (AdvertisedBaseURL cfg)
     \<and> 1 \<le> ServerPort cfg \<and> ServerPort cfg \<le> 65535
     \<and> fst (atoi (url_port (AdvertisedBaseURL cfg))) = ServerPort cfg
     \<and> FriendlyName cfg \<noteq> []
     \<and> 1 \<le> PlaylistRefreshSeconds cfg
     \<and> 1 \<le> TunerCount cfg \<and> TunerCount cfg \<le> 255
     \<and> device_id_ok (DeviceID cfg)
     \<and> trim_space (DeviceAuth cfg) \<noteq> []"

lemma Load_Inr:
  assumes "Load U env = Inr cfg"
  shows "parseURL env ''M3U_URL'' = Inr (M3UURL cfg)"
    and "parseURL env ''ADVERTISED_BASE_URL'' = Inr (AdvertisedBaseURL cfg)"
    and "requireExplicitPort (AdvertisedBaseURL cfg) ''ADVERTISED_BASE_URL'' = Inr ()"
    and "requireOriginOnlyBaseURL (AdvertisedBaseURL cfg) ''ADVERTISED_BASE_URL'' = Inr ()"
    and "parsePort (getenv env ''SERVER_PORT'') ''SERVER_PORT'' DefaultServerPort = Inr (ServerPort cfg)"
    and "FriendlyName cfg \<noteq> []"
    and "parsePositiveInt (getenv env ''PLAYLIST_REFRESH_SECONDS'') ''PLAYLIST_REFRESH_SECONDS''
           DefaultPlaylistRefreshSecond 0 = Inr (PlaylistRefreshSeconds cfg)"
    and "parsePositiveInt (getenv env ''HDHR_TUNER_COUNT'') ''HDHR_TUNER_COUNT''
           DefaultTunerCount HdhomerunMaxTunerCount = Inr (TunerCount cfg)"
    and "normalizeDeviceID U (defaultString (getenv env ''HDHR_DEVICE_ID'') DefaultDeviceID) =
           Inr (DeviceID cfg)"
    and "trim_space (DeviceAuth cfg) \<noteq> []"
    and "ServerPort cfg = portFromURL (AdvertisedBaseURL cfg)"
  using assms unfolding Load_def and_then_Inr_iff Let_def
  by (clarsimp simp: DefaultFriendlyName_def split: if_split_asm)+

lemma Load_valid: "Load U env = Inr cfg \<Longrightarrow> valid_config cfg"
proof -
  assume L: "Load U env = Inr cfg"
  note F = Load_Inr [OF L]
  from F(1) have "url_ok (M3UURL cfg)"
    by (auto simp: url_ok_def dest: parseURL_Inr)
  moreover from F(2,3,4) have "origin_only (AdvertisedBaseURL cfg)"
    by (auto simp: origin_only_def url_ok_def requireExplicitPort_def
        requireOriginOnlyBaseURL_def dest: parseURL_Inr split: if_splits)
  moreover from F(5) have "1 \<le> ServerPort cfg \<and> ServerPort cfg \<le> 65535"
    by (rule parsePort_range) (simp_all add: config_defaults)
  moreover from F(3,11) have "fst (atoi (url_port (AdvertisedBaseURL cfg))) = ServerPort cfg"
    by (auto simp: requireExplicitPort_def portFromURL_def split: if_splits)
  moreover from F(7) have "1 \<le> PlaylistRefreshSeconds cfg"
    by (auto dest: parsePositiveInt_range simp: config_defaults)
  moreover from F(8) have "1 \<le> TunerCount cfg \<and> TunerCount cfg \<le> 255"
    by (auto dest: parsePositiveInt_range simp: config_defaults)
  moreover from F(9) have "device_id_ok (DeviceID cfg)"
    by (auto simp: device_id_ok_def dest: normalizeDeviceID_Inr)
  ultimately show ?thesis
    using F(6,10) by (simp add: valid_config_def)
qed

subsection \<open>The device-id checksum over its eight digits\<close>

lemma unat_nibble: "v < 2 ^ 32 \<Longrightarrow> unat (nibble (of_nat v) k) = v div 2 ^ k mod 16"
proof -
  assume v: "v < 2 ^ 32"
  have "nibble (of_nat v) k = take_bit 4 (drop_bit k (of_nat v))"
    by (simp add: nibble_def take_bit_eq_mask mask_eq_exp_minus_1)
  also have "unat \<dots> = take_bit 4 (drop_bit k v)"
    using v by (simp add: unsigned_take_bit_eq unsigned_drop_bit_eq unsigned_of_nat take_bit_nat_eq_self)
  finally show ?thesis
    by (simp add: take_bit_eq_mod drop_bit_eq_div)
qed

lemma unhex_lt: "unhex c < 16"
  by (auto simp: unhex_def is_digit_def)

definition id_checksum :: "nat list \<Rightarrow> u32" where
  "id_checksum ds =
     deviceIDLookupTbl ! (ds ! 0) XOR of_nat (ds ! 1) XOR
     deviceIDLookupTbl ! (ds ! 2) XOR of_nat (ds ! 3) XOR
     deviceIDLookupTbl ! (ds ! 4) XOR of_nat (ds ! 5) XOR
     deviceIDLookupTbl ! (ds ! 6) XOR of_nat (ds ! 7)"


definition hexval :: "nat list \<Rightarrow> nat" where
  "hexval ds = foldl (\<lambda>n d. 16 * n + d) 0 ds"

lemma hexval_snoc: "hexval (ds @ [d]) = 16 * hexval ds + d"
  by (simp add: hexval_def)

lemma hexval_digit:
  "\<forall>d \<in> set ds. d < 16 \<Longrightarrow> k < length ds \<Longrightarrow> hexval ds div 16 ^ k mod 16 = rev ds ! k"
proof (induction ds arbitrary: k rule: rev_induct)
  case (snoc d ds)
  show ?case
  proof (cases k)
    case 0
    with snoc.prems show ?thesis by (simp add: hexval_snoc)
  next
    case (Suc j)
    have "(16 * hexval ds + d) div 16 = hexval ds" using snoc.prems by simp
    then have "hexval (ds @ [d]) div 16 ^ k = hexval ds div 16 ^ j"
      using Suc by (simp add: hexval_snoc div_mult2_eq)
    with snoc Suc show ?thesis by simp
  qed
qed simp

lemma hexval_bound: "\<forall>d \<in> set ds. d < 16 \<Longrightarrow> hexval ds < 16 ^ length ds"
proof (induction ds rule: rev_induct)
  case (snoc d ds)
  then have "hexval ds + 1 \<le> 16 ^ length ds" "d < 16" by auto
  then have "16 * hexval ds + d < 16 * 16 ^ length ds" by linarith
  then show ?case by (simp add: hexval_snoc)
qed (simp add: hexval_def)

lemma ucast_nibble:
  "v < 2 ^ 32 \<Longrightarrow> (ucast (nibble (of_nat v) k) :: u32) = of_nat (v div 2 ^ k mod 16)"
proof -
  assume v: "v < 2 ^ 32"
  have "(ucast (nibble (of_nat v) k) :: u32) = of_nat (unat (nibble (of_nat v) k))"
    by simp
  then show ?thesis by (simp only: unat_nibble [OF v])
qed

lemma checksum_hexval:
  assumes "length ds = 8" and small: "\<forall>d \<in> set ds. d < 16"
  shows "deviceIDChecksum (of_nat (hexval ds)) = id_checksum ds"
proof -
  have v: "hexval ds < 2 ^ 32"
    using hexval_bound [OF small] assms(1) by simp
  have "hexval ds div 2 ^ (4 * k) mod 16 = ds ! (7 - k)" if "k < 8" for k
    using hexval_digit [OF small, of k] that assms(1) by (simp add: rev_nth power_mult)
  from this [of 7] this [of 6] this [of 5] this [of 4] this [of 3] this [of 2] this [of 1] this [of 0]
  show ?thesis
    unfolding deviceIDChecksum_def id_checksum_def unat_nibble [OF v] ucast_nibble [OF v] by simp
qed

lemma isValid_iff:
  assumes "length s = 8"
  shows "isValidHdhomerunDeviceID s \<longleftrightarrow> list_all is_hex s \<and> id_checksum (map unhex s) = 0"
proof -
  have "foldl (\<lambda>n c. 16 * n + unhex c) 0 s = hexval (map unhex s)"
    by (simp add: hexval_def foldl_map)
  moreover have "hexval (map unhex s) < 2 ^ 32"
    using hexval_bound [of "map unhex s"] assms by (simp add: unhex_lt)
  ultimately show ?thesis
    using assms checksum_hexval [of "map unhex s"]
    by (auto simp: isValidHdhomerunDeviceID_def parse_hex32_def unhex_lt Let_def)
qed

lemma lookup_inj: "distinct deviceIDLookupTbl" "length deviceIDLookupTbl = 16"
  by (simp_all add: deviceIDLookupTbl_def)

lemma of_nat_small_inj: "a < 16 \<Longrightarrow> b < 16 \<Longrightarrow> (of_nat a :: u32) = of_nat b \<longleftrightarrow> a = b"
  by (simp add: word_unat_eq_iff unsigned_of_nat take_bit_nat_eq_self)

lemma lookup_eq_iff:
  "a < 16 \<Longrightarrow> b < 16 \<Longrightarrow> deviceIDLookupTbl ! a = deviceIDLookupTbl ! b \<longleftrightarrow> a = b"
  using nth_eq_iff_index_eq [OF lookup_inj(1)] lookup_inj(2) by simp

lemma id_checksum_update:
  assumes "length ds = 8" "i < 8" "d < 16" "ds ! i < 16"
  shows "id_checksum (ds[i := d]) = id_checksum ds \<longleftrightarrow> d = ds ! i"
proof -
  have "i \<in> {0, 1, 2, 3, 4, 5, 6, 7}" using assms(2) by auto
  then show ?thesis
    using assms
    by (auto simp: id_checksum_def xor_left_cancel xor_right_cancel lookup_eq_iff of_nat_small_inj)
qed

subsection \<open>A concrete configuration\<close>

definition example_env :: environment where
  "example_env = [''M3U_URL'' \<mapsto> ''http://tv.lan/list.m3u'',
     ''ADVERTISED_BASE_URL'' \<mapsto> ''http://10.0.0.2:34400'', ''HDHR_TUNER_COUNT'' \<mapsto> ''2'']"

definition example_config :: config where
  "example_config = \<lparr>
     M3UURL = empty_url\<lparr>Scheme := ''http'', Host := ''tv.lan'', Path := ''/list.m3u''\<rparr>,
     AdvertisedBaseURL = empty_url\<lparr>Scheme := ''http'', Host := ''10.0.0.2:34400''\<rparr>,
     ServerPort = 34400, FriendlyName = ''octotuner'', PlaylistRefreshSeconds = 300,
     TunerCount = 2, DeviceID = ''105A1B22'', DeviceAuth = ''octotuner-105A1B22''\<rparr>"

lemma default_id_valid: "isValidHdhomerunDeviceID DefaultDeviceID"
proof -
  have "map unhex DefaultDeviceID = [1, 0, 5, 10, 1, 11, 2, 2]" by code_simp
  moreover have "list_all is_hex DefaultDeviceID" "length DefaultDeviceID = 8" by code_simp+
  moreover have "id_checksum [1, 0, 5, 10, 1, 11, 2, 2] = 0"
    by (simp add: id_checksum_def deviceIDLookupTbl_def)
  ultimately show ?thesis by (simp add: isValid_iff)
qed

lemma example_device_id:
  "normalizeDeviceID ascii_only (defaultString (getenv example_env ''HDHR_DEVICE_ID'') DefaultDeviceID)
     = Inr ''105A1B22''"
proof -
  have "to_upper ascii_only (trim_space DefaultDeviceID) = DefaultDeviceID"
    "defaultString (getenv example_env ''HDHR_DEVICE_ID'') DefaultDeviceID = DefaultDeviceID"
    "length DefaultDeviceID = 8 \<and> list_all is_upper_hex DefaultDeviceID"
    by code_simp+
  then show ?thesis
    using default_id_valid by (simp add: normalizeDeviceID_def) (simp add: DefaultDeviceID_def)
qed

lemma example_load: "Load ascii_only example_env = Inr example_config"
proof -
  have "parseURL example_env ''M3U_URL'' = Inr (M3UURL example_config)"
    "parseURL example_env ''ADVERTISED_BASE_URL'' = Inr (AdvertisedBaseURL example_config)"
    "requireExplicitPort (AdvertisedBaseURL example_config) ''ADVERTISED_BASE_URL'' = Inr ()"
    "requireOriginOnlyBaseURL (AdvertisedBaseURL example_config) ''ADVERTISED_BASE_URL'' = Inr ()"
    "parsePort (getenv example_env ''SERVER_PORT'') ''SERVER_PORT'' DefaultServerPort = Inr 34400"
    "trim_space (getenv example_env ''HDHR_FRIENDLY_NAME'') = []"
    "parsePositiveInt (getenv example_env ''PLAYLIST_REFRESH_SECONDS'')
       ''PLAYLIST_REFRESH_SECONDS'' DefaultPlaylistRefreshSecond 0 = Inr 300"
    "parsePositiveInt (getenv example_env ''HDHR_TUNER_COUNT'')
       ''HDHR_TUNER_COUNT'' DefaultTunerCount HdhomerunMaxTunerCount = Inr 2"
    "getenv example_env ''HDHR_DEVICE_AUTH'' = []"
    "trim_space (''octotuner-'' @ ''105A1B22'') = ''octotuner-105A1B22''"
    "portFromURL (AdvertisedBaseURL example_config) = 34400"
    by code_simp+
  then show ?thesis
    unfolding Load_def by (simp add: example_device_id)
      (simp add: example_config_def DefaultFriendlyName_def)
qed

subsection \<open>Properties\<close>

text \<open>
  C23 What startup guarantees. Every configuration \<open>Load\<close> accepts has an http or https
  playlist address with a host; an advertised address that is an origin and nothing more,
  with an explicit port equal to the server port; a server port that is a TCP port; a
  non-empty name; a positive refresh interval; between 1 and 255 tuners; a device id of
  eight upper-case hexadecimal digits whose checksum is right; and a token that is not blank.
\<close>

theorem Load_accepts_only_valid:
  assumes "Load U env = Inr cfg"
  shows "valid_config cfg \<and> origin_only (AdvertisedBaseURL cfg) \<and>
    fst (atoi (url_port (AdvertisedBaseURL cfg))) = ServerPort cfg \<and>
    1 \<le> TunerCount cfg \<and> TunerCount cfg \<le> HdhomerunMaxTunerCount \<and>
    length (DeviceID cfg) = 8 \<and> list_all is_upper_hex (DeviceID cfg) \<and>
    isValidHdhomerunDeviceID (DeviceID cfg)"
  using Load_valid [OF assms] by (simp add: valid_config_def device_id_ok_def config_defaults)

lemma Load_accepts_only_valid_witness:
  "Load ascii_only example_env = Inr example_config \<and> valid_config example_config"
  using Load_accepts_only_valid [OF example_load] example_load by simp

text \<open>
  The device-id checksum catches every mistyped digit. Changing one of the eight
  digits of a valid id to a character that stands for another digit makes it invalid
  (changing only the case of a digit keeps it valid).
\<close>

theorem device_id_one_digit:
  assumes "length s = 8" and "isValidHdhomerunDeviceID s" and "i < 8" and "is_hex c"
  shows "isValidHdhomerunDeviceID (s[i := c]) \<longleftrightarrow> unhex c = unhex (s ! i)"
proof -
  have hex: "list_all is_hex s" and sum: "id_checksum (map unhex s) = 0"
    using assms(1,2) by (simp_all add: isValid_iff)
  from hex have "list_all is_hex (s[i := c])"
    using assms(1,3,4) by (auto simp: list_all_length nth_list_update)
  then have "isValidHdhomerunDeviceID (s[i := c]) \<longleftrightarrow> id_checksum ((map unhex s)[i := unhex c]) = 0"
    using assms(1) by (simp add: isValid_iff map_update)
  also have "\<dots> \<longleftrightarrow> unhex c = unhex (s ! i)"
    using id_checksum_update [of "map unhex s" i "unhex c"] assms(1,3) sum by (simp add: unhex_lt)
  finally show ?thesis .
qed

lemma device_id_one_digit_witness:
  "isValidHdhomerunDeviceID DefaultDeviceID \<and>
   \<not> isValidHdhomerunDeviceID (DefaultDeviceID[3 := CHR ''B''])"
proof -
  have "length DefaultDeviceID = 8" "is_hex CHR ''B''" "unhex CHR ''B'' \<noteq> unhex (DefaultDeviceID ! 3)"
    by code_simp+
  then show ?thesis
    using device_id_one_digit [of DefaultDeviceID 3 "CHR ''B''"] default_id_valid by simp
qed

lemma example_valid: "valid_config example_config"
  by (rule Load_valid [OF example_load])

end
