(* ===== verification/Hdhr.thy ===== *)
theory Hdhr
  imports Config
begin

text \<open>
  internal/hdhr: the identity the bridge presents (profile.go), the UDN (device.go), the
  /discover.json answer (discover.go) and the lineup status (lineup.go).
\<close>

definition Manufacturer :: string where "Manufacturer = ''Silicondust''"
definition ModelName :: string where "ModelName = ''HDTC-2US''"
definition ModelNumber :: string where "ModelNumber = ''HDTC-2US''"
definition FirmwareName :: string where "FirmwareName = ''hdhomeruntc_atsc''"
definition FirmwareVersion :: string where "FirmwareVersion = ''20150826''"

definition BuildDeviceUdn :: "string \<Rightarrow> string" where
  "BuildDeviceUdn deviceID = ''uuid:'' @ deviceID"

record discover_response =
  dr_FriendlyName :: string
  dr_Manufacturer :: string
  dr_ModelNumber :: string
  dr_FirmwareName :: string
  dr_FirmwareVersion :: string
  dr_DeviceID :: string
  dr_DeviceAuth :: string
  dr_BaseURL :: string
  dr_LineupURL :: string
  dr_TunerCount :: int

definition BuildDiscoverJSON ::
  "string \<Rightarrow> string \<Rightarrow> string \<Rightarrow> url \<Rightarrow> int \<Rightarrow> discover_response" where
  "BuildDiscoverJSON friendlyName deviceID deviceAuth baseURL tunerCount =
     (let origin = Scheme baseURL @ ''://'' @ Host baseURL
      in \<lparr>dr_FriendlyName = friendlyName,
          dr_Manufacturer = Manufacturer,
          dr_ModelNumber = ModelNumber,
          dr_FirmwareName = FirmwareName,
          dr_FirmwareVersion = FirmwareVersion,
          dr_DeviceID = deviceID,
          dr_DeviceAuth = deviceAuth,
          dr_BaseURL = origin,
          dr_LineupURL = origin @ ''/lineup.json'',
          dr_TunerCount = tunerCount\<rparr>)"

record lineup_status =
  ScanInProgress :: int
  ScanPossible :: int
  Source :: string
  SourceList :: "string list"

definition BuildLineupStatus :: lineup_status where
  "BuildLineupStatus =
     \<lparr>ScanInProgress = 0, ScanPossible = 0, Source = ''Cable'', SourceList = [''Cable'']\<rparr>"

end
