(* ===== verification/Tlv.thy ===== *)
theory Tlv
  imports Crc32
begin

text \<open>
  internal/discovery/tlv.go: the tag-length-value encoding of the HDHomeRun protocol and
  the fixed-width readers. The theory also holds the abstract view of a payload as a list
  of (tag, value) pairs, \<open>parse_tlvs\<close>, which the discovery and control parsers are
  shown to refine, and its round trip with \<open>encodeTag\<close>, stated over the interface of a
  variable-length codec.
\<close>

subsection \<open>Wire constants\<close>

definition hdhomerunTypeDiscoverRequest :: u16 where "hdhomerunTypeDiscoverRequest = 0x0002"
definition hdhomerunTypeDiscoverReply :: u16 where "hdhomerunTypeDiscoverReply = 0x0003"
definition hdhomerunTypeGetSetRequest :: u16 where "hdhomerunTypeGetSetRequest = 0x0004"
definition hdhomerunTypeGetSetReply :: u16 where "hdhomerunTypeGetSetReply = 0x0005"

definition hdhomerunTagDeviceType :: byte where "hdhomerunTagDeviceType = 0x01"
definition hdhomerunTagDeviceID :: byte where "hdhomerunTagDeviceID = 0x02"
definition hdhomerunTagGetSetName :: byte where "hdhomerunTagGetSetName = 0x03"
definition hdhomerunTagGetSetValue :: byte where "hdhomerunTagGetSetValue = 0x04"
definition hdhomerunTagErrorMessage :: byte where "hdhomerunTagErrorMessage = 0x05"
definition hdhomerunTagTunerCount :: byte where "hdhomerunTagTunerCount = 0x10"
definition hdhomerunTagLineupURL :: byte where "hdhomerunTagLineupURL = 0x27"
definition hdhomerunTagBaseURL :: byte where "hdhomerunTagBaseURL = 0x2A"
definition hdhomerunTagDeviceAuth :: byte where "hdhomerunTagDeviceAuth = 0x2B"
definition hdhomerunTagMultiType :: byte where "hdhomerunTagMultiType = 0x2D"

definition hdhomerunDeviceTypeWildcard :: u32 where "hdhomerunDeviceTypeWildcard = 0xFFFFFFFF"
definition hdhomerunDeviceTypeTuner :: u32 where "hdhomerunDeviceTypeTuner = 0x00000001"
definition hdhomerunDeviceTypeStorage :: u32 where "hdhomerunDeviceTypeStorage = 0x00000005"

lemmas wire_constants =
  hdhomerunTypeDiscoverRequest_def hdhomerunTypeDiscoverReply_def
  hdhomerunTypeGetSetRequest_def hdhomerunTypeGetSetReply_def
  hdhomerunTagDeviceType_def hdhomerunTagDeviceID_def hdhomerunTagGetSetName_def
  hdhomerunTagGetSetValue_def hdhomerunTagErrorMessage_def hdhomerunTagTunerCount_def
  hdhomerunTagLineupURL_def hdhomerunTagBaseURL_def hdhomerunTagDeviceAuth_def
  hdhomerunTagMultiType_def hdhomerunDeviceTypeWildcard_def hdhomerunDeviceTypeTuner_def
  hdhomerunDeviceTypeStorage_def

subsection \<open>Variable-length integers and tags\<close>

record hdhomerunVarLength =
  byteLength :: nat
  lengthValue :: nat

definition encodeHdhomerunVarLength :: "nat \<Rightarrow> byte list" where
  "encodeHdhomerunVarLength n =
     (if n \<le> 0x7F then [of_nat n]
      else [of_nat ((n AND 0x7F) OR 0x80), of_nat (drop_bit 7 n)])"

definition readHdhomerunVarLength :: "byte list \<Rightarrow> nat \<Rightarrow> hdhomerunVarLength option" where
  "readHdhomerunVarLength packet offset =
     (if offset \<ge> length packet then None
      else let firstByte = packet ! offset
           in if firstByte AND 0x80 = 0
              then Some \<lparr>byteLength = 1, lengthValue = unat firstByte\<rparr>
              else if offset + 1 \<ge> length packet then None
              else Some \<lparr>byteLength = 2,
                lengthValue =
                  unat (firstByte AND 0x7F) OR push_bit 7 (unat (packet ! (offset + 1)))\<rparr>)"

definition encodeTag :: "byte \<Rightarrow> byte list \<Rightarrow> byte list" where
  "encodeTag t v = [t] @ encodeHdhomerunVarLength (length v) @ v"

definition crc32IEEE :: "byte list \<Rightarrow> u32" where
  "crc32IEEE data = checksumIEEE data"

definition readUint16BE :: "byte list \<Rightarrow> nat \<Rightarrow> u16 go" where
  "readUint16BE packet offset = do {
     a \<leftarrow> index packet offset;
     b \<leftarrow> index packet (offset + 1);
     Some (push_bit 8 (ucast a) OR ucast b)
   }"

definition readUint32BE :: "byte list \<Rightarrow> nat \<Rightarrow> u32 go" where
  "readUint32BE packet offset = do {
     a \<leftarrow> index packet offset;
     b \<leftarrow> index packet (offset + 1);
     c \<leftarrow> index packet (offset + 2);
     d \<leftarrow> index packet (offset + 3);
     Some (push_bit 24 (ucast a) OR push_bit 16 (ucast b) OR push_bit 8 (ucast c) OR ucast d)
   }"

definition readUint32LE :: "byte list \<Rightarrow> nat \<Rightarrow> u32 go" where
  "readUint32LE packet offset = do {
     a \<leftarrow> index packet offset;
     b \<leftarrow> index packet (offset + 1);
     c \<leftarrow> index packet (offset + 2);
     d \<leftarrow> index packet (offset + 3);
     Some (ucast a OR push_bit 8 (ucast b) OR push_bit 16 (ucast c) OR push_bit 24 (ucast d))
   }"

subsection \<open>The readers in terms of the shared byte facts\<close>

lemma readUint16BE_eq:
  "offset + 1 < length p \<Longrightarrow>
   readUint16BE p offset = Some (be16 (p ! offset) (p ! (offset + 1)))"
  by (simp add: readUint16BE_def be16_def go_eval)

lemma readUint32BE_eq:
  "offset + 3 < length p \<Longrightarrow>
   readUint32BE p offset =
     Some (be32 (p ! offset) (p ! (offset + 1)) (p ! (offset + 2)) (p ! (offset + 3)))"
  by (simp add: readUint32BE_def be32_def go_eval)

lemma readUint32LE_eq:
  "offset + 3 < length p \<Longrightarrow>
   readUint32LE p offset =
     Some (be32 (p ! (offset + 3)) (p ! (offset + 2)) (p ! (offset + 1)) (p ! offset))"
  by (simp add: readUint32LE_def be32_def go_eval or.assoc or.commute or.left_commute)

lemma readUint16BE_None: "length p \<le> offset + 1 \<Longrightarrow> readUint16BE p offset = None"
  by (simp add: readUint16BE_def bind_go_eq_None_iff go_eval index_def)

lemma readUint32BE_None: "length p \<le> offset + 3 \<Longrightarrow> readUint32BE p offset = None"
  by (simp add: readUint32BE_def bind_go_eq_None_iff go_eval index_def)

subsection \<open>The interface of a variable-length codec\<close>

text \<open>
  What the packet and control parsers rely on: a length that was encoded is read back at
  any position, a successful read consumes at least one byte and stays inside the buffer,
  and neither the bytes before the offset nor those after the length matter.
\<close>

locale varlen_codec =
  fixes enc :: "nat \<Rightarrow> byte list"
    and dec :: "byte list \<Rightarrow> nat \<Rightarrow> hdhomerunVarLength option"
    and bound :: nat
  assumes dec_enc: "n \<le> bound \<Longrightarrow>
      dec (pre @ enc n @ suf) (length pre) = Some \<lparr>byteLength = length (enc n), lengthValue = n\<rparr>"
    and dec_bounds: "dec p off = Some l \<Longrightarrow>
      0 < byteLength l \<and> off + byteLength l \<le> length p \<and> lengthValue l \<le> bound"
    and dec_shift: "dec (pre @ p) (length pre + off) = dec p off"
    and dec_extend: "dec p off = Some l \<Longrightarrow> dec (p @ q) off = Some l"
    and dec_local: "dec p off = Some l \<Longrightarrow> off + byteLength l \<le> m \<Longrightarrow>
      dec (take m p) off = Some l"
begin

lemma dec_enc0: "n \<le> bound \<Longrightarrow>
    dec (enc n @ suf) 0 = Some \<lparr>byteLength = length (enc n), lengthValue = n\<rparr>"
  using dec_enc [of n "[]" suf] by simp

lemma dec_drop: "k + off \<le> length p \<Longrightarrow> dec (drop k p) off = dec p (k + off)"
  using dec_shift [of "take k p" "drop k p" off] by simp

text \<open>
  Reading a length inside the first \<open>m\<close> bytes of a longer packet: it is read from those
  bytes alone exactly when it ends among them.
\<close>

lemma dec_take: "dec (take m p) off = Some l \<Longrightarrow> dec p off = Some l"
  using dec_extend [of "take m p" off l "drop m p"] by simp

lemma dec_take_iff:
  "dec (take m p) off = Some l \<longleftrightarrow> dec p off = Some l \<and> off + byteLength l \<le> m"
proof
  assume t: "dec (take m p) off = Some l"
  then have "off + byteLength l \<le> m" using dec_bounds [OF t] by simp
  with dec_take [OF t] show "dec p off = Some l \<and> off + byteLength l \<le> m" by simp
qed (simp add: dec_local)

lemma dec_end: "length p \<le> off \<Longrightarrow> dec p off = None"
proof (rule ccontr)
  assume "length p \<le> off" and "dec p off \<noteq> None"
  then show False using dec_bounds by fastforce
qed

end

lemma varlen_high:
  assumes "127 < n"
  shows "(of_nat ((n AND 0x7F) OR 0x80) :: byte) AND 0x80 \<noteq> 0"
    and "unat ((of_nat ((n AND 0x7F) OR 0x80) :: byte) AND 0x7F) = n mod 128"
proof -
  have u: "unat (of_nat ((n AND 0x7F) OR 0x80) :: byte) = n mod 128 + 128"
  proof -
    have "(n AND 0x7F) OR 0x80 = n mod 128 + 128" by (simp add: or_128)
    then show ?thesis by (simp only: unat_byte_of_nat) simp
  qed
  then show "(of_nat ((n AND 0x7F) OR 0x80) :: byte) AND 0x80 \<noteq> 0"
    by (subst byte_and_80) simp
  show "unat ((of_nat ((n AND 0x7F) OR 0x80) :: byte) AND 0x7F) = n mod 128"
    unfolding unsigned_and_eq u by simp
qed

lemma readHdhomerunVarLength_encode:
  assumes "n \<le> 0x7FFF"
  shows "readHdhomerunVarLength (pre @ encodeHdhomerunVarLength n @ suf) (length pre) =
    Some \<lparr>byteLength = length (encodeHdhomerunVarLength n), lengthValue = n\<rparr>"
proof (cases "n \<le> 0x7F")
  case True
  then have "(of_nat n :: byte) AND 0x80 = 0" by (simp add: byte_and_80)
  with True show ?thesis
    by (simp add: readHdhomerunVarLength_def encodeHdhomerunVarLength_def nth_append)
next
  case False
  then have "127 < n" by simp
  moreover have "n mod 128 OR push_bit 7 (drop_bit 7 n mod 256) = n"
    using assms by (simp add: join7 drop_bit_eq_div)
  ultimately show ?thesis
    using False varlen_high [of n]
    by (simp add: readHdhomerunVarLength_def encodeHdhomerunVarLength_def nth_append Let_def
        del: and_127)
qed

lemma readHdhomerunVarLength_bounds:
  "readHdhomerunVarLength p off = Some l \<Longrightarrow>
    0 < byteLength l \<and> off + byteLength l \<le> length p \<and> lengthValue l \<le> 0x7FFF"
proof -
  assume "readHdhomerunVarLength p off = Some l"
  moreover have "unat (b AND 0x7F) OR push_bit 7 (unat c) \<le> 0x7FFF" for b c :: byte
  proof -
    have "unat (b AND 0x7F) = unat b mod 128" by (simp add: unsigned_and_eq)
    then show ?thesis using unat_byte_lt [of c] by (simp del: unat_byte_lt add: join7)
  qed
  ultimately show ?thesis
    using unat_byte_lt
    by (fastforce simp: readHdhomerunVarLength_def Let_def byte_and_80 split: if_splits)
qed

lemma readHdhomerunVarLength_shift:
  "readHdhomerunVarLength (pre @ p) (length pre + off) = readHdhomerunVarLength p off"
  by (auto simp: readHdhomerunVarLength_def Let_def nth_append)

lemma readHdhomerunVarLength_extend:
  "readHdhomerunVarLength p off = Some l \<Longrightarrow> readHdhomerunVarLength (p @ q) off = Some l"
  by (auto simp: readHdhomerunVarLength_def Let_def nth_append split: if_splits)

lemma readHdhomerunVarLength_local:
  "readHdhomerunVarLength p off = Some l \<Longrightarrow> off + byteLength l \<le> m \<Longrightarrow>
   readHdhomerunVarLength (take m p) off = Some l"
  by (auto simp: readHdhomerunVarLength_def Let_def split: if_splits)

interpretation vl: varlen_codec encodeHdhomerunVarLength readHdhomerunVarLength "0x7FFF"
  by unfold_locales
    (fact readHdhomerunVarLength_encode readHdhomerunVarLength_bounds
      readHdhomerunVarLength_shift readHdhomerunVarLength_extend readHdhomerunVarLength_local)+

subsection \<open>Payloads as lists of tags\<close>

type_synonym tlv = "byte \<times> byte list"

text \<open>The abstract reading of a payload: \<open>None\<close> where it is truncated.\<close>

function parse_tlvs :: "byte list \<Rightarrow> tlv list option" where
  "parse_tlvs [] = Some []"
| "parse_tlvs (t # rest) =
     (case readHdhomerunVarLength rest 0 of
        None \<Rightarrow> None
      | Some l \<Rightarrow>
          let body = drop (byteLength l) rest
          in if lengthValue l > length body then None
             else map_option ((#) (t, take (lengthValue l) body))
                    (parse_tlvs (drop (lengthValue l) body)))"
  by pat_completeness auto
termination
  by (relation "measure length") auto

definition encode_tlvs :: "tlv list \<Rightarrow> byte list" where
  "encode_tlvs tlvs = concat (map (\<lambda>(t, v). encodeTag t v) tlvs)"

lemma encode_tlvs_simps [simp]:
  "encode_tlvs [] = []"
  "encode_tlvs ((t, v) # r) = encodeTag t v @ encode_tlvs r"
  by (simp_all add: encode_tlvs_def)

lemma parse_tlvs_encodeTag [codec]:
  "length v \<le> 0x7FFF \<Longrightarrow>
   parse_tlvs (encodeTag t v @ rest) = map_option ((#) (t, v)) (parse_tlvs rest)"
  by (simp add: encodeTag_def vl.dec_enc0 Let_def)

lemma parse_encode_tlvs [codec]:
  "\<forall>(t, v) \<in> set tlvs. length v \<le> 0x7FFF \<Longrightarrow> parse_tlvs (encode_tlvs tlvs) = Some tlvs"
  by (induction tlvs) (auto simp: parse_tlvs_encodeTag)

lemma length_encodeHdhomerunVarLength:
  "length (encodeHdhomerunVarLength n) = (if n \<le> 0x7F then 1 else 2)"
  by (simp add: encodeHdhomerunVarLength_def)

lemma length_encodeTag:
  "length (encodeTag t v) = (if length v \<le> 0x7F then 2 else 3) + length v"
  by (simp add: encodeTag_def length_encodeHdhomerunVarLength)

end
