(* ===== verification/Frames.thy ===== *)
theory Frames
  imports Tlv
begin

text \<open>
  The HDHomeRun frame both protocols share: type and payload length as big-endian 16-bit
  words, the payload, and a little-endian CRC-32 of everything before it. \<open>frame_bytes\<close>
  and \<open>open_frame\<close> are the abstract encoder and decoder that the code of packets.go and
  control.go is shown to implement.
\<close>

record opened =
  o_type :: u16
  o_payload :: "byte list"
  o_size :: nat
  o_crc_ok :: bool

definition header_bytes :: "u16 \<Rightarrow> nat \<Rightarrow> byte list" where
  "header_bytes ty n = [byte_at 8 ty, byte_at 0 ty, of_nat (drop_bit 8 n), of_nat n]"

definition crc_trailer :: "u32 \<Rightarrow> byte list" where
  "crc_trailer c = [byte_at 0 c, byte_at 8 c, byte_at 16 c, byte_at 24 c]"

definition frame_bytes :: "u16 \<Rightarrow> byte list \<Rightarrow> byte list" where
  "frame_bytes ty payload =
     (let body = header_bytes ty (length payload) @ payload
      in body @ crc_trailer (crc32IEEE body))"

definition open_frame :: "byte list \<Rightarrow> opened option" where
  "open_frame p =
     (if length p < 8 then None
      else let n = unat (be16 (p ! 2) (p ! 3))
           in if length p < n + 8 then None
              else Some \<lparr>o_type = be16 (p ! 0) (p ! 1), o_payload = take n (drop 4 p),
                         o_size = n + 8,
                         o_crc_ok = (crc32IEEE (take (n + 4) p) =
                           be32 (p ! (n + 7)) (p ! (n + 6)) (p ! (n + 5)) (p ! (n + 4)))\<rparr>)"

lemma length_header_bytes [simp]: "length (header_bytes ty n) = 4"
  by (simp add: header_bytes_def)

lemma length_crc_trailer [simp]: "length (crc_trailer c) = 4"
  by (simp add: crc_trailer_def)

lemma length_frame_bytes [simp]: "length (frame_bytes ty pl) = length pl + 8"
  by (simp add: frame_bytes_def Let_def)

lemma be16_length_bytes:
  "n < 65536 \<Longrightarrow> unat (be16 (of_nat (drop_bit 8 n)) (of_nat n)) = n"
  by (simp add: unat_be16 drop_bit_eq_div)

lemma crc_trailer_nth:
  assumes "length body = n + 4"
  shows "(body @ crc_trailer c @ rest) ! (n + 4) = byte_at 0 c"
    and "(body @ crc_trailer c @ rest) ! (n + 5) = byte_at 8 c"
    and "(body @ crc_trailer c @ rest) ! (n + 6) = byte_at 16 c"
    and "(body @ crc_trailer c @ rest) ! (n + 7) = byte_at 24 c"
  using assms by (simp_all add: nth_append crc_trailer_def)

lemma open_frame_bytes [codec]:
  assumes "length pl < 65536"
  shows "open_frame (frame_bytes ty pl @ rest) =
    Some \<lparr>o_type = ty, o_payload = pl, o_size = length pl + 8, o_crc_ok = True\<rparr>"
proof -
  let ?h = "header_bytes ty (length pl)" and ?c = "crc32IEEE (header_bytes ty (length pl) @ pl)"
  let ?p = "(?h @ pl) @ crc_trailer ?c @ rest"
  have p: "frame_bytes ty pl @ rest = ?p"
    by (simp add: frame_bytes_def Let_def)
  have hdr: "?p ! 0 = byte_at 8 ty" "?p ! 1 = byte_at 0 ty"
      "?p ! 2 = of_nat (drop_bit 8 (length pl))" "?p ! 3 = of_nat (length pl)"
    by (simp_all add: header_bytes_def)
  note t = crc_trailer_nth [of "?h @ pl" "length pl" ?c rest, simplified length_append
      length_header_bytes add.commute [of 4 "length pl"], OF refl]
  have n: "unat (be16 (?p ! 2) (?p ! 3)) = length pl"
    unfolding hdr using assms by (rule be16_length_bytes)
  have "take (length pl + 4) ?p = ?h @ pl" "take (length pl) (drop 4 ?p) = pl"
    by simp_all
  then show ?thesis
    unfolding p open_frame_def n Let_def t hdr(1,2) be16_byte_at be32_byte_at by simp
qed

lemma open_frame_size:
  "open_frame p = Some f \<Longrightarrow> 8 \<le> o_size f \<and> o_size f \<le> length p \<and> length (o_payload f) + 8 = o_size f"
  by (auto simp: open_frame_def Let_def split: if_splits)

lemma open_frame_extend: "open_frame p = Some f \<Longrightarrow> open_frame (p @ q) = Some f"
  by (auto simp: open_frame_def Let_def nth_append split: if_splits)

subsection \<open>The code's reads, on a frame that is complete\<close>

lemma frame_header_reads:
  assumes "8 \<le> length p"
  shows "readUint16BE p 0 = Some (be16 (p ! 0) (p ! 1))"
    and "readUint16BE p 2 = Some (be16 (p ! 2) (p ! 3))"
  using assms by (simp_all add: readUint16BE_eq)

lemma frame_reads:
  assumes "8 \<le> length p" and "unat (be16 (p ! 2) (p ! 3)) + 8 \<le> length p"
  shows "readUint16BE p 0 = Some (be16 (p ! 0) (p ! 1))"
    and "readUint16BE p 2 = Some (be16 (p ! 2) (p ! 3))"
    and "readUint32LE p (unat (be16 (p ! 2) (p ! 3)) + 4) =
      Some (be32 (p ! (unat (be16 (p ! 2) (p ! 3)) + 7)) (p ! (unat (be16 (p ! 2) (p ! 3)) + 6))
                 (p ! (unat (be16 (p ! 2) (p ! 3)) + 5)) (p ! (unat (be16 (p ! 2) (p ! 3)) + 4)))"
  using frame_header_reads [OF assms(1)] assms by (simp_all add: readUint32LE_eq add.commute)

subsection \<open>A corrupted byte is always noticed\<close>

text \<open>
  Changing one byte of the type or of the payload (any byte before the trailer but the two
  length bytes) makes the checksum test fail.
\<close>

lemma open_frame_corrupt:
  assumes "length pl < 65536" and "i < length pl + 4" and "i \<noteq> 2" and "i \<noteq> 3"
    and "b \<noteq> frame_bytes ty pl ! i"
    and "open_frame ((frame_bytes ty pl)[i := b] @ rest) = Some f"
  shows "\<not> o_crc_ok f"
proof -
  let ?body = "header_bytes ty (length pl) @ pl"
  let ?t = "crc_trailer (crc32IEEE ?body)"
  let ?p = "?body[i := b] @ ?t @ rest"
  have i: "i < length ?body" using assms(2) by simp
  have p: "(frame_bytes ty pl)[i := b] @ rest = ?p"
    using i by (simp add: frame_bytes_def Let_def list_update_append1 del: append_assoc)
  have b: "?body ! i \<noteq> b"
    using assms(5) i
    by (auto simp: frame_bytes_def Let_def nth_append nth_append_left simp del: append_assoc)
  have l: "length ?body = length pl + 4" by simp
  have "?p ! 2 = ?body ! 2" "?p ! 3 = ?body ! 3"
    using assms(3,4) by (simp_all add: nth_append)
  then have n: "unat (be16 (?p ! 2) (?p ! 3)) = length pl"
    using assms(1) by (simp add: header_bytes_def be16_length_bytes)
  have t: "be32 (?p ! (length pl + 7)) (?p ! (length pl + 6)) (?p ! (length pl + 5)) (?p ! (length pl + 4))
      = crc32IEEE ?body"
    by (subst crc_trailer_nth, simp)+ (simp add: be32_byte_at)
  have "crc32IEEE (?body[i := b]) \<noteq> crc32IEEE ?body"
    using checksumIEEE_one_byte [of "take i ?body" b "drop (Suc i) ?body" "?body ! i"] b
    by (metis crc32IEEE_def i id_take_nth_drop upd_conv_take_nth_drop)
  moreover have "take (length pl + 4) ?p = ?body[i := b]" by simp
  ultimately show ?thesis
    using assms(6) unfolding p by (auto simp: open_frame_def n t Let_def simp del: append_assoc)
qed

end
