(* ===== verification/Packets.thy ===== *)
theory Packets
  imports Hdhr Frames
begin

text \<open>
  internal/discovery/packets.go: the SSDP messages, the HDHomeRun discovery reply, the
  parser of discovery requests and the decision whether a request is for this device. The
  parser is written over checked reads, and shown to refine the abstract reading of the
  payload as a list of tags; the reply is shown to decode to the configuration.
\<close>

subsection \<open>SSDP messages\<close>

definition ssdpMulticastHost :: string where "ssdpMulticastHost = ''239.255.255.250''"
definition ssdpMulticastPort :: int where "ssdpMulticastPort = 1900"
definition ssdpRootDeviceTarget :: string where "ssdpRootDeviceTarget = ''upnp:rootdevice''"
definition ssdpAllTarget :: string where "ssdpAllTarget = ''ssdp:all''"
definition ssdpCacheMaxAgeSeconds :: int where "ssdpCacheMaxAgeSeconds = 1800"
definition ssdpServerHeader :: string where "ssdpServerHeader = ''xTeVe''"
definition hdhomerunDiscoveryPort :: int where "hdhomerunDiscoveryPort = 65001"
definition hdhomerunControlTCPPort :: int where "hdhomerunControlTCPPort = 65001"

definition advertisedOrigin :: "config \<Rightarrow> string" where
  "advertisedOrigin cfg = Scheme (AdvertisedBaseURL cfg) @ ''://'' @ Host (AdvertisedBaseURL cfg)"

definition buildSsdpLocation :: "config \<Rightarrow> string" where
  "buildSsdpLocation cfg = advertisedOrigin cfg @ ''/device.xml''"

definition buildSsdpUsn :: "config \<Rightarrow> string \<Rightarrow> string" where
  "buildSsdpUsn cfg searchTarget = BuildDeviceUdn (DeviceID cfg) @ ''::'' @ searchTarget"

definition finalizeSsdpPacket :: "string list \<Rightarrow> string" where
  "finalizeSsdpPacket lines = join crlf lines @ crlf @ crlf"

definition buildSsdpNotifyPacket :: "config \<Rightarrow> string" where
  "buildSsdpNotifyPacket cfg = finalizeSsdpPacket
     [''NOTIFY * HTTP/1.1'',
      ''HOST: '' @ ssdpMulticastHost @ '':'' @ itoa ssdpMulticastPort,
      ''NT: '' @ ssdpRootDeviceTarget,
      ''NTS: ssdp:alive'',
      ''USN: '' @ buildSsdpUsn cfg ssdpRootDeviceTarget,
      ''LOCATION: '' @ buildSsdpLocation cfg,
      ''SERVER: '' @ ssdpServerHeader,
      ''CACHE-CONTROL: max-age='' @ itoa ssdpCacheMaxAgeSeconds]"

definition buildSsdpSearchResponsePacket :: "config \<Rightarrow> string" where
  "buildSsdpSearchResponsePacket cfg = finalizeSsdpPacket
     [''HTTP/1.1 200 OK'',
      ''EXT:'',
      ''ST: '' @ ssdpRootDeviceTarget,
      ''USN: '' @ buildSsdpUsn cfg ssdpRootDeviceTarget,
      ''LOCATION: '' @ buildSsdpLocation cfg,
      ''SERVER: '' @ ssdpServerHeader,
      ''CACHE-CONTROL: max-age='' @ itoa ssdpCacheMaxAgeSeconds]"

definition buildSsdpNotifyPackets :: "config \<Rightarrow> string list" where
  "buildSsdpNotifyPackets cfg = [buildSsdpNotifyPacket cfg]"

definition buildSsdpSearchResponses :: "config \<Rightarrow> string \<Rightarrow> string list" where
  "buildSsdpSearchResponses cfg searchTarget =
     (if searchTarget = ssdpRootDeviceTarget \<or> searchTarget = ssdpAllTarget
      then [buildSsdpSearchResponsePacket cfg] else [])"

subsection \<open>The discovery reply\<close>

text \<open>\<open>hex.DecodeString\<close>; \<open>None\<close> is its error.\<close>

fun hex_decode :: "string \<Rightarrow> byte list option" where
  "hex_decode [] = Some []"
| "hex_decode [c] = None"
| "hex_decode (a # b # s) =
     (if is_hex a \<and> is_hex b
      then map_option ((#) (of_nat (unhex a * 16 + unhex b))) (hex_decode s)
      else None)"

definition discovery_payload :: "config \<Rightarrow> byte list \<Rightarrow> byte list" where
  "discovery_payload cfg deviceIDBytes =
     (let deviceType = [0, 0, 0, ucast hdhomerunDeviceTypeTuner];
          baseURL = advertisedOrigin cfg;
          lineupURL = baseURL @ ''/lineup.json''
      in encodeTag hdhomerunTagDeviceID deviceIDBytes @
         encodeTag hdhomerunTagDeviceType deviceType @
         encodeTag hdhomerunTagTunerCount [of_int (TunerCount cfg)] @
         encodeTag hdhomerunTagDeviceAuth (to_bytes (DeviceAuth cfg)) @
         encodeTag hdhomerunTagBaseURL (to_bytes baseURL) @
         encodeTag hdhomerunTagLineupURL (to_bytes lineupURL))"

text \<open>\<open>None\<close> is the explicit panic on a device id that is not hexadecimal.\<close>

definition buildHdhomerunDiscoveryReply :: "config \<Rightarrow> byte list go" where
  "buildHdhomerunDiscoveryReply cfg = do {
     deviceIDBytes \<leftarrow> hex_decode (DeviceID cfg);
     let payload = discovery_payload cfg deviceIDBytes;
     let header = [byte_at 8 hdhomerunTypeDiscoverReply, byte_at 0 hdhomerunTypeDiscoverReply,
                   of_nat (drop_bit 8 (length payload)), of_nat (length payload)];
     let packet = header @ payload;
     let crc = crc32IEEE packet;
     Some (packet @ [byte_at 0 crc, byte_at 8 crc, byte_at 16 crc, byte_at 24 crc])
   }"

subsection \<open>Parsing a discovery request\<close>

record hdhomerunDiscoveryRequest =
  deviceID :: "u32 option"
  deviceTypes :: "u32 list"

function read_types :: "byte list \<Rightarrow> nat \<Rightarrow> nat \<Rightarrow> u32 list \<Rightarrow> u32 list go" where
  "read_types packet typeOffset valueLimit types =
     (if typeOffset < valueLimit
      then do {
        t \<leftarrow> readUint32BE packet typeOffset;
        read_types packet (typeOffset + 4) valueLimit (types @ [t])
      }
      else Some types)"
  by pat_completeness auto
termination
  by (relation "measure (\<lambda>(p, off, l, ts). l - off)") auto

text \<open>The \<open>switch\<close> on the tag.\<close>

definition discovery_tag ::
  "byte list \<Rightarrow> byte \<Rightarrow> nat \<Rightarrow> nat \<Rightarrow> hdhomerunDiscoveryRequest \<Rightarrow> hdhomerunDiscoveryRequest go" where
  "discovery_tag packet tg valueOffset len request =
     (if tg = hdhomerunTagDeviceType then
        (if len = 4 then do {
           t \<leftarrow> readUint32BE packet valueOffset;
           Some (request\<lparr>deviceTypes := deviceTypes request @ [t]\<rparr>)
         } else Some request)
      else if tg = hdhomerunTagMultiType then
        (if len \<ge> 4 \<and> len mod 4 = 0 then do {
           ts \<leftarrow> read_types packet valueOffset (valueOffset + len) (deviceTypes request);
           Some (request\<lparr>deviceTypes := ts\<rparr>)
         } else Some request)
      else if tg = hdhomerunTagDeviceID then
        (if len = 4 then do {
           v \<leftarrow> readUint32BE packet valueOffset;
           Some (request\<lparr>deviceID := Some v\<rparr>)
         } else Some request)
      else Some request)"

text \<open>The loop over the payload: the outer option is a panic, the inner one \<open>(nil, false)\<close>.\<close>

function discovery_loop ::
  "byte list \<Rightarrow> nat \<Rightarrow> nat \<Rightarrow> hdhomerunDiscoveryRequest \<Rightarrow> hdhomerunDiscoveryRequest option go" where
  "discovery_loop packet limit offset request =
     (if offset < limit then
        (case index packet offset of
           None \<Rightarrow> None
         | Some tg \<Rightarrow>
             (case readHdhomerunVarLength packet (offset + 1) of
                None \<Rightarrow> Some None
              | Some l \<Rightarrow>
                  let valueOffset = offset + 1 + byteLength l;
                      valueLimit = valueOffset + lengthValue l
                  in if valueLimit > limit then Some None
                     else (case discovery_tag packet tg valueOffset (lengthValue l) request of
                             None \<Rightarrow> None
                           | Some request' \<Rightarrow> discovery_loop packet limit valueLimit request')))
      else Some (Some request))"
  by pat_completeness auto
termination
  by (relation "measure (\<lambda>(p, l, off, r). l - off)") auto

declare read_types.simps [simp del] discovery_loop.simps [simp del]

definition parseHdhomerunDiscoveryRequest :: "byte list \<Rightarrow> hdhomerunDiscoveryRequest option go" where
  "parseHdhomerunDiscoveryRequest packet =
     (if length packet < 8 then Some None
      else do {
        packetType \<leftarrow> readUint16BE packet 0;
        lengthField \<leftarrow> readUint16BE packet 2;
        let payloadLength = unat lengthField;
        let totalLength = 4 + payloadLength + 4;
        if packetType \<noteq> hdhomerunTypeDiscoverRequest \<or> length packet < totalLength
        then Some None
        else do {
          covered \<leftarrow> slice packet 0 (totalLength - 4);
          actualCRC \<leftarrow> readUint32LE packet (totalLength - 4);
          if crc32IEEE covered \<noteq> actualCRC then Some None
          else do {
            result \<leftarrow> discovery_loop packet (4 + payloadLength) 4
                        \<lparr>deviceID = None, deviceTypes = []\<rparr>;
            Some (case result of
                    None \<Rightarrow> None
                  | Some request \<Rightarrow> if deviceTypes request = [] then None else Some request)
          }
        }
      })"

subsection \<open>Is the request for this device?\<close>

definition hex_nibble :: "char \<Rightarrow> u32 option" where
  "hex_nibble c =
     (if is_digit c then Some (of_nat (code c - 48))
      else if 65 \<le> code c \<and> code c \<le> 70 then Some (of_nat (code c - 65) + 10)
      else if 97 \<le> code c \<and> code c \<le> 102 then Some (of_nat (code c - 97) + 10)
      else None)"

fun parse_hex_loop :: "u32 \<Rightarrow> string \<Rightarrow> u32 option" where
  "parse_hex_loop parsed [] = Some parsed"
| "parse_hex_loop parsed (c # s) =
     (case hex_nibble c of
        None \<Rightarrow> None
      | Some d \<Rightarrow> parse_hex_loop (push_bit 4 parsed OR d) s)"

definition parseHexDeviceID :: "string \<Rightarrow> u32 option" where
  "parseHexDeviceID v = (if length v \<noteq> 8 then None else parse_hex_loop 0 v)"

definition requestMatchesConfig :: "hdhomerunDiscoveryRequest \<Rightarrow> config \<Rightarrow> bool" where
  "requestMatchesConfig request cfg =
     (if \<not> list_ex (\<lambda>t. t = hdhomerunDeviceTypeWildcard \<or> t = hdhomerunDeviceTypeTuner)
              (deviceTypes request)
      then False
      else (case deviceID request of
              None \<Rightarrow> True
            | Some d \<Rightarrow>
                if d = hdhomerunDeviceTypeWildcard then True
                else (case parseHexDeviceID (DeviceID cfg) of
                        None \<Rightarrow> False
                      | Some c \<Rightarrow> d = c)))"

subsection \<open>The parser reads the payload as a list of tags\<close>

lemma drop4: "off + 3 < length p \<Longrightarrow>
   drop off p = p ! off # p ! (off + 1) # p ! (off + 2) # p ! (off + 3) # drop (off + 4) p"
  by (simp add: list_decomp [of off] list_decomp [of "Suc off"] list_decomp [of "Suc (Suc off)"]
      list_decomp [of "Suc (Suc (Suc off))"] numeral_eq_Suc)

lemma take4: "take (4 + k) (a # b # c # d # r) = a # b # c # d # take k r"
  by (simp add: numeral_eq_Suc)

fun words32 :: "byte list \<Rightarrow> u32 list" where
  "words32 (a # b # c # d # r) = be32 a b c d # words32 r"
| "words32 _ = []"

definition apply_tlv :: "hdhomerunDiscoveryRequest \<Rightarrow> tlv \<Rightarrow> hdhomerunDiscoveryRequest" where
  "apply_tlv r tv = (case tv of (t, v) \<Rightarrow>
     if t = hdhomerunTagDeviceType \<and> length v = 4
     then r\<lparr>deviceTypes := deviceTypes r @ words32 v\<rparr>
     else if t = hdhomerunTagMultiType \<and> 4 \<le> length v \<and> length v mod 4 = 0
     then r\<lparr>deviceTypes := deviceTypes r @ words32 v\<rparr>
     else if t = hdhomerunTagDeviceID \<and> length v = 4
     then r\<lparr>deviceID := Some (hd (words32 v))\<rparr>
     else r)"

lemma read_types_words:
  "off + 4 * n \<le> length p \<Longrightarrow>
   read_types p off (off + 4 * n) acc = Some (acc @ words32 (take (4 * n) (drop off p)))"
proof (induction n arbitrary: off acc)
  case 0
  then show ?case by (simp add: read_types.simps)
next
  case (Suc n)
  then have "read_types p (off + 4) (off + 4 + 4 * n) (acc @ [t]) =
      Some ((acc @ [t]) @ words32 (take (4 * n) (drop (off + 4) p)))" for t
    by (intro Suc.IH) simp
  moreover have "take (4 * Suc n) (drop off p) =
      p ! off # p ! (off + 1) # p ! (off + 2) # p ! (off + 3) # take (4 * n) (drop (off + 4) p)"
    using Suc.prems drop4 [of off p] by (simp add: take4)
  moreover have "off + 4 * Suc n = off + 4 + 4 * n" by simp
  ultimately show ?case
    using Suc.prems
    by (subst read_types.simps) (simp add: readUint32BE_eq add.assoc)
qed

lemma readUint32BE_words32:
  "off + 4 \<le> length p \<Longrightarrow> \<exists>t. readUint32BE p off = Some t \<and> words32 (take 4 (drop off p)) = [t]"
  by (simp add: readUint32BE_eq drop4)

lemma discovery_tag_eq:
  assumes "off + len \<le> length p"
  shows "discovery_tag p tg off len r = Some (apply_tlv r (tg, take len (drop off p)))"
proof -
  consider (multi) "tg = hdhomerunTagMultiType" "4 \<le> len" "len mod 4 = 0"
    | (four) "len = 4" "tg \<noteq> hdhomerunTagMultiType"
    | (other) "\<not> (tg = hdhomerunTagMultiType \<and> 4 \<le> len \<and> len mod 4 = 0)"
        "len \<noteq> 4 \<or> tg = hdhomerunTagMultiType"
    by (cases "len = 4"; cases "tg = hdhomerunTagMultiType") auto
  then show ?thesis
  proof cases
    case multi
    then obtain n where n: "len = 4 * n" by (metis mod_0_imp_dvd dvd_def)
    with multi assms read_types_words [of off n p "deviceTypes r"] show ?thesis
      by (simp add: discovery_tag_def apply_tlv_def wire_constants)
  next
    case four
    with assms obtain t where "readUint32BE p off = Some t" "words32 (take 4 (drop off p)) = [t]"
      using readUint32BE_words32 by blast
    with four assms show ?thesis
      by (simp add: discovery_tag_def apply_tlv_def)
  next
    case other
    with assms show ?thesis
      by (auto simp: discovery_tag_def apply_tlv_def wire_constants)
  qed
qed

lemma discovery_loop_tlvs:
  "limit \<le> length p \<Longrightarrow> off \<le> limit \<Longrightarrow>
   discovery_loop p limit off r =
     Some (map_option (foldl apply_tlv r) (parse_tlvs (take (limit - off) (drop off p))))"
proof (induction "limit - off" arbitrary: off r rule: less_induct)
  case less
  show ?case
  proof (cases "off < limit")
    case False
    with less.prems show ?thesis by (simp add: discovery_loop.simps)
  next
    case True
    let ?rest = "take (limit - off - 1) (drop (Suc off) p)"
    have payload: "take (limit - off) (drop off p) = p ! off # ?rest"
      using True less.prems list_decomp [of off p]
      by (metis (no_types, lifting) Suc_diff_1 Suc_eq_plus1 diff_diff_left less_le_trans take_Suc_Cons zero_less_diff)
    have read: "readHdhomerunVarLength ?rest 0 = Some l \<longleftrightarrow>
        readHdhomerunVarLength p (off + 1) = Some l \<and> byteLength l \<le> limit - off - 1" for l
      using vl.dec_take_iff [of "limit - off - 1" "drop (Suc off) p" 0 l]
        vl.dec_drop [of "Suc off" 0 p] True less.prems by simp
    show ?thesis
    proof (cases "readHdhomerunVarLength p (off + 1)")
      case None
      then have "readHdhomerunVarLength ?rest 0 = None" using read by (cases "readHdhomerunVarLength ?rest 0") auto
      with None True less.prems show ?thesis
        by (subst discovery_loop.simps) (simp add: payload go_eval)
    next
      case (Some l)
      let ?vo = "off + 1 + byteLength l" and ?vl = "off + 1 + byteLength l + lengthValue l"
      show ?thesis
      proof (cases "byteLength l \<le> limit - off - 1")
        case False
        then have "readHdhomerunVarLength ?rest 0 = None" using read Some by (cases "readHdhomerunVarLength ?rest 0") auto
        moreover have "limit < ?vl" using False True by simp
        ultimately show ?thesis
          using Some True less.prems
          by (subst discovery_loop.simps) (simp add: payload go_eval)
      next
        case fits: True
        then have r0: "readHdhomerunVarLength ?rest 0 = Some l" using read Some by simp
        show ?thesis
        proof (cases "?vl \<le> limit")
          case False
          with Some r0 fits True less.prems show ?thesis
            by (subst discovery_loop.simps) (simp add: payload go_eval Let_def)
        next
          case inside: True
          let ?v = "take (lengthValue l) (drop ?vo p)"
          have "discovery_loop p limit ?vl (apply_tlv r (p ! off, ?v)) =
              Some (map_option (foldl apply_tlv (apply_tlv r (p ! off, ?v)))
                 (parse_tlvs (take (limit - ?vl) (drop ?vl p))))"
            using inside less.prems vl.dec_bounds [OF Some] by (intro less.hyps) auto
          moreover have "discovery_tag p (p ! off) ?vo (lengthValue l) r = Some (apply_tlv r (p ! off, ?v))"
            using inside less.prems by (intro discovery_tag_eq) simp
          ultimately show ?thesis
            using Some r0 fits True inside less.prems
            by (subst discovery_loop.simps)
              (simp add: payload go_eval Let_def drop_take map_option.compositionality comp_def
                add.commute add.left_commute min_def, arith)
        qed
      qed
    qed
  qed
qed

subsection \<open>Requests refine their abstract reading, replies decode, decisions are exact\<close>

definition request_of_payload :: "byte list \<Rightarrow> hdhomerunDiscoveryRequest option" where
  "request_of_payload payload =
     (case parse_tlvs payload of
        None \<Rightarrow> None
      | Some tlvs \<Rightarrow>
          let r = foldl apply_tlv \<lparr>deviceID = None, deviceTypes = []\<rparr> tlvs
          in if deviceTypes r = [] then None else Some r)"

lemma discovery_request_eq:
  "parseHdhomerunDiscoveryRequest p =
     Some (case open_frame p of
             None \<Rightarrow> None
           | Some f \<Rightarrow>
               if o_type f = hdhomerunTypeDiscoverRequest \<and> o_crc_ok f
               then request_of_payload (o_payload f) else None)"
proof (cases "length p < 8")
  case True
  then show ?thesis by (simp add: parseHdhomerunDiscoveryRequest_def open_frame_def)
next
  case False
  let ?n = "unat (be16 (p ! 2) (p ! 3))"
  show ?thesis
  proof (cases "length p < ?n + 8")
    case True
    with False frame_header_reads [of p] show ?thesis
      by (simp add: parseHdhomerunDiscoveryRequest_def open_frame_def Let_def)
  next
    case complete: False
    with False have reads: "readUint16BE p 0 = Some (be16 (p ! 0) (p ! 1))"
      "readUint16BE p 2 = Some (be16 (p ! 2) (p ! 3))"
      "readUint32LE p (?n + 4) =
         Some (be32 (p ! (?n + 7)) (p ! (?n + 6)) (p ! (?n + 5)) (p ! (?n + 4)))"
      using frame_reads [of p] by simp_all
    have "discovery_loop p (4 + ?n) 4 r =
        Some (map_option (foldl apply_tlv r) (parse_tlvs (take ?n (drop 4 p))))" for r
      using discovery_loop_tlvs [of "4 + ?n" p 4 r] complete by simp
    moreover have "slice p 0 (?n + 4) = Some (take (?n + 4) p)"
      using complete by (simp add: slice_def)
    ultimately show ?thesis
      using False complete reads
      by (simp add: parseHdhomerunDiscoveryRequest_def open_frame_def Let_def add.commute
          request_of_payload_def split: option.splits)
  qed
qed

text \<open>
  C1 The discovery parser refines its specification and never panics. On every datagram
  the index-by-index parser returns what the specification says: nothing unless the
  datagram starts with a complete frame of the request type with an intact checksum;
  otherwise the request its list of tags spells, unless a tag is truncated or no device
  type was asked for.
\<close>

theorem discovery_request_refines:
  "parseHdhomerunDiscoveryRequest p =
     Some (case open_frame p of
             None \<Rightarrow> None
           | Some f \<Rightarrow>
               if o_type f = hdhomerunTypeDiscoverRequest \<and> o_crc_ok f
               then request_of_payload (o_payload f) else None)"
  by (rule discovery_request_eq)

lemma discovery_reply_frame:
  "buildHdhomerunDiscoveryReply cfg =
     map_option (\<lambda>raw. frame_bytes hdhomerunTypeDiscoverReply (discovery_payload cfg raw))
       (hex_decode (DeviceID cfg))"
  by (cases "hex_decode (DeviceID cfg)")
    (simp_all add: buildHdhomerunDiscoveryReply_def frame_bytes_def header_bytes_def
      crc_trailer_def Let_def)

lemma discovery_payload_tlvs:
  "discovery_payload cfg raw = encode_tlvs
     [(hdhomerunTagDeviceID, raw),
      (hdhomerunTagDeviceType, [0, 0, 0, 1]),
      (hdhomerunTagTunerCount, [of_int (TunerCount cfg)]),
      (hdhomerunTagDeviceAuth, to_bytes (DeviceAuth cfg)),
      (hdhomerunTagBaseURL, to_bytes (advertisedOrigin cfg)),
      (hdhomerunTagLineupURL, to_bytes (advertisedOrigin cfg @ ''/lineup.json''))]"
  by (simp add: discovery_payload_def Let_def hdhomerunDeviceTypeTuner_def)

lemma hex_decode_length: "hex_decode s = Some bs \<Longrightarrow> length s = 2 * length bs"
  by (induction s arbitrary: bs rule: hex_decode.induct) (auto split: if_splits)

lemma hex_decode_Some: "list_all is_hex s \<Longrightarrow> even (length s) \<Longrightarrow> \<exists>bs. hex_decode s = Some bs"
  by (induction s rule: hex_decode.induct) auto

lemma is_upper_hex_is_hex: "is_upper_hex c \<Longrightarrow> is_hex c"
  by (auto simp: is_upper_hex_def is_hex_def)

lemma push_or_nibble:
  "d < 16 \<Longrightarrow> push_bit 4 (of_nat n :: u32) OR of_nat d = of_nat (16 * n + d)"
proof -
  assume d: "d < 16"
  have "push_bit 4 (of_nat n :: u32) OR of_nat d = push_bit 4 (of_nat n) + of_nat d"
  proof (rule disjunctive_add_eq_or [symmetric], rule bit_word_eqI)
    fix k assume "k < LENGTH(32)"
    have "take_bit 4 d = d" using d by (simp add: take_bit_eq_mod)
    then have "bit d k \<Longrightarrow> k < 4" using bit_take_bit_iff by metis
    then show "bit (push_bit 4 (of_nat n :: u32) AND of_nat d) k = bit (0 :: u32) k"
      by (auto simp: bit_simps)
  qed
  then show ?thesis by (simp add: push_bit_eq_mult)
qed

lemma hex_nibble_unhex: "is_hex c \<Longrightarrow> hex_nibble c = Some (of_nat (unhex c))"
proof -
  assume "is_hex c"
  then consider "is_digit c" | "\<not> is_digit c" "65 \<le> code c" "code c \<le> 70"
    | "\<not> is_digit c" "97 \<le> code c" "code c \<le> 102"
    by (auto simp: is_hex_def)
  then show ?thesis
  proof cases
    case 2
    then have "code c - 55 = code c - 65 + 10" by simp
    with 2 show ?thesis by (simp add: hex_nibble_def unhex_def)
  next
    case 3
    then have "code c - 87 = code c - 97 + 10" by simp
    with 3 show ?thesis by (simp add: hex_nibble_def unhex_def)
  qed (simp add: hex_nibble_def unhex_def)
qed

lemma parse_hex_loop_hexval:
  "list_all is_hex s \<Longrightarrow>
   parse_hex_loop (of_nat n) s = Some (of_nat (foldl (\<lambda>n c. 16 * n + unhex c) n s))"
  by (induction s arbitrary: n) (simp_all add: hex_nibble_unhex push_or_nibble unhex_lt del: of_nat_add of_nat_mult)

lemma parseHexDeviceID_eq:
  "length s = 8 \<Longrightarrow> list_all is_hex s \<Longrightarrow> parseHexDeviceID s = Some (of_nat (hexval (map unhex s)))"
  using parse_hex_loop_hexval [of s 0] by (simp add: parseHexDeviceID_def hexval_def foldl_map)

lemma byte_at_of_nat: "n < 2 ^ 32 \<Longrightarrow> byte_at k (of_nat n :: u32) = of_nat (n div 2 ^ k)"
proof -
  assume n: "n < 2 ^ 32"
  have "unat (drop_bit k (of_nat n :: u32)) = n div 2 ^ k"
    unfolding unat_drop_bit_eq using n by (simp add: unsigned_of_nat take_bit_nat_eq_self drop_bit_eq_div)
  then show ?thesis
    by (simp add: byte_at_def word_unat_eq_iff unsigned_ucast_eq take_bit_eq_mod)
qed

lemma be32_of_nat:
  assumes "a < 256" "b < 256" "c < 256" "d < 256"
  shows "be32 (of_nat a) (of_nat b) (of_nat c) (of_nat d) = of_nat (256 * (256 * (256 * a + b) + c) + d)"
proof -
  define n where "n = 256 * (256 * (256 * a + b) + c) + d"
  have n: "n < 2 ^ 32" using assms by (simp add: n_def)
  have two: "m div 65536 = m div 256 div 256" "m div 16777216 = m div 256 div 256 div 256" for m :: nat
    by (simp_all flip: div_mult2_eq)
  have q: "(256 * x + y) div 256 = x" if "y < 256" for x y :: nat
    using that by simp
  have r: "(256 * x + y) mod 256 = y" if "y < 256" for x y :: nat
    using that by simp
  have pow: "(2::nat) ^ 8 = 256" "(2::nat) ^ 16 = 65536" "(2::nat) ^ 24 = 16777216"
    by simp_all
  have "n div 2 ^ 0 mod 256 = d" "n div 2 ^ 8 mod 256 = c" "n div 2 ^ 16 mod 256 = b"
      "n div 2 ^ 24 mod 256 = a"
    unfolding n_def using q assms r by (simp_all only: two power_0 div_by_1 pow) simp
  then have "byte_at 0 (of_nat n :: u32) = of_nat d" "byte_at 8 (of_nat n :: u32) = of_nat c"
      "byte_at 16 (of_nat n :: u32) = of_nat b" "byte_at 24 (of_nat n :: u32) = of_nat a"
    using assms unfolding byte_at_of_nat [OF n] by (simp_all add: word_unat_eq_iff)
  then show ?thesis using be32_byte_at [of "of_nat n"] by (simp add: n_def)
qed

text \<open>The bytes of the device id are its value, most significant first.\<close>

lemma list_of_8: "length s = 8 \<Longrightarrow> \<exists>a b c d e f g h. s = [a, b, c, d, e, f, g, h]"
  by (auto simp: numeral_eq_Suc length_Suc_conv)

lemma device_id_bytes:
  assumes "length s = 8" and "list_all is_hex s"
  shows "\<exists>raw v. hex_decode s = Some raw \<and> length raw = 4 \<and> parseHexDeviceID s = Some v \<and> words32 raw = [v]"
proof -
  obtain a b c d e f g h where s: "s = [a, b, c, d, e, f, g, h]"
    using list_of_8 [OF assms(1)] by blast
  have "unhex x * 16 + unhex y < 256" for x y
    using unhex_lt [of x] unhex_lt [of y] by simp
  note W = be32_of_nat [OF this this this this]
  show ?thesis
    using assms parseHexDeviceID_eq [OF assms] unfolding s
    by (simp add: W hexval_def del: of_nat_add of_nat_mult)
      (rule arg_cong [where f = of_nat], simp add: algebra_simps)
qed


lemma valid_device_id:
  assumes "valid_config cfg"
  shows "length (DeviceID cfg) = 8" and "list_all is_hex (DeviceID cfg)"
  using assms by (auto simp: valid_config_def device_id_ok_def list_all_iff is_upper_hex_is_hex)

text \<open>The number a valid device id stands for.\<close>

definition device_number :: "config \<Rightarrow> u32" where
  "device_number cfg = of_nat (hexval (map unhex (DeviceID cfg)))"

lemma unat_of_int_tuners: "0 \<le> i \<Longrightarrow> i \<le> 255 \<Longrightarrow> int (unat (of_int i :: byte)) = i"
  by (simp add: take_bit_int_eq_self unsigned_of_int)

lemma Some_word_inject: "(Some x = Some y) = (x = y)" by simp

text \<open>
  C22 The discovery reply decodes to the configuration. For every configuration \<open>Load\<close>
  accepts, with an auth token and an origin short enough for the wire format, the code
  builds a reply (it does not panic), and reading that reply back as a frame gives the
  reply type, an intact checksum, and exactly six tags: the number of the device id, the
  tuner type, the tuner count in one byte, the token, the origin and the lineup address.
\<close>

theorem discovery_reply_decodes:
  assumes "valid_config cfg" and "length (DeviceAuth cfg) \<le> 16000"
    and "length (advertisedOrigin cfg) \<le> 16000"
  shows "\<exists>packet f raw count.
    buildHdhomerunDiscoveryReply cfg = Some packet \<and> open_frame packet = Some f \<and>
    o_type f = hdhomerunTypeDiscoverReply \<and> o_crc_ok f \<and> o_size f = length packet \<and>
    parse_tlvs (o_payload f) = Some
      [(hdhomerunTagDeviceID, raw),
       (hdhomerunTagDeviceType, [0, 0, 0, 1]),
       (hdhomerunTagTunerCount, [count]),
       (hdhomerunTagDeviceAuth, to_bytes (DeviceAuth cfg)),
       (hdhomerunTagBaseURL, to_bytes (advertisedOrigin cfg)),
       (hdhomerunTagLineupURL, to_bytes (advertisedOrigin cfg @ ''/lineup.json''))] \<and>
    words32 raw = [device_number cfg] \<and> int (unat count) = TunerCount cfg"
proof -
  note id_ok = valid_device_id [OF assms(1)]
  obtain raw v where raw: "hex_decode (DeviceID cfg) = Some raw" "length raw = 4"
    "parseHexDeviceID (DeviceID cfg) = Some v" "words32 raw = [v]"
    using device_id_bytes [OF id_ok] by blast
  have v: "v = device_number cfg"
    using raw(3) parseHexDeviceID_eq [OF id_ok] by (simp add: device_number_def)
  have count: "int (unat (of_int (TunerCount cfg) :: byte)) = TunerCount cfg"
    using assms(1) by (intro unat_of_int_tuners) (simp_all add: valid_config_def)
  let ?pl = "discovery_payload cfg raw"
  have "length ?pl < 65536"
    using assms(2,3) raw(2) by (simp add: discovery_payload_tlvs length_encodeTag)
  then have "open_frame (frame_bytes hdhomerunTypeDiscoverReply ?pl) =
      Some \<lparr>o_type = hdhomerunTypeDiscoverReply, o_payload = ?pl, o_size = length ?pl + 8,
            o_crc_ok = True\<rparr>"
    using open_frame_bytes [of ?pl hdhomerunTypeDiscoverReply "[]"] by simp
  moreover have "parse_tlvs ?pl = Some
      [(hdhomerunTagDeviceID, raw), (hdhomerunTagDeviceType, [0, 0, 0, 1]),
       (hdhomerunTagTunerCount, [of_int (TunerCount cfg)]),
       (hdhomerunTagDeviceAuth, to_bytes (DeviceAuth cfg)),
       (hdhomerunTagBaseURL, to_bytes (advertisedOrigin cfg)),
       (hdhomerunTagLineupURL, to_bytes (advertisedOrigin cfg @ ''/lineup.json''))]"
    unfolding discovery_payload_tlvs using assms(2,3) raw(2)
    by (intro parse_encode_tlvs) simp
  ultimately show ?thesis
    using raw(1,4) v count by (simp add: discovery_reply_frame)
qed

lemma discovery_reply_decodes_witness:
  "\<exists>packet f. buildHdhomerunDiscoveryReply example_config = Some packet \<and> open_frame packet = Some f \<and>
     o_type f = hdhomerunTypeDiscoverReply \<and> o_crc_ok f"
proof -
  have "length (DeviceAuth example_config) \<le> 16000" "length (advertisedOrigin example_config) \<le> 16000"
    by code_simp+
  from discovery_reply_decodes [OF example_valid this] show ?thesis by metis
qed

text \<open>
  Which requests are answered. For a valid configuration the code answers a request
  exactly when it asks for a tuner or any type of device, and names no device, the wildcard
  device, or this device's own number.
\<close>

theorem requestMatchesConfig_iff:
  assumes "valid_config cfg"
  shows "requestMatchesConfig r cfg \<longleftrightarrow>
    {hdhomerunDeviceTypeWildcard, hdhomerunDeviceTypeTuner} \<inter> set (deviceTypes r) \<noteq> {} \<and>
    deviceID r \<in> {None, Some hdhomerunDeviceTypeWildcard, Some (device_number cfg)}"
  using parseHexDeviceID_eq [OF valid_device_id [OF assms]]
  by (cases "deviceID r")
    (auto simp: requestMatchesConfig_def device_number_def list_ex_iff)

lemma requestMatchesConfig_iff_witness:
  "requestMatchesConfig \<lparr>deviceID = None, deviceTypes = [hdhomerunDeviceTypeTuner]\<rparr> example_config \<and>
   \<not> requestMatchesConfig \<lparr>deviceID = None, deviceTypes = [hdhomerunDeviceTypeStorage]\<rparr> example_config"
  using requestMatchesConfig_iff [OF example_valid] by (simp add: wire_constants)

end
