(* ===== verification/Control.thy ===== *)
theory Control
  imports Hdhr Frames Packets
begin

text \<open>
  internal/discovery/control.go: the HDHomeRun control protocol. Frames are read off a TCP
  stream, a get/set request names a variable, and the per-tuner variables live in a
  registry all connections share. The theory shows that frame reader and request parser
  refine the abstract frame and tag list of \<open>Frames\<close> and \<open>Tlv\<close> and never panic, what
  each request does to the registry, and that the way the stream is cut into reads does
  not matter.
\<close>

subsection \<open>Frames\<close>

record hdhomerunFrame =
  frameType :: u16
  payload :: "byte list"
  totalLength :: nat
  valid :: bool

definition buildFrame :: "u16 \<Rightarrow> byte list \<Rightarrow> byte list" where
  "buildFrame ty pl =
     (let header = [byte_at 8 ty, byte_at 0 ty] @
            [byte_at 8 (of_nat (length pl) :: u16), byte_at 0 (of_nat (length pl) :: u16)];
          packet = header @ pl;
          crc = crc32IEEE packet;
          trailer = [byte_at 0 crc, byte_at 8 crc, byte_at 16 crc, byte_at 24 crc]
      in packet @ trailer)"

definition tryReadFrame :: "byte list \<Rightarrow> hdhomerunFrame option go" where
  "tryReadFrame buffer =
     (if length buffer < 8 then Some None
      else do {
        lengthField \<leftarrow> readUint16BE buffer 2;
        let payloadLength = unat lengthField;
        let total = 4 + payloadLength + 4;
        if length buffer < total then Some None
        else do {
          packet \<leftarrow> slice buffer 0 (total - 4);
          crc \<leftarrow> readUint32LE buffer (total - 4);
          if crc32IEEE packet \<noteq> crc
          then Some (Some \<lparr>frameType = 0, payload = [], totalLength = total, valid = False\<rparr>)
          else do {
            ty \<leftarrow> readUint16BE buffer 0;
            body \<leftarrow> slice buffer 4 (4 + payloadLength);
            Some (Some \<lparr>frameType = ty, payload = body, totalLength = total, valid = True\<rparr>)
          }
        }
      })"

subsection \<open>Requests\<close>

record controlRequest =
  reqName :: string
  reqValue :: "string option"

definition decodeCString :: "byte list \<Rightarrow> string" where
  "decodeCString v = trim_right_byte (CHR 0x00) (of_bytes v)"

text \<open>The loop of \<open>parseGetSetRequest\<close>, with the two pointers as options.\<close>

function get_set_loop ::
  "byte list \<Rightarrow> nat \<Rightarrow> string option \<Rightarrow> string option \<Rightarrow> (string option \<times> string option) option go" where
  "get_set_loop pl offset nm vl =
     (if offset < length pl then
        (case index pl offset of
           None \<Rightarrow> None
         | Some tg \<Rightarrow>
             (case readHdhomerunVarLength pl (offset + 1) of
                None \<Rightarrow> Some None
              | Some l \<Rightarrow>
                  let bodyOffset = offset + 1 + byteLength l;
                      bodyLimit = bodyOffset + lengthValue l
                  in if bodyLimit > length pl then Some None
                     else (case slice pl bodyOffset bodyLimit of
                             None \<Rightarrow> None
                           | Some body \<Rightarrow>
                               let s = decodeCString body
                               in get_set_loop pl bodyLimit
                                    (if tg = hdhomerunTagGetSetName then Some s else nm)
                                    (if tg = hdhomerunTagGetSetValue then Some s else vl))))
      else Some (Some (nm, vl)))"
  by pat_completeness auto
termination
  by (relation "measure (\<lambda>(p, off, n, v). length p - off)") auto

declare get_set_loop.simps [simp del]

definition parseGetSetRequest :: "byte list \<Rightarrow> controlRequest option go" where
  "parseGetSetRequest pl = do {
     result \<leftarrow> get_set_loop pl 0 None None;
     Some (case result of
             None \<Rightarrow> None
           | Some (nm, vl) \<Rightarrow>
               (case nm of None \<Rightarrow> None | Some n \<Rightarrow> Some \<lparr>reqName = n, reqValue = vl\<rparr>))
   }"

subsection \<open>Replies\<close>

definition encodeCString :: "string \<Rightarrow> byte list" where
  "encodeCString s = to_bytes s @ [0]"

definition buildGetSetReply :: "string \<Rightarrow> string \<Rightarrow> byte list" where
  "buildGetSetReply nm vl =
     buildFrame hdhomerunTypeGetSetReply
       (encodeTag hdhomerunTagGetSetName (encodeCString nm) @
        encodeTag hdhomerunTagGetSetValue (encodeCString vl))"

definition buildErrorReply :: "string \<Rightarrow> string \<Rightarrow> byte list" where
  "buildErrorReply nm msg =
     buildFrame hdhomerunTypeGetSetReply
       (encodeTag hdhomerunTagGetSetName (encodeCString nm) @
        encodeTag hdhomerunTagErrorMessage (encodeCString msg))"

definition unknown_key :: string where
  "unknown_key = ''ERROR: unknown key''"

subsection \<open>Tuner state\<close>

record tunerState =
  channel :: string
  channelmap :: string
  filtr :: string
  lockkey :: string
  program :: string
  target :: string

definition createInitialTunerState :: tunerState where
  "createInitialTunerState =
     \<lparr>channel = ''none'', channelmap = ''us-bcast'', filtr = ''0x0000-0x1FFF'',
      lockkey = ''none'', program = ''0'', target = ''none''\<rparr>"

text \<open>\<open>make([]tunerState, count)\<close> panics on a negative count.\<close>

definition newTunerRegistry :: "int \<Rightarrow> tunerState list go" where
  "newTunerRegistry count =
     (if count < 0 then None else Some (replicate (nat count) createInitialTunerState))"

definition buildFeaturesValue :: string where
  "buildFeaturesValue = join [CHR 0x0A]
     [''channelmap: us-bcast us-cable'', ''modulation: auto'', ''auto-modulation: auto'',
      ''program: 0'']"

definition buildTunerStatus :: "tunerState \<Rightarrow> string" where
  "buildTunerStatus state =
     (let (lock, signal) = (if channel state = ''none'' then (''none'', 0) else (''qam'', 100))
      in ''ch='' @ channel state @ '' lock='' @ lock @ '' ss='' @ itoa signal @
         '' snq='' @ itoa signal @ '' seq='' @ itoa signal @ '' bps=0 pps=0'')"

text \<open>The value of a writable field after an optional write: the empty string resets it.\<close>

definition write_field :: "string option \<Rightarrow> string \<Rightarrow> string \<Rightarrow> string" where
  "write_field v fallback current =
     (case v of None \<Rightarrow> current | Some s \<Rightarrow> if s = [] then fallback else s)"

definition handleTunerRequest ::
  "tunerState \<Rightarrow> string \<Rightarrow> string option \<Rightarrow> tunerState \<times> string option" where
  "handleTunerRequest state field v =
     (if field = ''channel'' then
        (let s = state\<lparr>channel := write_field v ''none'' (channel state)\<rparr> in (s, Some (channel s)))
      else if field = ''channelmap'' then
        (let s = state\<lparr>channelmap := write_field v ''us-bcast'' (channelmap state)\<rparr>
         in (s, Some (channelmap s)))
      else if field = ''filter'' then
        (let s = state\<lparr>filtr := write_field v ''0x0000-0x1FFF'' (filtr state)\<rparr>
         in (s, Some (filtr s)))
      else if field = ''lockkey'' then
        (let s = state\<lparr>lockkey := write_field v ''none'' (lockkey state)\<rparr> in (s, Some (lockkey s)))
      else if field = ''program'' then
        (let s = state\<lparr>program := write_field v ''0'' (program state)\<rparr> in (s, Some (program s)))
      else if field = ''status'' then (state, Some (buildTunerStatus state))
      else if field = ''streaminfo'' then (state, Some ''none'')
      else if field = ''target'' then
        (let s = state\<lparr>target := write_field v ''none'' (target state)\<rparr> in (s, Some (target s)))
      else (state, None))"

text \<open>
  Ranging over the runes of a string: a byte of a multi-byte or invalid sequence is at
  least 0x80 and its rune is no digit, so the test on bytes is the test on runes.
\<close>

definition isDecimal :: "string \<Rightarrow> bool" where
  "isDecimal v \<longleftrightarrow> v \<noteq> [] \<and> list_all is_digit v"

definition handleControlRequest ::
  "config \<Rightarrow> tunerState list \<Rightarrow> controlRequest option \<Rightarrow> tunerState list \<times> byte list" where
  "handleControlRequest cfg tuners request =
     (case request of
        None \<Rightarrow> (tuners, [])
      | Some r \<Rightarrow>
          let failure = (tuners, buildErrorReply (reqName r) unknown_key)
          in if has_prefix ''/tuner'' (reqName r) then
               let rest = trim_prefix ''/tuner'' (reqName r)
               in case index_byte CHR ''/'' rest of
                    None \<Rightarrow> failure
                  | Some slash \<Rightarrow>
                      if slash = 0 then failure
                      else let indexText = take slash rest;
                               field = drop (slash + 1) rest
                           in if \<not> isDecimal indexText then failure
                              else let (i, err) = atoi indexText
                                   in if err then failure
                                      else if i < 0 \<or> i \<ge> int (length tuners) then failure
                                      else (case handleTunerRequest (tuners ! nat i) field (reqValue r) of
                                              (_, None) \<Rightarrow> failure
                                            | (s, Some v) \<Rightarrow>
                                                (tuners[nat i := s], buildGetSetReply (reqName r) v))
             else if reqName r = ''/help'' then (tuners, buildGetSetReply (reqName r) ''help'')
             else if reqName r = ''/lineup/location'' then
               (tuners, buildGetSetReply (reqName r) (advertisedOrigin cfg @ ''/lineup.json''))
             else if reqName r = ''/sys/copyright'' then
               (tuners, buildGetSetReply (reqName r) ''Copyright Silicondust'')
             else if reqName r = ''/sys/debug'' then (tuners, buildGetSetReply (reqName r) ''0'')
             else if reqName r = ''/sys/features'' then
               (tuners, buildGetSetReply (reqName r) buildFeaturesValue)
             else if reqName r \<in> {''/sys/hwmodel'', ''/sys/model''} then
               (tuners, buildGetSetReply (reqName r) ModelNumber)
             else if reqName r = ''/sys/version'' then
               (tuners, buildGetSetReply (reqName r) FirmwareVersion)
             else failure)"

subsection \<open>The frame reader and the request parser refine their specifications\<close>

lemma byte_at_u16_of_nat:
  "byte_at 8 (of_nat n :: u16) = of_nat (drop_bit 8 n)" "byte_at 0 (of_nat n :: u16) = of_nat n"
  unfolding byte_at_def by (rule bit_word_eqI, auto simp: bit_simps)+

lemma buildFrame_eq: "buildFrame ty pl = frame_bytes ty pl"
  by (simp add: buildFrame_def frame_bytes_def header_bytes_def crc_trailer_def Let_def
      byte_at_u16_of_nat)

definition frame_of :: "opened \<Rightarrow> hdhomerunFrame" where
  "frame_of f =
     (if o_crc_ok f
      then \<lparr>frameType = o_type f, payload = o_payload f, totalLength = o_size f, valid = True\<rparr>
      else \<lparr>frameType = 0, payload = [], totalLength = o_size f, valid = False\<rparr>)"

lemma tryReadFrame_eq: "tryReadFrame b = Some (map_option frame_of (open_frame b))"
proof (cases "length b < 8")
  case True
  then show ?thesis by (simp add: tryReadFrame_def open_frame_def)
next
  case False
  let ?n = "unat (be16 (b ! 2) (b ! 3))"
  show ?thesis
  proof (cases "length b < ?n + 8")
    case True
    with False frame_header_reads [of b] show ?thesis
      by (simp add: tryReadFrame_def open_frame_def Let_def)
  next
    case complete: False
    with False have reads: "readUint16BE b 0 = Some (be16 (b ! 0) (b ! 1))"
      "readUint16BE b 2 = Some (be16 (b ! 2) (b ! 3))"
      "readUint32LE b (?n + 4) =
         Some (be32 (b ! (?n + 7)) (b ! (?n + 6)) (b ! (?n + 5)) (b ! (?n + 4)))"
      using frame_reads [of b] by simp_all
    moreover have "slice b 0 (?n + 4) = Some (take (?n + 4) b)"
        "slice b 4 (?n + 4) = Some (take ?n (drop 4 b))"
      using complete by (simp_all add: slice_def)
    ultimately show ?thesis
      using False complete
      by (simp add: tryReadFrame_def open_frame_def frame_of_def Let_def add.commute)
  qed
qed

lemma tryReadFrame_size:
  "tryReadFrame b = Some (Some f) \<Longrightarrow> 8 \<le> totalLength f \<and> totalLength f \<le> length b"
  by (auto simp: tryReadFrame_eq frame_of_def dest: open_frame_size split: if_splits)

definition apply_get_set :: "string option \<times> string option \<Rightarrow> tlv \<Rightarrow> string option \<times> string option" where
  "apply_get_set p tv = (case (p, tv) of ((n, v), (t, b)) \<Rightarrow>
     (if t = hdhomerunTagGetSetName then Some (decodeCString b) else n,
      if t = hdhomerunTagGetSetValue then Some (decodeCString b) else v))"

lemma get_set_loop_tlvs:
  "off \<le> length p \<Longrightarrow>
   get_set_loop p off n v = Some (map_option (foldl apply_get_set (n, v)) (parse_tlvs (drop off p)))"
proof (induction "length p - off" arbitrary: off n v rule: less_induct)
  case less
  show ?case
  proof (cases "off < length p")
    case False
    with less.prems show ?thesis by (simp add: get_set_loop.simps)
  next
    case True
    then have rest: "drop off p = p ! off # drop (Suc off) p" by (rule list_decomp)
    have read: "readHdhomerunVarLength (drop (Suc off) p) 0 = readHdhomerunVarLength p (off + 1)"
      using vl.dec_drop [of "Suc off" 0 p] True by simp
    show ?thesis
    proof (cases "readHdhomerunVarLength p (off + 1)")
      case None
      with True read show ?thesis
        by (subst get_set_loop.simps) (simp add: rest go_eval)
    next
      case (Some l)
      have bytes: "off + 1 + byteLength l \<le> length p" using vl.dec_bounds [OF Some] by simp
      let ?bo = "off + 1 + byteLength l" and ?bl = "off + 1 + byteLength l + lengthValue l"
      show ?thesis
      proof (cases "?bl \<le> length p")
        case False
        with Some True read show ?thesis
          by (subst get_set_loop.simps) (use bytes in \<open>simp add: rest go_eval Let_def\<close>)
      next
        case inside: True
        have "get_set_loop p ?bl n' v' =
            Some (map_option (foldl apply_get_set (n', v')) (parse_tlvs (drop ?bl p)))" for n' v'
          using inside vl.dec_bounds [OF Some] by (intro less.hyps) auto
        moreover have "slice p ?bo ?bl = Some (take (lengthValue l) (drop ?bo p))"
          using inside by (simp add: slice_def)
        ultimately show ?thesis
          using Some True inside read
          by (subst get_set_loop.simps)
            (simp add: rest go_eval Let_def apply_get_set_def map_option.compositionality comp_def
              add.commute add.left_commute)
      qed
    qed
  qed
qed

definition get_set_of_tlvs :: "tlv list \<Rightarrow> controlRequest option" where
  "get_set_of_tlvs tlvs =
     (case foldl apply_get_set (None, None) tlvs of
        (None, _) \<Rightarrow> None | (Some n, v) \<Rightarrow> Some \<lparr>reqName = n, reqValue = v\<rparr>)"

lemma parseGetSetRequest_eq:
  "parseGetSetRequest pl = Some (Option.bind (parse_tlvs pl) get_set_of_tlvs)"
  using get_set_loop_tlvs [of 0 pl None None]
  by (cases "parse_tlvs pl")
    (auto simp: parseGetSetRequest_def get_set_of_tlvs_def split: prod.splits option.splits)

lemma decode_encode_CString:
  assumes "s = [] \<or> last s \<noteq> CHR 0x00"
  shows "decodeCString (encodeCString s) = s"
proof -
  have "dropWhile (\<lambda>c. c = CHR 0x00) (rev s) = rev s"
    using assms by (cases s rule: rev_cases) auto
  moreover have "of_bytes [0] = [CHR 0x00]" by (simp add: of_bytes_def char_of_def)
  ultimately show ?thesis
    by (simp add: decodeCString_def encodeCString_def trim_right_byte_def)
qed

subsection \<open>A connection\<close>

text \<open>
  One connection as the handler sees it: the shared registry, the replies written so far
  and whether the handler still runs. Whether \<open>conn.Write\<close> succeeds is the network's
  choice, the parameter \<open>wr\<close>: it is given the replies written before and the new one.
\<close>

record connState =
  c_tuners :: "tunerState list"
  c_sent :: "byte list list"
  c_open :: bool

type_synonym network = "byte list list \<Rightarrow> byte list \<Rightarrow> bool"

definition handle_frame :: "config \<Rightarrow> network \<Rightarrow> connState \<Rightarrow> hdhomerunFrame \<Rightarrow> connState go" where
  "handle_frame cfg wr s f =
     (if \<not> valid f \<or> frameType f \<noteq> hdhomerunTypeGetSetRequest then Some s
      else do {
        request \<leftarrow> parseGetSetRequest (payload f);
        if request = None then Some s
        else let (tuners, reply) = handleControlRequest cfg (c_tuners s) request
             in if wr (c_sent s) reply
                then Some (s\<lparr>c_tuners := tuners, c_sent := c_sent s @ [reply]\<rparr>)
                else Some (s\<lparr>c_tuners := tuners, c_open := False\<rparr>)
      })"

text \<open>The inner loop, run after each read; the result is the state and the bytes kept.\<close>

function control_loop ::
  "config \<Rightarrow> network \<Rightarrow> connState \<Rightarrow> byte list \<Rightarrow> (connState \<times> byte list) go" where
  "control_loop cfg wr s buffer =
     (if \<not> c_open s then Some (s, [])
      else if buffer = [] then Some (s, buffer)
      else (case tryReadFrame buffer of
              None \<Rightarrow> None
            | Some None \<Rightarrow> Some (s, buffer)
            | Some (Some f) \<Rightarrow>
                (case slice buffer (totalLength f) (length buffer) of
                   None \<Rightarrow> None
                 | Some rest \<Rightarrow>
                     (case handle_frame cfg wr s f of
                        None \<Rightarrow> None
                      | Some s' \<Rightarrow> control_loop cfg wr s' rest))))"
  by pat_completeness auto
termination
  by (relation "measure (\<lambda>(cfg, wr, s, b). length b)")
    (auto dest!: tryReadFrame_size simp: slice_def split: if_splits)

declare control_loop.simps [simp del]

text \<open>The outer loop over the chunks \<open>conn.Read\<close> delivers before it fails.\<close>

fun control_reads ::
  "config \<Rightarrow> network \<Rightarrow> connState \<Rightarrow> byte list \<Rightarrow> byte list list \<Rightarrow> (connState \<times> byte list) go" where
  "control_reads cfg wr s buffer [] = Some (s, buffer)"
| "control_reads cfg wr s buffer (chunk # chunks) =
     (case control_loop cfg wr s (buffer @ chunk) of
        None \<Rightarrow> None
      | Some (s', buffer') \<Rightarrow> control_reads cfg wr s' buffer' chunks)"

text \<open>The connection is closed when the handler returns, whatever ended it.\<close>

definition handleControlConnection ::
  "config \<Rightarrow> network \<Rightarrow> tunerState list \<Rightarrow> byte list list \<Rightarrow> connState go" where
  "handleControlConnection cfg wr tuners chunks =
     map_option (\<lambda>(s, _). s\<lparr>c_open := False\<rparr>)
       (control_reads cfg wr \<lparr>c_tuners = tuners, c_sent = [], c_open = True\<rparr> [] chunks)"

subsection \<open>The stream interface\<close>

lemma handle_frame_total: "handle_frame cfg wr s f \<noteq> None"
  by (auto simp: handle_frame_def parseGetSetRequest_eq split: prod.splits)

lemma control_loop_total: "control_loop cfg wr s b \<noteq> None"
proof (induction "length b" arbitrary: s b rule: less_induct)
  case less
  show ?case
  proof (cases "c_open s \<and> b \<noteq> [] \<and> open_frame b \<noteq> None")
    case False
    then show ?thesis by (subst control_loop.simps) (auto simp: tryReadFrame_eq)
  next
    case True
    then obtain f where f: "tryReadFrame b = Some (Some f)" by (auto simp: tryReadFrame_eq)
    note size = tryReadFrame_size [OF f]
    obtain s' where s': "handle_frame cfg wr s f = Some s'" using handle_frame_total by blast
    have "control_loop cfg wr s' (drop (totalLength f) b) \<noteq> None"
      using size by (intro less.hyps) (simp, linarith)
    with True f s' size show ?thesis
      by (subst control_loop.simps) (simp add: slice_def)
  qed
qed

definition control_drain :: "config \<Rightarrow> network \<Rightarrow> connState \<Rightarrow> byte list \<Rightarrow> connState \<times> byte list" where
  "control_drain cfg wr s b = the (control_loop cfg wr s b)"

definition control_unit :: "byte list \<Rightarrow> (hdhomerunFrame \<times> nat) option" where
  "control_unit b = map_option (\<lambda>f. (f, totalLength f)) (the (tryReadFrame b))"

lemma control_loop_drain: "control_loop cfg wr s b = Some (control_drain cfg wr s b)"
  using control_loop_total by (simp add: control_drain_def)

lemma control_drain_eq:
  "control_drain cfg wr s b =
     (if c_open s
      then (case control_unit b of
              None \<Rightarrow> (s, b)
            | Some (f, n) \<Rightarrow> control_drain cfg wr (the (handle_frame cfg wr s f)) (drop n b))
      else (s, []))"
proof (cases "open_frame b")
  case None
  then show ?thesis
    by (auto simp: control_drain_def control_unit_def tryReadFrame_eq control_loop.simps)
next
  case (Some f)
  then have b: "b \<noteq> []" by (auto simp: open_frame_def)
  have "o_size f \<le> length b" using Some open_frame_size by blast
  moreover obtain s' where "handle_frame cfg wr s (frame_of f) = Some s'"
    using handle_frame_total by blast
  moreover have "totalLength (frame_of f) = o_size f" by (simp add: frame_of_def)
  ultimately show ?thesis
    using Some b unfolding control_drain_def
    by (subst control_loop.simps) (simp add: control_unit_def tryReadFrame_eq slice_def)
qed

interpretation cc: stream_consumer control_unit "\<lambda>s f. the (handle_frame cfg wr s f)" c_open
    "control_drain cfg wr" for cfg wr
proof unfold_locales
  show "control_unit b = Some (f, n) \<Longrightarrow> 0 < n \<and> n \<le> length b" for b f n
    by (auto simp: control_unit_def tryReadFrame_eq frame_of_def dest: open_frame_size split: if_splits)
  show "control_unit b = Some (f, n) \<Longrightarrow> control_unit (b @ c) = Some (f, n)" for b c f n
    by (auto simp: control_unit_def tryReadFrame_eq open_frame_extend)
qed (rule control_drain_eq)

lemma control_reads_drain:
  "control_reads cfg wr s b chunks =
     Some (foldl (\<lambda>(s, b) c. control_drain cfg wr s (b @ c)) (s, b) chunks)"
  by (induction chunks arbitrary: s b)
    (auto simp: control_loop_drain split: prod.splits)

text \<open>
  C2 How TCP cuts the stream does not matter. Whatever bytes arrive, in whatever chunks,
  the handler does not panic, and the registry it leaves and the replies it writes are
  those for the same bytes arriving in one chunk.
\<close>

theorem control_chunking:
  "\<exists>r. handleControlConnection cfg wr tuners chunks = Some r \<and>
       handleControlConnection cfg wr tuners [concat chunks] = Some r"
  by (simp add: handleControlConnection_def control_reads_drain cc.chunking_irrelevant)

subsection \<open>Streams of frames\<close>

lemma control_unit_frame:
  "length pl < 65536 \<Longrightarrow>
   control_unit (frame_bytes ty pl @ rest) =
     Some (\<lparr>frameType = ty, payload = pl, totalLength = length pl + 8, valid = True\<rparr>, length pl + 8)"
  by (simp add: control_unit_def tryReadFrame_eq open_frame_bytes frame_of_def)

lemma control_drain_frame:
  assumes "c_open s" and "length pl < 65536"
  shows "control_drain cfg wr s (frame_bytes ty pl @ rest) =
    control_drain cfg wr
      (the (handle_frame cfg wr s \<lparr>frameType = ty, payload = pl, totalLength = length pl + 8, valid = True\<rparr>)) rest"
  using cc.drain_take [OF assms(1) control_unit_frame [OF assms(2)]] by simp

text \<open>
  C21 A damaged frame is skipped. If one byte of the type or the payload of a frame is
  changed on the wire, the handler neither replies to it nor changes any tuner: it goes on
  exactly as if the frame had not been sent.
\<close>

theorem corrupted_frame_ignored:
  assumes "length pl < 65536" and "i < length pl + 4" and "i \<noteq> 2" and "i \<noteq> 3"
    and "b \<noteq> frame_bytes ty pl ! i" and "c_open s"
  shows "control_loop cfg wr s ((frame_bytes ty pl)[i := b] @ rest) = control_loop cfg wr s rest"
proof -
  let ?p = "(frame_bytes ty pl)[i := b] @ rest"
  have hdr: "?p ! 2 = frame_bytes ty pl ! 2" "?p ! 3 = frame_bytes ty pl ! 3"
    using assms(3,4) by (simp_all add: nth_append)
  have "unat (be16 (?p ! 2) (?p ! 3)) = length pl"
    unfolding hdr using assms(1)
    by (simp add: frame_bytes_def Let_def header_bytes_def nth_append be16_length_bytes)
  then obtain f where f: "open_frame ?p = Some f" "o_size f = length pl + 8"
    by (simp add: open_frame_def Let_def)
  then have "\<not> o_crc_ok f"
    using open_frame_corrupt [OF assms(1-5), of rest f] by blast
  with f have u: "control_unit ?p =
      Some (\<lparr>frameType = 0, payload = [], totalLength = length pl + 8, valid = False\<rparr>, length pl + 8)"
    by (simp add: control_unit_def tryReadFrame_eq frame_of_def)
  have "control_drain cfg wr s ?p = control_drain cfg wr s rest"
    using cc.drain_take [OF assms(6) u] by (simp add: handle_frame_def)
  then show ?thesis by (simp add: control_loop_drain)
qed

lemma corrupted_frame_ignored_witness:
  "control_loop example_config (\<lambda>sent reply. True) \<lparr>c_tuners = [], c_sent = [], c_open = True\<rparr>
     ((frame_bytes 4 [])[0 := 1] @ []) =
   control_loop example_config (\<lambda>sent reply. True) \<lparr>c_tuners = [], c_sent = [], c_open = True\<rparr> []"
proof -
  have "frame_bytes 4 [] ! 0 = 0"
    by (simp add: frame_bytes_def header_bytes_def Let_def byte_at_def)
  then show ?thesis
    by (intro corrupted_frame_ignored) simp_all
qed

text \<open>
  The control parsers refine their specifications and never panic. On every buffer
  \<open>tryReadFrame\<close> returns the frame at its front, marked invalid when its checksum is
  wrong, or nothing while it is incomplete; on every payload \<open>parseGetSetRequest\<close> returns
  the request its list of tags spells, or nothing when a tag is truncated or no name is given.
\<close>

theorem control_parsers_refine:
  "tryReadFrame b = Some (map_option frame_of (open_frame b)) \<and>
   parseGetSetRequest pl = Some (Option.bind (parse_tlvs pl) get_set_of_tlvs)"
  by (simp add: tryReadFrame_eq parseGetSetRequest_eq)

end
