(* ===== verification/Tuners.thy ===== *)
theory Tuners
  imports Control
begin

text \<open>
  What the control requests of internal/discovery/control.go do to the tuner registry: a
  tuner implements a map of six variables, a request touches at most one variable of one
  tuner, reads answer with what was last written, no variable is ever empty; and, over the
  wire, a connection answers a stream of client requests one by one and in order with
  replies a client decodes.
\<close>

subsection \<open>A tuner is a map of six variables\<close>

text \<open>The specification of a tuner: its writable variables by name.\<close>

definition tuner_vars :: "tunerState \<Rightarrow> string \<rightharpoonup> string" where
  "tuner_vars s f =
     (if f = ''channel'' then Some (channel s) else if f = ''channelmap'' then Some (channelmap s)
      else if f = ''filter'' then Some (filtr s) else if f = ''lockkey'' then Some (lockkey s)
      else if f = ''program'' then Some (program s) else if f = ''target'' then Some (target s)
      else None)"

definition writable :: "string set" where
  "writable = {''channel'', ''channelmap'', ''filter'', ''lockkey'', ''program'', ''target''}"

text \<open>What a variable holds after a request with an optional new contents.\<close>

definition written :: "tunerState \<Rightarrow> string \<Rightarrow> string option \<Rightarrow> string option" where
  "written s f v =
     (case v of
        None \<Rightarrow> tuner_vars s f
      | Some x \<Rightarrow> if x = [] then tuner_vars createInitialTunerState f else Some x)"

lemma dom_tuner_vars: "dom (tuner_vars s) = writable"
  by (auto simp: tuner_vars_def writable_def split: if_split_asm)

lemma tuner_vars_None: "f \<notin> writable \<Longrightarrow> tuner_vars s f = None"
  using dom_tuner_vars by blast

lemma tuner_vars_update:
  "tuner_vars (s\<lparr>channel := x\<rparr>) = (tuner_vars s)(''channel'' \<mapsto> x)"
  "tuner_vars (s\<lparr>channelmap := x\<rparr>) = (tuner_vars s)(''channelmap'' \<mapsto> x)"
  "tuner_vars (s\<lparr>filtr := x\<rparr>) = (tuner_vars s)(''filter'' \<mapsto> x)"
  "tuner_vars (s\<lparr>lockkey := x\<rparr>) = (tuner_vars s)(''lockkey'' \<mapsto> x)"
  "tuner_vars (s\<lparr>program := x\<rparr>) = (tuner_vars s)(''program'' \<mapsto> x)"
  "tuner_vars (s\<lparr>target := x\<rparr>) = (tuner_vars s)(''target'' \<mapsto> x)"
  by (simp_all add: fun_eq_iff tuner_vars_def)

lemma tuner_vars_simps:
  "tuner_vars s ''channel'' = Some (channel s)"
  "tuner_vars s ''channelmap'' = Some (channelmap s)"
  "tuner_vars s ''filter'' = Some (filtr s)"
  "tuner_vars s ''lockkey'' = Some (lockkey s)"
  "tuner_vars s ''program'' = Some (program s)"
  "tuner_vars s ''target'' = Some (target s)"
  by (simp_all add: tuner_vars_def)

lemma handleTunerRequest_fields:
  "handleTunerRequest s ''channel'' v =
     (let x = write_field v ''none'' (channel s) in (s\<lparr>channel := x\<rparr>, Some x))"
  "handleTunerRequest s ''channelmap'' v =
     (let x = write_field v ''us-bcast'' (channelmap s) in (s\<lparr>channelmap := x\<rparr>, Some x))"
  "handleTunerRequest s ''filter'' v =
     (let x = write_field v ''0x0000-0x1FFF'' (filtr s) in (s\<lparr>filtr := x\<rparr>, Some x))"
  "handleTunerRequest s ''lockkey'' v =
     (let x = write_field v ''none'' (lockkey s) in (s\<lparr>lockkey := x\<rparr>, Some x))"
  "handleTunerRequest s ''program'' v =
     (let x = write_field v ''0'' (program s) in (s\<lparr>program := x\<rparr>, Some x))"
  "handleTunerRequest s ''target'' v =
     (let x = write_field v ''none'' (target s) in (s\<lparr>target := x\<rparr>, Some x))"
  by (simp_all add: handleTunerRequest_def Let_def)

lemma initial_fields:
  "channel createInitialTunerState = ''none''"
  "channelmap createInitialTunerState = ''us-bcast''"
  "filtr createInitialTunerState = ''0x0000-0x1FFF''"
  "lockkey createInitialTunerState = ''none''"
  "program createInitialTunerState = ''0''"
  "target createInitialTunerState = ''none''"
  by (simp_all add: createInitialTunerState_def)

lemma written_field:
  "tuner_vars createInitialTunerState f = Some d \<Longrightarrow> tuner_vars s f = Some c \<Longrightarrow>
   written s f v = Some (write_field v d c)"
  by (cases v) (simp_all add: written_def write_field_def)

lemmas written_fields =
  written_field [OF tuner_vars_simps(1) tuner_vars_simps(1), unfolded initial_fields]
  written_field [OF tuner_vars_simps(2) tuner_vars_simps(2), unfolded initial_fields]
  written_field [OF tuner_vars_simps(3) tuner_vars_simps(3), unfolded initial_fields]
  written_field [OF tuner_vars_simps(4) tuner_vars_simps(4), unfolded initial_fields]
  written_field [OF tuner_vars_simps(5) tuner_vars_simps(5), unfolded initial_fields]
  written_field [OF tuner_vars_simps(6) tuner_vars_simps(6), unfolded initial_fields]

lemma handleTunerRequest_writable:
  assumes "f \<in> writable" and h: "handleTunerRequest s f v = (s', r)"
  shows "tuner_vars s' = (tuner_vars s)(f := written s f v) \<and> r = written s f v"
proof -
  have s': "s' = fst (handleTunerRequest s f v)" and r: "r = snd (handleTunerRequest s f v)"
    by (simp_all only: h fst_conv snd_conv)
  note eqs = handleTunerRequest_fields written_fields Let_def fst_conv snd_conv tuner_vars_update
  from assms(1) show ?thesis unfolding writable_def s' r
    by (elim insertE emptyE) (simp_all only: eqs simp_thms)
qed

lemma handleTunerRequest_other:
  "f \<notin> writable \<Longrightarrow> handleTunerRequest s f v =
     (s, if f = ''status'' then Some (buildTunerStatus s)
         else if f = ''streaminfo'' then Some ''none'' else None)"
  by (simp add: handleTunerRequest_def writable_def)

lemma handleTunerRequest_read: "fst (handleTunerRequest s f None) = s"
  by (simp add: handleTunerRequest_def write_field_def Let_def)

text \<open>
  A tuner implements its map of variables. A request for one of the six writable
  variables changes exactly that variable, to the new contents, or to its initial value
  when the new contents are empty, and answers with what the variable then holds; any other
  name changes nothing, answers the status line or \<open>none\<close>, or is refused.
\<close>

theorem tuner_request_refines:
  "case handleTunerRequest s f v of (s', r) \<Rightarrow>
     tuner_vars s' = (if f \<in> writable then (tuner_vars s)(f := written s f v) else tuner_vars s) \<and>
     r = (if f \<in> writable then written s f v
          else if f = ''status'' then Some (buildTunerStatus s)
          else if f = ''streaminfo'' then Some ''none'' else None)"
  by (cases "f \<in> writable")
    (auto simp: handleTunerRequest_other dest: handleTunerRequest_writable split: prod.splits)

lemma written_Some: "f \<in> writable \<Longrightarrow> \<exists>x. written s f v = Some x"
  using dom_tuner_vars [of s] dom_tuner_vars [of createInitialTunerState]
  by (auto simp: written_def dom_def split: option.splits)

subsection \<open>Requests that name a tuner\<close>

definition tuner_key :: "nat \<Rightarrow> string \<Rightarrow> string" where
  "tuner_key i f = ''/tuner'' @ itoa (int i) @ CHR ''/'' # f"

lemma slash_notin_itoa: "CHR ''/'' \<notin> set (itoa (int i))"
  using itoa_nat_digits [of i] is_digit_not_sign by (auto simp: itoa_def list_all_iff)

lemma handleControlRequest_tuner:
  assumes "i < length ts" and "int (length ts) \<le> max_int"
  shows "handleControlRequest cfg ts (Some \<lparr>reqName = tuner_key i f, reqValue = v\<rparr>) =
    (case handleTunerRequest (ts ! i) f v of
       (_, None) \<Rightarrow> (ts, buildErrorReply (tuner_key i f) unknown_key)
     | (s, Some x) \<Rightarrow> (ts[i := s], buildGetSetReply (tuner_key i f) x))"
proof -
  let ?rest = "itoa (int i) @ CHR ''/'' # f"
  have "index_byte CHR ''/'' ?rest = Some (length (itoa (int i)))"
    by (rule index_byte_append [OF slash_notin_itoa])
  moreover have "itoa (int i) \<noteq> []" "isDecimal (itoa (int i))"
    using itoa_nat_nonempty [of i] itoa_nat_digits [of i] by (simp_all add: isDecimal_def itoa_def)
  moreover have "atoi (itoa (int i)) = (int i, False)"
    using assms by (intro atoi_itoa) simp_all
  moreover have "has_prefix ''/tuner'' (tuner_key i f)" "trim_prefix ''/tuner'' (tuner_key i f) = ?rest"
    by (simp_all add: tuner_key_def trim_prefix_def del: append.simps)
  ultimately show ?thesis
    using assms(1) by (simp add: handleControlRequest_def Let_def)
qed

lemma handleControlRequest_writable:
  assumes "i < length ts" and "int (length ts) \<le> max_int" and "f \<in> writable"
  obtains s where "handleControlRequest cfg ts (Some \<lparr>reqName = tuner_key i f, reqValue = v\<rparr>) =
      (ts[i := s], buildGetSetReply (tuner_key i f) (the (written (ts ! i) f v)))"
    and "tuner_vars s = (tuner_vars (ts ! i))(f := written (ts ! i) f v)"
    and "v = None \<longrightarrow> s = ts ! i"
proof -
  obtain s r where h: "handleTunerRequest (ts ! i) f v = (s, r)" by fastforce
  moreover obtain x where "written (ts ! i) f v = Some x" using written_Some [OF assms(3)] by blast
  moreover have "v = None \<longrightarrow> s = ts ! i"
    using h handleTunerRequest_read [of "ts ! i" f] by auto
  ultimately show thesis
    using that [of s] handleTunerRequest_writable [OF assms(3) h] handleControlRequest_tuner [OF assms(1,2)]
    by auto
qed

lemma small_registry: "n \<le> 255 \<Longrightarrow> int n \<le> max_int"
  by (simp add: max_int_def)

text \<open>
  C24 Set and get on the registry. Writing a variable of one tuner is answered with what it
  then holds; a later read of any variable of any tuner is answered with that if it is the
  same variable of the same tuner and with its previous contents otherwise, and reading
  changes nothing.
\<close>

theorem control_set_get:
  assumes "i < length ts" and "j < length ts" and "length ts \<le> 255"
    and "f \<in> writable" and "g \<in> writable"
    and "handleControlRequest cfg ts (Some \<lparr>reqName = tuner_key i f, reqValue = Some x\<rparr>) = (ts', reply)"
  shows "reply = buildGetSetReply (tuner_key i f) (the (written (ts ! i) f (Some x))) \<and>
    handleControlRequest cfg ts' (Some \<lparr>reqName = tuner_key j g, reqValue = None\<rparr>) =
      (ts', buildGetSetReply (tuner_key j g)
         (the (if j = i \<and> g = f then written (ts ! i) f (Some x) else tuner_vars (ts ! j) g)))"
proof -
  note small = small_registry [OF assms(3)]
  obtain s where s: "handleControlRequest cfg ts (Some \<lparr>reqName = tuner_key i f, reqValue = Some x\<rparr>) =
      (ts[i := s], buildGetSetReply (tuner_key i f) (the (written (ts ! i) f (Some x))))"
    "tuner_vars s = (tuner_vars (ts ! i))(f := written (ts ! i) f (Some x))"
    using handleControlRequest_writable [OF assms(1) small assms(4)] by metis
  then have ts': "ts' = ts[i := s]" using assms(6) by simp
  have "j < length ts'" "int (length ts') \<le> max_int" using assms(2) small ts' by simp_all
  then obtain s2 where "handleControlRequest cfg ts' (Some \<lparr>reqName = tuner_key j g, reqValue = None\<rparr>) =
      (ts'[j := s2], buildGetSetReply (tuner_key j g) (the (written (ts' ! j) g None)))" "s2 = ts' ! j"
    using handleControlRequest_writable [of j ts' g cfg None] assms(5) by metis
  moreover have "written (ts' ! j) g None =
      (if j = i \<and> g = f then written (ts ! i) f (Some x) else tuner_vars (ts ! j) g)"
    using s(2) ts' assms(1) by (auto simp: written_def nth_list_update)
  ultimately show ?thesis using s(1) assms(6) by simp
qed

lemma handleControlRequest_changes:
  assumes "handleControlRequest cfg ts (Some r) = (ts', reply)" and "ts' \<noteq> ts"
  obtains i s x digits f where "reqName r = ''/tuner'' @ digits @ CHR ''/'' # f"
    and "atoi digits = (int i, False)" and "i < length ts"
    and "handleTunerRequest (ts ! i) f (reqValue r) = (s, Some x)" and "ts' = ts[i := s]"
proof -
  let ?rest = "trim_prefix ''/tuner'' (reqName r)"
  obtain slash i s x where *: "has_prefix ''/tuner'' (reqName r)" "index_byte CHR ''/'' ?rest = Some slash"
    "atoi (take slash ?rest) = (i, False)" "0 \<le> i" "i < int (length ts)"
    "handleTunerRequest (ts ! nat i) (drop (slash + 1) ?rest) (reqValue r) = (s, Some x)"
    "ts' = ts[nat i := s]"
    using assms
    by (auto simp: handleControlRequest_def Let_def split: option.split_asm prod.split_asm if_split_asm)
  have "?rest = take slash ?rest @ CHR ''/'' # drop (slash + 1) ?rest"
    using index_byte_Some [OF *(2)] by blast
  moreover have "reqName r = ''/tuner'' @ ?rest"
    using *(1) by (auto simp: trim_prefix_def has_prefix_iff simp del: append.simps)
  ultimately have "reqName r = ''/tuner'' @ take slash ?rest @ CHR ''/'' # drop (slash + 1) ?rest"
    by metis
  with * show thesis by (intro that [of "take slash ?rest" "drop (slash + 1) ?rest" "nat i" s x]) simp_all
qed

lemma control_set_get_witness:
  "\<exists>ts'. handleControlRequest example_config (replicate 2 createInitialTunerState)
       (Some \<lparr>reqName = tuner_key 1 ''channel'', reqValue = Some ''8vsb:7''\<rparr>) =
         (ts', buildGetSetReply (tuner_key 1 ''channel'') ''8vsb:7'') \<and>
     handleControlRequest example_config ts' (Some \<lparr>reqName = tuner_key 1 ''channel'', reqValue = None\<rparr>) =
       (ts', buildGetSetReply (tuner_key 1 ''channel'') ''8vsb:7'')"
proof -
  obtain ts' reply where h: "handleControlRequest example_config (replicate 2 createInitialTunerState)
      (Some \<lparr>reqName = tuner_key 1 ''channel'', reqValue = Some ''8vsb:7''\<rparr>) = (ts', reply)"
    by fastforce
  have "''channel'' \<in> writable" by (simp add: writable_def)
  from control_set_get [OF _ _ _ this this h, of 1] h show ?thesis
    by (simp add: written_def)
qed

text \<open>
  A request touches at most one tuner. Whatever the request, the number of tuners does
  not change; either the registry is unchanged, or one tuner, whose index the request
  spells in decimal, has changed in one writable variable; an unknown key changes nothing.
\<close>

theorem control_request_frame:
  "case handleControlRequest cfg ts (Some r) of (ts', reply) \<Rightarrow>
     length ts' = length ts \<and>
     (ts' = ts \<or>
      (\<exists>i < length ts. \<exists>f \<in> writable. \<exists>digits.
         reqName r = ''/tuner'' @ digits @ CHR ''/'' # f \<and> atoi digits = (int i, False) \<and>
         (\<forall>j < length ts. j \<noteq> i \<longrightarrow> ts' ! j = ts ! j) \<and>
         tuner_vars (ts' ! i) = (tuner_vars (ts ! i))(f := written (ts ! i) f (reqValue r))))"
proof -
  obtain ts' reply where h: "handleControlRequest cfg ts (Some r) = (ts', reply)" by fastforce
  show ?thesis
  proof (cases "ts' = ts")
    case True
    with h show ?thesis by simp
  next
    case False
    from h False obtain i s x digits f where c: "reqName r = ''/tuner'' @ digits @ CHR ''/'' # f"
      "atoi digits = (int i, False)" "i < length ts"
      "handleTunerRequest (ts ! i) f (reqValue r) = (s, Some x)" "ts' = ts[i := s]"
      by (rule handleControlRequest_changes)
    have f: "f \<in> writable"
      using c(4,5) False handleTunerRequest_other [of f "ts ! i" "reqValue r"]
      by (cases "f \<in> writable") auto
    then have "tuner_vars s = (tuner_vars (ts ! i))(f := written (ts ! i) f (reqValue r))"
      using handleTunerRequest_writable c(4) by blast
    then have "length ts' = length ts \<and> i < length ts \<and> f \<in> writable \<and>
       reqName r = ''/tuner'' @ digits @ CHR ''/'' # f \<and> atoi digits = (int i, False) \<and>
       (\<forall>j < length ts. j \<noteq> i \<longrightarrow> ts' ! j = ts ! j) \<and>
       tuner_vars (ts' ! i) = (tuner_vars (ts ! i))(f := written (ts ! i) f (reqValue r))"
      using c f by simp
    then show ?thesis unfolding h by blast
  qed
qed

lemma control_request_frame_witness:
  "tuner_vars (fst (handleControlRequest example_config (replicate 2 createInitialTunerState)
     (Some \<lparr>reqName = ''/tuner1/target'', reqValue = Some ''rtp''\<rparr>)) ! 0) =
   tuner_vars createInitialTunerState"
proof -
  let ?r = "\<lparr>reqName = ''/tuner1/target'', reqValue = Some ''rtp''\<rparr>"
  obtain ts' reply where h: "handleControlRequest example_config (replicate 2 createInitialTunerState) (Some ?r) = (ts', reply)"
    by fastforce
  have "atoi digits \<noteq> (int 0, False)" if "reqName ?r = ''/tuner'' @ digits @ CHR ''/'' # f" for digits f
  proof -
    have "digits @ CHR ''/'' # f = ''1/target''" using that by simp
    then have "digits = ''1''"
      by (cases digits; cases "tl digits") (auto simp: append_eq_Cons_conv Cons_eq_append_conv)
    moreover have "atoi ''1'' \<noteq> (int 0, False)" by code_simp
    ultimately show ?thesis by simp
  qed
  then show ?thesis
    using control_request_frame [where cfg = example_config and ts = "replicate 2 createInitialTunerState" and r = ?r]
    by (simp add: h) fastforce
qed

subsection \<open>Invariant: no variable is ever empty\<close>

definition tuner_ok :: "tunerState \<Rightarrow> bool" where
  "tuner_ok s \<longleftrightarrow> [] \<notin> ran (tuner_vars s)"

definition registry_ok :: "nat \<Rightarrow> tunerState list \<Rightarrow> bool" where
  "registry_ok n ts \<longleftrightarrow> length ts = n \<and> list_all tuner_ok ts"

lemma written_nonempty: "tuner_ok s \<Longrightarrow> written s f v \<noteq> Some []"
  by (cases v) (auto simp: written_def tuner_ok_def ran_def tuner_vars_def initial_fields split: if_split_asm)

lemma handleTunerRequest_ok: "tuner_ok s \<Longrightarrow> tuner_ok (fst (handleTunerRequest s f v))"
proof (cases "f \<in> writable")
  case True
  assume ok: "tuner_ok s"
  obtain s' r where h: "handleTunerRequest s f v = (s', r)" by fastforce
  from handleTunerRequest_writable [OF True h] ok written_nonempty [OF ok, of f v] show ?thesis
    by (auto simp: h tuner_ok_def ran_def split: if_split_asm)
qed (simp add: handleTunerRequest_other)

lemma handleControlRequest_ok:
  "registry_ok n ts \<Longrightarrow> registry_ok n (fst (handleControlRequest cfg ts r))"
proof (cases r)
  case None
  then show "registry_ok n ts \<Longrightarrow> ?thesis" by (simp add: handleControlRequest_def)
next
  case (Some q)
  assume ok: "registry_ok n ts"
  obtain ts' reply where h: "handleControlRequest cfg ts (Some q) = (ts', reply)" by fastforce
  show ?thesis
  proof (cases "ts' = ts")
    case False
    from h False obtain i s x digits f where "i < length ts"
      "handleTunerRequest (ts ! i) f (reqValue q) = (s, Some x)" "ts' = ts[i := s]"
      by (rule handleControlRequest_changes)
    moreover have "tuner_ok (fst (handleTunerRequest (ts ! i) f (reqValue q)))"
      using ok calculation(1) by (intro handleTunerRequest_ok) (simp add: registry_ok_def list_all_length)
    ultimately show ?thesis
      using h Some ok by (auto simp: registry_ok_def list_all_length nth_list_update)
  qed (use h Some ok in simp)
qed

subsection \<open>Over the wire\<close>

text \<open>What a client sends, and what it may send: C strings, short enough for one frame.\<close>

definition client_request :: "controlRequest \<Rightarrow> byte list" where
  "client_request r = frame_bytes hdhomerunTypeGetSetRequest
     (encode_tlvs ((hdhomerunTagGetSetName, encodeCString (reqName r)) #
        (case reqValue r of None \<Rightarrow> []
         | Some v \<Rightarrow> [(hdhomerunTagGetSetValue, encodeCString v)])))"

definition c_string :: "string \<Rightarrow> bool" where
  "c_string s \<longleftrightarrow> length s \<le> 32000 \<and> (s = [] \<or> last s \<noteq> CHR 0x00)"

definition sendable :: "controlRequest \<Rightarrow> bool" where
  "sendable r \<longleftrightarrow> c_string (reqName r) \<and> (case reqValue r of None \<Rightarrow> True | Some v \<Rightarrow> c_string v)"

lemma length_encodeCString [simp]: "length (encodeCString s) = length s + 1"
  by (simp add: encodeCString_def)

lemma parse_client_request:
  assumes "sendable r"
  obtains pl where "client_request r = frame_bytes hdhomerunTypeGetSetRequest pl"
    and "length pl < 65536" and "parseGetSetRequest pl = Some (Some r)"
proof -
  let ?tlvs = "(hdhomerunTagGetSetName, encodeCString (reqName r)) #
        (case reqValue r of None \<Rightarrow> [] | Some v \<Rightarrow> [(hdhomerunTagGetSetValue, encodeCString v)])"
  have small: "\<forall>(t, v) \<in> set ?tlvs. length v \<le> 0x7FFF" and len: "length (encode_tlvs ?tlvs) < 65536"
    using assms by (auto simp: sendable_def c_string_def length_encodeTag split: option.splits)
  have name: "decodeCString (encodeCString (reqName r)) = reqName r"
    using assms by (auto simp: sendable_def c_string_def intro: decode_encode_CString)
  have contents: "decodeCString (encodeCString v) = v" if "reqValue r = Some v" for v
    using assms that by (auto simp: sendable_def c_string_def intro: decode_encode_CString)
  have "get_set_of_tlvs ?tlvs = Some r"
    using name contents
    by (cases r, cases "reqValue r") (simp_all add: get_set_of_tlvs_def apply_get_set_def wire_constants)
  then have "parseGetSetRequest (encode_tlvs ?tlvs) = Some (Some r)"
    by (simp only: parseGetSetRequest_eq parse_encode_tlvs [OF small] bind.bind_lunit)
  with len show thesis by (intro that [of "encode_tlvs ?tlvs"]) (simp_all only: client_request_def)
qed

text \<open>Serving requests one after the other: the registry and the replies, in order.\<close>

fun serve :: "config \<Rightarrow> tunerState list \<Rightarrow> controlRequest list \<Rightarrow> tunerState list \<times> byte list list" where
  "serve cfg ts [] = (ts, [])"
| "serve cfg ts (r # rs) =
     (let (ts', reply) = handleControlRequest cfg ts (Some r); (ts'', replies) = serve cfg ts' rs
      in (ts'', reply # replies))"

lemma control_drain_requests:
  assumes "c_open s" and "list_all sendable rs"
  shows "control_drain cfg (\<lambda>sent reply. True) s (concat (map client_request rs) @ rest) =
    control_drain cfg (\<lambda>sent reply. True)
      (s\<lparr>c_tuners := fst (serve cfg (c_tuners s) rs), c_sent := c_sent s @ snd (serve cfg (c_tuners s) rs)\<rparr>)
      rest"
  using assms
proof (induction rs arbitrary: s)
  case Nil
  then show ?case by simp
next
  case (Cons r rs)
  then obtain pl where pl: "client_request r = frame_bytes hdhomerunTypeGetSetRequest pl"
    "length pl < 65536" "parseGetSetRequest pl = Some (Some r)"
    using parse_client_request [of r] by (metis list.pred_inject(2))
  obtain ts' reply where h: "handleControlRequest cfg (c_tuners s) (Some r) = (ts', reply)" by fastforce
  obtain ts'' replies where tail: "serve cfg ts' rs = (ts'', replies)" by fastforce
  let ?s' = "s\<lparr>c_tuners := ts', c_sent := c_sent s @ [reply]\<rparr>"
  have "control_drain cfg (\<lambda>sent reply. True) s (concat (map client_request (r # rs)) @ rest) =
      control_drain cfg (\<lambda>sent reply. True) ?s' (concat (map client_request rs) @ rest)"
    using control_drain_frame [OF Cons.prems(1) pl(2), of cfg "\<lambda>sent reply. True"] pl h
    by (simp add: handle_frame_def)
  also have "\<dots> = control_drain cfg (\<lambda>sent reply. True) (?s'\<lparr>c_tuners := fst (serve cfg ts' rs),
      c_sent := (c_sent s @ [reply]) @ snd (serve cfg ts' rs)\<rparr>) rest"
    using Cons.IH [of ?s'] Cons.prems by simp
  finally show ?case using h tail by simp
qed

text \<open>
  A connection serves its requests in order. If the bytes that arrive are the frames of
  a list of requests, however they are cut into reads, and every write succeeds, the
  handler writes exactly one reply per request, in order, and leaves the registry the
  requests produce one after the other.
\<close>

theorem control_serves_in_order:
  assumes "concat chunks = concat (map client_request rs)" and "list_all sendable rs"
  shows "handleControlConnection cfg (\<lambda>sent reply. True) ts chunks =
    Some \<lparr>c_tuners = fst (serve cfg ts rs), c_sent = snd (serve cfg ts rs), c_open = False\<rparr>"
  using control_drain_requests [of "\<lparr>c_tuners = ts, c_sent = [], c_open = True\<rparr>" rs cfg "[]"]
    cc.drain_Nil [of cfg "\<lambda>sent reply. True"] assms
  by (simp add: handleControlConnection_def control_reads_drain cc.chunking_irrelevant)

lemma control_serves_in_order_witness:
  "\<exists>ts replies. handleControlConnection example_config (\<lambda>sent reply. True)
       (replicate 2 createInitialTunerState)
       [take 3 (client_request \<lparr>reqName = ''/help'', reqValue = None\<rparr>),
        drop 3 (client_request \<lparr>reqName = ''/help'', reqValue = None\<rparr>)] =
     Some \<lparr>c_tuners = ts, c_sent = [buildGetSetReply ''/help'' ''help''], c_open = False\<rparr>"
proof -
  have "list_all sendable [\<lparr>reqName = ''/help'', reqValue = None\<rparr>]"
    by (simp add: sendable_def c_string_def)
  from control_serves_in_order [OF _ this, of "[take 3 (client_request \<lparr>reqName = ''/help'', reqValue = None\<rparr>),
        drop 3 (client_request \<lparr>reqName = ''/help'', reqValue = None\<rparr>)]"]
  show ?thesis by (simp add: handleControlRequest_def Let_def has_prefix_def)
qed

text \<open>
  Replies decode. A reply to a request, or an error reply, for C strings short enough
  for one frame is read back as an intact get/set reply whose two tags are the name and
  the contents, each terminated by a zero byte.
\<close>

theorem control_replies_decode:
  assumes "length n \<le> 32000" and "length v \<le> 32000"
  shows "(\<exists>f. open_frame (buildGetSetReply n v) = Some f \<and> o_type f = hdhomerunTypeGetSetReply \<and> o_crc_ok f \<and>
      parse_tlvs (o_payload f) = Some [(hdhomerunTagGetSetName, to_bytes n @ [0]), (hdhomerunTagGetSetValue, to_bytes v @ [0])]) \<and>
    (\<exists>f. open_frame (buildErrorReply n v) = Some f \<and> o_type f = hdhomerunTypeGetSetReply \<and> o_crc_ok f \<and>
      parse_tlvs (o_payload f) = Some [(hdhomerunTagGetSetName, to_bytes n @ [0]), (hdhomerunTagErrorMessage, to_bytes v @ [0])])"
proof -
  have "\<exists>f. open_frame (frame_bytes hdhomerunTypeGetSetReply
        (encodeTag hdhomerunTagGetSetName (encodeCString n) @ encodeTag t (encodeCString v))) = Some f \<and>
      o_type f = hdhomerunTypeGetSetReply \<and> o_crc_ok f \<and>
      parse_tlvs (o_payload f) = Some [(hdhomerunTagGetSetName, to_bytes n @ [0]), (t, to_bytes v @ [0])]" for t
    using assms open_frame_bytes [of "encodeTag hdhomerunTagGetSetName (encodeCString n) @ encodeTag t (encodeCString v)"
        hdhomerunTypeGetSetReply "[]"]
      parse_encode_tlvs [of "[(hdhomerunTagGetSetName, encodeCString n), (t, encodeCString v)]"]
    by (simp add: length_encodeTag encodeCString_def)
  from this [of hdhomerunTagGetSetValue] this [of hdhomerunTagErrorMessage]
  show ?thesis by (simp add: buildGetSetReply_def buildErrorReply_def buildFrame_eq)
qed

lemma control_replies_decode_witness:
  "\<exists>f. open_frame (buildGetSetReply ''/sys/debug'' ''0'') = Some f \<and> o_crc_ok f"
  using control_replies_decode [of "''/sys/debug''" "''0''"] by auto

end
