(* ===== verification/Control_Server.thy ===== *)
theory Control_Server
  imports Tuners "HOL-Library.Sublist"
begin

text \<open>
  The concurrency of StartHdhomerunControlServer (internal/discovery/control.go): the accept
  loop, one handler goroutine per connection, the registry of tuners they share under its
  lock, the set of active connections with the mutex that guards it, and \<open>stop\<close>, as a step
  relation in which any goroutine may move next. A step is what happens between two lock
  operations or calls of the network; reads, writes and hang-ups have whatever outcome the
  network chooses. \<open>server_run\<close> records the requests in the order their handlers held the
  lock of the registry.
\<close>

subsection \<open>State\<close>

datatype phase =
    NotAccepted
  | JustAccepted            \<comment> \<open>returned by \<open>Accept\<close>, not yet in \<open>activeConnections\<close>\<close>
  | Handling                \<comment> \<open>the handler reads or takes frames off its buffer\<close>
  | Writing "byte list"     \<comment> \<open>the request is done, its reply is being written\<close>
  | Returning               \<comment> \<open>the loop has returned, \<open>onClose\<close> is next\<close>
  | Unregistered            \<comment> \<open>\<open>onClose\<close> has run, \<open>conn.Close\<close> is next\<close>
  | Finished

record conn =
  k_phase :: phase
  k_open :: bool
  k_buffer :: "byte list"
  k_received :: "byte list"
  k_sent :: "byte list list"

text \<open>
  Where \<open>stop\<close> is, which \<open>once\<close> lets run a single time: not called, the listener closed, the
  mutex held and some connections still to be closed by its loop, returned.
\<close>

datatype stop_phase = NotStopped | ListenerClosed | Closing "nat set" | Stopped

record control_server =
  s_tuners :: "tunerState list"
  s_conns :: "nat \<Rightarrow> conn"
  activeConnections :: "nat set"
  s_stop :: stop_phase

definition new_conn :: conn where
  "new_conn = \<lparr>k_phase = NotAccepted, k_open = False, k_buffer = [], k_received = [], k_sent = []\<rparr>"

definition start_server :: "tunerState list \<Rightarrow> control_server" where
  "start_server ts = \<lparr>s_tuners = ts, s_conns = \<lambda>c. new_conn, activeConnections = {}, s_stop = NotStopped\<rparr>"

definition with_conn :: "nat \<Rightarrow> (conn \<Rightarrow> conn) \<Rightarrow> control_server \<Rightarrow> control_server" where
  "with_conn c f s = s\<lparr>s_conns := (s_conns s)(c := f (s_conns s c))\<rparr>"

text \<open>Whether \<open>activeConnectionsMu\<close> is free between two steps: only \<open>stop\<close> holds it for longer.\<close>

definition mutex_free :: "control_server \<Rightarrow> bool" where
  "mutex_free s = (case s_stop s of Closing R \<Rightarrow> False | _ \<Rightarrow> True)"

text \<open>The request a frame carries, if it is an intact request.\<close>

definition frame_request :: "hdhomerunFrame \<Rightarrow> controlRequest option" where
  "frame_request f =
     (if \<not> valid f \<or> frameType f \<noteq> hdhomerunTypeGetSetRequest then None
      else the (parseGetSetRequest (payload f)))"

subsection \<open>Steps\<close>

datatype action =
    Accept nat | Register nat | Read nat "byte list" | ReadFails nat
  | Skip nat | Serve nat controlRequest | Write nat | WriteFails nat
  | OnClose nat | CloseConn nat | CloseListener | LockActive | CloseActive nat | StopReturns

text \<open>
  The handler goes back to \<open>Read\<close> when its buffer holds no complete frame. A read and a
  write can only succeed while the connection is open. \<open>stop\<close> closes the listener, takes the
  mutex, closes the connections it finds one after the other, in the unspecified order of the
  map, while the handlers go on, and gives the mutex back; registering a connection and
  \<open>onClose\<close> wait for the mutex.
\<close>

inductive conn_step :: "config \<Rightarrow> control_server \<Rightarrow> action \<Rightarrow> control_server \<Rightarrow> bool" for cfg where
  accept: "s_stop s = NotStopped \<Longrightarrow> k_phase (s_conns s c) = NotAccepted \<Longrightarrow>
    conn_step cfg s (Accept c) (with_conn c (\<lambda>k. k\<lparr>k_phase := JustAccepted, k_open := True\<rparr>) s)"
| register: "k_phase (s_conns s c) = JustAccepted \<Longrightarrow> mutex_free s \<Longrightarrow>
    conn_step cfg s (Register c)
      (with_conn c (\<lambda>k. k\<lparr>k_phase := Handling\<rparr>) (s\<lparr>activeConnections := insert c (activeConnections s)\<rparr>))"
| read: "k_phase (s_conns s c) = Handling \<Longrightarrow> control_unit (k_buffer (s_conns s c)) = None \<Longrightarrow>
    k_open (s_conns s c) \<Longrightarrow>
    conn_step cfg s (Read c chunk)
      (with_conn c (\<lambda>k. k\<lparr>k_buffer := k_buffer k @ chunk, k_received := k_received k @ chunk\<rparr>) s)"
| read_fails: "k_phase (s_conns s c) = Handling \<Longrightarrow> control_unit (k_buffer (s_conns s c)) = None \<Longrightarrow>
    conn_step cfg s (ReadFails c) (with_conn c (\<lambda>k. k\<lparr>k_phase := Returning\<rparr>) s)"
| skip: "k_phase (s_conns s c) = Handling \<Longrightarrow> control_unit (k_buffer (s_conns s c)) = Some (f, n) \<Longrightarrow>
    frame_request f = None \<Longrightarrow>
    conn_step cfg s (Skip c) (with_conn c (\<lambda>k. k\<lparr>k_buffer := drop n (k_buffer k)\<rparr>) s)"
| serve: "k_phase (s_conns s c) = Handling \<Longrightarrow> control_unit (k_buffer (s_conns s c)) = Some (f, n) \<Longrightarrow>
    frame_request f = Some r \<Longrightarrow> handleControlRequest cfg (s_tuners s) (Some r) = (ts, reply) \<Longrightarrow>
    conn_step cfg s (Serve c r)
      (with_conn c (\<lambda>k. k\<lparr>k_buffer := drop n (k_buffer k), k_phase := Writing reply\<rparr>) (s\<lparr>s_tuners := ts\<rparr>))"
| write_ok: "k_phase (s_conns s c) = Writing reply \<Longrightarrow> k_open (s_conns s c) \<Longrightarrow>
    conn_step cfg s (Write c) (with_conn c (\<lambda>k. k\<lparr>k_phase := Handling, k_sent := k_sent k @ [reply]\<rparr>) s)"
| write_fails: "k_phase (s_conns s c) = Writing reply \<Longrightarrow>
    conn_step cfg s (WriteFails c) (with_conn c (\<lambda>k. k\<lparr>k_phase := Returning\<rparr>) s)"
| on_close: "k_phase (s_conns s c) = Returning \<Longrightarrow> mutex_free s \<Longrightarrow>
    conn_step cfg s (OnClose c)
      (with_conn c (\<lambda>k. k\<lparr>k_phase := Unregistered\<rparr>) (s\<lparr>activeConnections := activeConnections s - {c}\<rparr>))"
| close_conn: "k_phase (s_conns s c) = Unregistered \<Longrightarrow>
    conn_step cfg s (CloseConn c) (with_conn c (\<lambda>k. k\<lparr>k_phase := Finished, k_open := False\<rparr>) s)"
| close_listener: "s_stop s = NotStopped \<Longrightarrow>
    conn_step cfg s CloseListener (s\<lparr>s_stop := ListenerClosed\<rparr>)"
| lock_active: "s_stop s = ListenerClosed \<Longrightarrow>
    conn_step cfg s LockActive (s\<lparr>s_stop := Closing (activeConnections s)\<rparr>)"
| close_active: "s_stop s = Closing R \<Longrightarrow> c \<in> R \<Longrightarrow>
    conn_step cfg s (CloseActive c)
      (with_conn c (\<lambda>k. k\<lparr>k_open := False\<rparr>) (s\<lparr>s_stop := Closing (R - {c})\<rparr>))"
| stop_returns: "s_stop s = Closing {} \<Longrightarrow>
    conn_step cfg s StopReturns (s\<lparr>s_stop := Stopped\<rparr>)"

text \<open>The states a started server can get to, with the requests served, in order.\<close>

definition served :: "action \<Rightarrow> (nat \<times> controlRequest) list" where
  "served a = (case a of Serve c r \<Rightarrow> [(c, r)] | _ \<Rightarrow> [])"

inductive server_run :: "config \<Rightarrow> control_server \<Rightarrow> (nat \<times> controlRequest) list \<Rightarrow> control_server \<Rightarrow> bool"
  for cfg s0 where
  start: "server_run cfg s0 [] s0"
| move: "server_run cfg s0 log s \<Longrightarrow> conn_step cfg s a s' \<Longrightarrow> server_run cfg s0 (log @ served a) s'"

interpretation cs: step_system "conn_step cfg" "server_run cfg"
proof
  fix s ls t and I :: "control_server \<Rightarrow> bool"
  assume "server_run cfg s ls t" and "I s" and "\<And>u a v. conn_step cfg u a v \<Longrightarrow> I u \<Longrightarrow> I v"
  then show "I t" by (induction rule: server_run.induct) auto
qed

lemma with_conn_simps [simp]:
  "s_conns (with_conn c f s) d = (if d = c then f (s_conns s c) else s_conns s d)"
  "s_tuners (with_conn c f s) = s_tuners s"
  "activeConnections (with_conn c f s) = activeConnections s"
  "s_stop (with_conn c f s) = s_stop s"
  by (simp_all add: with_conn_def)

lemma control_unit_Nil: "control_unit [] = None"
  using cc.unit_bounds by (cases "control_unit []") fastforce+

subsection \<open>The requests of a byte stream\<close>

function stream_requests :: "byte list \<Rightarrow> controlRequest list" where
  "stream_requests b =
     (case control_unit b of
        None \<Rightarrow> []
      | Some (f, n) \<Rightarrow>
          (case frame_request f of None \<Rightarrow> [] | Some r \<Rightarrow> [r]) @ stream_requests (drop n b))"
  by pat_completeness auto
termination
  by (relation "measure length") (auto dest!: cc.unit_bounds)

declare stream_requests.simps [simp del]

lemma stream_requests_take:
  "control_unit b = Some (f, n) \<Longrightarrow>
   stream_requests (b @ x) =
     (case frame_request f of None \<Rightarrow> [] | Some r \<Rightarrow> [r]) @ stream_requests (drop n b @ x)"
  using cc.unit_bounds cc.unit_stable [of b f n x]
  by (subst stream_requests.simps) (auto simp: drop_append)

subsection \<open>Requests take effect one at a time\<close>

definition requests_of :: "nat \<Rightarrow> (nat \<times> controlRequest) list \<Rightarrow> controlRequest list" where
  "requests_of c log = map snd (filter (\<lambda>e. fst e = c) log)"

definition replies_of ::
  "config \<Rightarrow> tunerState list \<Rightarrow> nat \<Rightarrow> (nat \<times> controlRequest) list \<Rightarrow> byte list list" where
  "replies_of cfg ts c log =
     map snd (filter (\<lambda>e. fst (fst e) = c) (zip log (snd (serve cfg ts (map snd log)))))"

lemma serve_snoc:
  "serve cfg ts (rs @ [r]) =
     (let (ts', replies) = serve cfg ts rs; (ts'', reply) = handleControlRequest cfg ts' (Some r)
      in (ts'', replies @ [reply]))"
  by (induction rs arbitrary: ts) (auto simp: Let_def split: prod.splits)

lemma length_serve [simp]: "length (snd (serve cfg ts rs)) = length rs"
  by (induction rs arbitrary: ts) (simp_all add: Let_def case_prod_beta)

lemma requests_of_snoc:
  "requests_of c (log @ [(d, r)]) = requests_of c log @ (if d = c then [r] else [])"
  by (simp add: requests_of_def)

lemma replies_of_snoc:
  assumes "handleControlRequest cfg (fst (serve cfg ts (map snd log))) (Some r) = (ts', reply)"
  shows "replies_of cfg ts c (log @ [(d, r)]) = replies_of cfg ts c log @ (if d = c then [reply] else [])"
proof -
  obtain us rs where e: "serve cfg ts (map snd log) = (us, rs)" by fastforce
  then have "length rs = length log" using length_serve [of cfg ts "map snd log"] by simp
  with assms e show ?thesis by (simp add: replies_of_def serve_snoc)
qed

text \<open>The replies a connection has sent, against all the replies it is due.\<close>

definition answered :: "conn \<Rightarrow> byte list list \<Rightarrow> bool" where
  "answered k rs =
     (case k_phase k of
        Writing reply \<Rightarrow> rs = k_sent k @ [reply]
      | Returning \<Rightarrow> rs = k_sent k \<or> (\<exists>r. rs = k_sent k @ [r])
      | Unregistered \<Rightarrow> rs = k_sent k \<or> (\<exists>r. rs = k_sent k @ [r])
      | Finished \<Rightarrow> rs = k_sent k \<or> (\<exists>r. rs = k_sent k @ [r])
      | _ \<Rightarrow> rs = k_sent k)"

lemma answered_buffers [simp]:
  "answered (k\<lparr>k_buffer := b\<rparr>) rs = answered k rs"
  "answered (k\<lparr>k_buffer := b, k_received := r\<rparr>) rs = answered k rs"
  by (simp_all add: answered_def split: phase.split)

text \<open>How the changes of phase keep the account.\<close>

lemma answered_phase:
  "k_phase k = NotAccepted \<Longrightarrow> answered (k\<lparr>k_phase := JustAccepted\<rparr>) rs = answered k rs"
  "k_phase k = JustAccepted \<Longrightarrow> answered (k\<lparr>k_phase := Handling\<rparr>) rs = answered k rs"
  "k_phase k = Handling \<Longrightarrow> answered k rs \<Longrightarrow> answered (k\<lparr>k_phase := Returning\<rparr>) rs"
  "k_phase k = Writing r \<Longrightarrow>
    answered (k\<lparr>k_phase := Handling, k_sent := k_sent k @ [r]\<rparr>) rs = answered k rs"
  "k_phase k = Writing r \<Longrightarrow> answered k rs \<Longrightarrow> answered (k\<lparr>k_phase := Returning\<rparr>) rs"
  "k_phase k = Returning \<Longrightarrow> answered (k\<lparr>k_phase := Unregistered\<rparr>) rs = answered k rs"
  "k_phase k = Unregistered \<Longrightarrow> answered (k\<lparr>k_phase := Finished\<rparr>) rs = answered k rs"
  by (simp_all add: answered_def)

definition conn_log_ok :: "conn \<Rightarrow> controlRequest list \<Rightarrow> bool" where
  "conn_log_ok k rs \<longleftrightarrow>
     (\<forall>x. stream_requests (k_received k @ x) = rs @ stream_requests (k_buffer k @ x))"

lemma conn_log_ok_updates [simp]:
  "conn_log_ok (k_phase_update f k) = conn_log_ok k"
  "conn_log_ok (k_open_update g k) = conn_log_ok k"
  "conn_log_ok (k_sent_update h k) = conn_log_ok k"
  by (simp_all add: conn_log_ok_def fun_eq_iff)

lemma answered_open [simp]: "answered (k_open_update g k) rs = answered k rs"
  by (simp add: answered_def split: phase.split)

lemma run_invariant:
  assumes "server_run cfg (start_server ts) log s"
  shows "s_tuners s = fst (serve cfg ts (map snd log)) \<and>
    (\<forall>c. conn_log_ok (s_conns s c) (requests_of c log) \<and>
         answered (s_conns s c) (replies_of cfg ts c log))"
  using assms
proof (induction rule: server_run.induct)
  case start
  then show ?case
    by (simp add: start_server_def new_conn_def conn_log_ok_def requests_of_def replies_of_def answered_def)
next
  case (move log s a s')
  note IH = move.IH
  show ?case
    using move.hyps(2)
  proof cases
    case (skip c f n)
    then have "conn_log_ok ((s_conns s c)\<lparr>k_buffer := drop n (k_buffer (s_conns s c))\<rparr>) (requests_of c log)"
      using IH stream_requests_take [OF skip(4)] by (simp add: conn_log_ok_def)
    with skip IH show ?thesis by (auto simp: served_def)
  next
    case (serve c f n r us reply)
    let ?k = "(s_conns s c)\<lparr>k_buffer := drop n (k_buffer (s_conns s c)), k_phase := Writing reply\<rparr>"
    have h: "handleControlRequest cfg (fst (serve cfg ts (map snd log))) (Some r) = (us, reply)"
      using serve IH by simp
    have "conn_log_ok ?k (requests_of c log @ [r])"
      using serve IH stream_requests_take [OF serve(4)] by (simp add: conn_log_ok_def)
    moreover have "answered ?k (replies_of cfg ts c log @ [reply])"
      using serve IH [THEN conjunct2, THEN spec [of _ c]] by (simp add: answered_def)
    moreover have "us = fst (Tuners.serve cfg ts (map snd (log @ [(c, r)])))"
      using h by (simp add: serve_snoc case_prod_beta)
    ultimately show ?thesis
      using serve IH by (auto simp: served_def requests_of_snoc replies_of_snoc [OF h])
  next
    case (read c chunk)
    with IH show ?thesis by (auto simp: served_def conn_log_ok_def)
  qed (use IH in \<open>auto simp: served_def answered_phase\<close>)
qed

text \<open>
  C3 The tuner registry is linearizable. However the goroutines of any number of connections
  are interleaved, whatever the network does and whenever the server is stopped, there is one
  order of requests such that the registry is what serving them one after the other leaves;
  the requests of each connection in that order are the first requests of the bytes read from
  it, and it has been sent, in order, the replies the sequential run gives those, save at most
  the last one, which it is still writing or failed to write.
\<close>

theorem control_linearizable:
  assumes "server_run cfg (start_server ts) log s"
  shows "s_tuners s = fst (serve cfg ts (map snd log)) \<and>
    (\<forall>c. prefix (requests_of c log) (stream_requests (k_received (s_conns s c))) \<and>
         prefix (k_sent (s_conns s c)) (replies_of cfg ts c log) \<and>
         length (replies_of cfg ts c log) \<le> length (k_sent (s_conns s c)) + 1)"
proof -
  have "prefix (requests_of c log) (stream_requests (k_received (s_conns s c)))"
    if "conn_log_ok (s_conns s c) (requests_of c log)" for c
    using that by (simp add: conn_log_ok_def) (metis append_Nil2 prefixI)
  moreover have "prefix (k_sent k) rs \<and> length rs \<le> length (k_sent k) + 1" if "answered k rs" for k rs
    using that by (auto simp: answered_def split: phase.splits)
  ultimately show ?thesis using run_invariant [OF assms] by blast
qed

subsection \<open>Life cycle of a connection and stop\<close>

definition registered_phase :: "phase \<Rightarrow> bool" where
  "registered_phase p =
     (case p of Handling \<Rightarrow> True | Writing r \<Rightarrow> True | Returning \<Rightarrow> True | _ \<Rightarrow> False)"

definition life_ok :: "control_server \<Rightarrow> bool" where
  "life_ok s \<longleftrightarrow>
     activeConnections s = {c. registered_phase (k_phase (s_conns s c))} \<and>
     (\<forall>c. k_phase (s_conns s c) \<in> {NotAccepted, Finished} \<longrightarrow> \<not> k_open (s_conns s c))"

lemma step_life: "conn_step cfg s a s' \<Longrightarrow> life_ok s \<Longrightarrow> life_ok s'"
  by (induction rule: conn_step.induct)
    (auto simp: life_ok_def registered_phase_def split: if_splits)

lemma run_life:
  assumes "server_run cfg (start_server ts) log s"
  shows "life_ok s"
proof (rule cs.run_keeps [OF _ assms])
  show "life_ok (start_server ts)" by (simp add: life_ok_def start_server_def new_conn_def registered_phase_def)
qed (rule step_life)

text \<open>A connection that has been accepted and closed stays so and sends no more.\<close>

definition shut :: "conn \<Rightarrow> bool" where
  "shut k \<longleftrightarrow> k_phase k \<noteq> NotAccepted \<and> \<not> k_open k"

lemma step_shut:
  "conn_step cfg s a s' \<Longrightarrow> shut (s_conns s c) \<Longrightarrow>
   shut (s_conns s' c) \<and> k_sent (s_conns s' c) = k_sent (s_conns s c) \<and>
   k_received (s_conns s' c) = k_received (s_conns s c)"
  by (induction rule: conn_step.induct) (auto simp: shut_def)

lemma run_shut:
  assumes "server_run cfg s log s'" and "shut (s_conns s c)"
  shows "shut (s_conns s' c) \<and> k_sent (s_conns s' c) = k_sent (s_conns s c) \<and>
    k_received (s_conns s' c) = k_received (s_conns s c)"
proof -
  have "shut (s_conns s' c) \<and> (k_sent (s_conns s' c), k_received (s_conns s' c)) =
      (k_sent (s_conns s c), k_received (s_conns s c))"
    using assms by (rule cs.run_freezes [rotated]) (simp add: step_shut)
  then show ?thesis by simp
qed

subsection \<open>Stop\<close>

text \<open>
  What holds of a connection from the moment \<open>stop\<close> has the mutex: while it is in the set still
  to be closed it stays registered and active; once it is out of the set, it is shut.
\<close>

definition covered :: "nat \<Rightarrow> control_server \<Rightarrow> bool" where
  "covered c s \<longleftrightarrow>
     (case s_stop s of
        Closing R \<Rightarrow> c \<in> R \<and> registered_phase (k_phase (s_conns s c)) \<or> c \<notin> R \<and> shut (s_conns s c)
      | Stopped \<Rightarrow> shut (s_conns s c)
      | _ \<Rightarrow> False)"

lemma registered_shut: "registered_phase (k_phase k) \<Longrightarrow> shut (k\<lparr>k_open := False\<rparr>)"
  by (auto simp: registered_phase_def shut_def)

lemma step_covered: "conn_step cfg s a s' \<Longrightarrow> covered c s \<Longrightarrow> covered c s'"
proof (induction rule: conn_step.induct)
  case (close_active s R d)
  then show ?case using registered_shut [of "s_conns s c"] by (auto simp: covered_def)
qed (auto simp: covered_def mutex_free_def registered_phase_def shut_def split: stop_phase.splits)

lemma run_covered: "server_run cfg s log s' \<Longrightarrow> covered c s \<Longrightarrow> covered c s'"
  by (rule cs.run_keeps [where I = "covered c"]) (auto intro: step_covered)

lemma step_stopping: "conn_step cfg s a s' \<Longrightarrow> s_stop s \<noteq> NotStopped \<Longrightarrow> s_stop s' \<noteq> NotStopped"
  by (induction rule: conn_step.induct) auto

lemma run_not_accepted:
  assumes "server_run cfg s log s'" and "s_stop s \<noteq> NotStopped" and "k_phase (s_conns s c) = NotAccepted"
  shows "s_stop s' \<noteq> NotStopped \<and> k_phase (s_conns s' c) = NotAccepted"
proof (rule cs.run_keeps [OF _ assms(1)])
  fix u a v
  assume step: "conn_step cfg u a v" and u: "s_stop u \<noteq> NotStopped \<and> k_phase (s_conns u c) = NotAccepted"
  then show "s_stop v \<noteq> NotStopped \<and> k_phase (s_conns v c) = NotAccepted"
    using step_stopping [OF step] by cases (auto split: if_splits)
qed (use assms in simp)

lemma server_run_trans: "server_run cfg t log' u \<Longrightarrow> server_run cfg s log t \<Longrightarrow> server_run cfg s (log @ log') u"
  by (induction rule: server_run.induct) (auto simp flip: append_assoc intro: server_run.move)

definition finitely_many :: "control_server \<Rightarrow> bool" where
  "finitely_many s \<longleftrightarrow> finite (activeConnections s) \<and> (\<forall>R. s_stop s = Closing R \<longrightarrow> finite R)"

lemma step_finite: "conn_step cfg s a s' \<Longrightarrow> finitely_many s \<Longrightarrow> finitely_many s'"
  by (induction rule: conn_step.induct) (auto simp: finitely_many_def)

lemma run_finite:
  assumes "server_run cfg (start_server ts) log s"
  shows "finitely_many s"
proof (rule cs.run_keeps [OF _ assms])
  show "finitely_many (start_server ts)" by (simp add: finitely_many_def start_server_def)
qed (rule step_finite)

text \<open>The loop of \<open>stop\<close> can go on by itself until it returns.\<close>

lemma closing_returns:
  "finite R \<Longrightarrow> s_stop s = Closing R \<Longrightarrow> \<exists>t. server_run cfg s [] t \<and> s_stop t = Stopped"
proof (induction arbitrary: s rule: finite_induct)
  case empty
  then show ?case
    using server_run.move [OF server_run.start conn_step.stop_returns [OF empty]]
    by (intro exI [of _ "s\<lparr>s_stop := Stopped\<rparr>"]) (simp add: served_def)
next
  case (insert c R)
  let ?s = "with_conn c (\<lambda>k. k\<lparr>k_open := False\<rparr>) (s\<lparr>s_stop := Closing (insert c R - {c})\<rparr>)"
  have "conn_step cfg s (CloseActive c) ?s" using insert by (intro conn_step.close_active) simp_all
  then have "server_run cfg s ([] @ served (CloseActive c)) ?s" by (rule server_run.move [OF server_run.start])
  moreover have "s_stop ?s = Closing R" using insert by simp
  then obtain t where "server_run cfg ?s [] t" "s_stop t = Stopped" using insert.IH by blast
  ultimately show ?case using server_run_trans [of cfg ?s "[]" t s] by (auto simp: served_def)
qed

lemma stop_can_return:
  assumes "server_run cfg (start_server ts) log s" and "s_stop s \<noteq> NotStopped"
  shows "\<exists>t. server_run cfg s [] t \<and> s_stop t = Stopped"
proof (cases "s_stop s")
  case ListenerClosed
  let ?s = "s\<lparr>s_stop := Closing (activeConnections s)\<rparr>"
  have "server_run cfg s ([] @ served LockActive) ?s"
    by (rule server_run.move [OF server_run.start conn_step.lock_active [OF ListenerClosed]])
  moreover obtain t where "server_run cfg ?s [] t" "s_stop t = Stopped"
    using closing_returns [of "activeConnections s" ?s cfg] run_finite [OF assms(1)]
    by (auto simp: finitely_many_def)
  ultimately show ?thesis using server_run_trans [of cfg ?s "[]" t s] by (auto simp: served_def)
next
  case (Closing R)
  then show ?thesis using closing_returns [of R s cfg] run_finite [OF assms(1)] by (simp add: finitely_many_def)
qed (use assms server_run.start in blast)+

text \<open>
  C17 Stopping ends the connections it finds and admits no new ones. Let \<open>stop\<close> take the mutex
  in a reachable state, and let the goroutines move on in any order, handlers reading,
  serving and writing while \<open>stop\<close> closes one connection after the other. A connection that
  was registered and that the loop has closed, in particular every one of them when \<open>stop\<close>
  has returned, stays closed and from then on neither receives nor is sent another byte; no
  connection is accepted any more; and \<open>stop\<close> is never kept from returning.
\<close>

theorem stop_ends_active:
  assumes "server_run cfg (start_server ts) log s" and "conn_step cfg s LockActive s1"
    and "server_run cfg s1 log' s2" and "server_run cfg s2 log'' s3"
  shows "(\<forall>c. registered_phase (k_phase (s_conns s c)) \<longrightarrow>
      s_stop s2 = Stopped \<or> (\<exists>R. s_stop s2 = Closing R \<and> c \<notin> R) \<longrightarrow>
      \<not> k_open (s_conns s3 c) \<and> k_received (s_conns s3 c) = k_received (s_conns s2 c) \<and>
      k_sent (s_conns s3 c) = k_sent (s_conns s2 c)) \<and>
    (\<forall>c. k_phase (s_conns s c) = NotAccepted \<longrightarrow> k_phase (s_conns s3 c) = NotAccepted) \<and>
    (\<exists>t. server_run cfg s3 [] t \<and> s_stop t = Stopped)"
proof -
  have s1: "s_stop s = ListenerClosed" "s1 = s\<lparr>s_stop := Closing (activeConnections s)\<rparr>"
    using assms(2) by (auto elim: conn_step.cases)
  have active: "activeConnections s = {c. registered_phase (k_phase (s_conns s c))}"
    using run_life [OF assms(1)] by (simp add: life_ok_def)
  have "shut (s_conns s2 c)"
    if "registered_phase (k_phase (s_conns s c))"
      and "s_stop s2 = Stopped \<or> (\<exists>R. s_stop s2 = Closing R \<and> c \<notin> R)" for c
  proof -
    have "covered c s1" using that(1) active by (simp add: s1(2) covered_def)
    from run_covered [OF assms(3) this] that(2) show ?thesis by (auto simp: covered_def)
  qed
  then have ended: "\<forall>c. registered_phase (k_phase (s_conns s c)) \<longrightarrow>
      s_stop s2 = Stopped \<or> (\<exists>R. s_stop s2 = Closing R \<and> c \<notin> R) \<longrightarrow>
      \<not> k_open (s_conns s3 c) \<and> k_received (s_conns s3 c) = k_received (s_conns s2 c) \<and>
      k_sent (s_conns s3 c) = k_sent (s_conns s2 c)"
    using run_shut [OF assms(4)] by (simp add: shut_def)
  have "server_run cfg (start_server ts) (log @ served LockActive) s1"
    using assms(1,2) by (rule server_run.move)
  then have reach: "server_run cfg (start_server ts) (((log @ served LockActive) @ log') @ log'') s3"
    using assms(3,4) by (blast intro: server_run_trans)
  have on: "server_run cfg s1 (log' @ log'') s3" by (rule server_run_trans [OF assms(4,3)])
  have "s_stop s3 \<noteq> NotStopped"
    using on by (rule cs.run_keeps [where I = "\<lambda>u. s_stop u \<noteq> NotStopped", rotated])
      (simp_all add: s1(2) step_stopping)
  with ended stop_can_return [OF reach] run_not_accepted [OF on] show ?thesis by (simp add: s1(2))
qed

text \<open>A run in which \<open>stop\<close> runs between an accept and its registration.\<close>

definition late_conn :: "tunerState list \<Rightarrow> control_server" where
  "late_conn ts = (start_server ts)\<lparr>s_stop := Stopped, activeConnections := {0},
     s_conns := (\<lambda>c. new_conn)(0 := new_conn\<lparr>k_phase := Handling, k_open := True\<rparr>)\<rparr>"

lemma late_run:
  "\<exists>s s1. server_run cfg (start_server ts) [] s \<and> conn_step cfg s LockActive s1 \<and> server_run cfg s1 [] (late_conn ts)"
proof -
  let ?k = "new_conn\<lparr>k_phase := JustAccepted, k_open := True\<rparr>"
  let ?s1 = "(start_server ts)\<lparr>s_conns := (\<lambda>c. new_conn)(0 := ?k)\<rparr>"
  let ?s2 = "?s1\<lparr>s_stop := ListenerClosed\<rparr>" and ?s3 = "?s1\<lparr>s_stop := Closing {}\<rparr>"
    and ?s4 = "?s1\<lparr>s_stop := Stopped\<rparr>"
  have a: "conn_step cfg (start_server ts) (Accept 0) ?s1"
    using conn_step.accept [of "start_server ts" 0 cfg]
    by (simp add: start_server_def new_conn_def with_conn_def)
  have b: "conn_step cfg ?s1 CloseListener ?s2" by (rule conn_step.close_listener) (simp add: start_server_def)
  have "server_run cfg (start_server ts) (([] @ served (Accept 0)) @ served CloseListener) ?s2"
    by (rule server_run.move [OF server_run.move [OF server_run.start a] b])
  then have "server_run cfg (start_server ts) [] ?s2" by (simp add: served_def)
  moreover have "conn_step cfg ?s2 LockActive ?s3"
    using conn_step.lock_active [of ?s2 cfg] by (simp add: start_server_def)
  moreover have "server_run cfg ?s3 [] (late_conn ts)"
  proof -
    have c: "conn_step cfg ?s3 StopReturns ?s4" using conn_step.stop_returns [of ?s3 cfg] by simp
    have d: "conn_step cfg ?s4 (Register 0) (late_conn ts)"
      using conn_step.register [of ?s4 0 cfg]
      by (simp add: start_server_def new_conn_def with_conn_def late_conn_def mutex_free_def)
    have "server_run cfg ?s3 (([] @ served StopReturns) @ served (Register 0)) (late_conn ts)"
      by (rule server_run.move [OF server_run.move [OF server_run.start c] d])
    then show ?thesis by (simp add: served_def)
  qed
  ultimately show ?thesis by blast
qed

text \<open>
  A connection can survive \<open>stop\<close>. There is a run in which a connection has been accepted
  but not yet registered when \<open>stop\<close> takes the mutex; it is registered when \<open>stop\<close> has
  returned and its handler, the server being stopped, goes on reading: whatever arrives
  is received and the connection stays open.
\<close>

theorem connection_survives_stop:
  "\<exists>s s1 s2. server_run cfg (start_server ts) [] s \<and> conn_step cfg s LockActive s1 \<and> server_run cfg s1 [] s2 \<and>
     s_stop s2 = Stopped \<and> k_phase (s_conns s2 0) = Handling \<and> 0 \<in> activeConnections s2 \<and>
     (\<forall>chunk. \<exists>s3. conn_step cfg s2 (Read 0 chunk) s3 \<and> k_open (s_conns s3 0) \<and>
        k_received (s_conns s3 0) = chunk)"
proof -
  obtain s s1 where "server_run cfg (start_server ts) [] s" "conn_step cfg s LockActive s1"
    "server_run cfg s1 [] (late_conn ts)" using late_run by blast
  moreover have "\<exists>s3. conn_step cfg (late_conn ts) (Read 0 chunk) s3 \<and> k_open (s_conns s3 0) \<and>
      k_received (s_conns s3 0) = chunk" for chunk
  proof -
    have "conn_step cfg (late_conn ts) (Read 0 chunk) (with_conn 0
        (\<lambda>k. k\<lparr>k_buffer := k_buffer k @ chunk, k_received := k_received k @ chunk\<rparr>) (late_conn ts))"
      by (intro conn_step.read) (simp_all add: late_conn_def new_conn_def control_unit_Nil)
    then show ?thesis by (intro exI conjI) (assumption, simp_all add: late_conn_def new_conn_def)
  qed
  ultimately show ?thesis
    by (intro exI [of _ s] exI [of _ s1] exI [of _ "late_conn ts"]) (simp add: late_conn_def new_conn_def)
qed

subsection \<open>Examples\<close>

text \<open>A connection that is accepted, sends the frame of a request and is sent its reply.\<close>

definition one_client :: "tunerState list \<Rightarrow> byte list \<Rightarrow> byte list \<Rightarrow> control_server" where
  "one_client ts frame reply = (start_server ts)\<lparr>activeConnections := {0},
     s_conns := (\<lambda>c. new_conn)(0 := \<lparr>k_phase = Handling, k_open = True, k_buffer = [], k_received = frame, k_sent = [reply]\<rparr>)\<rparr>"

lemma one_client_run:
  assumes "sendable r" and h: "handleControlRequest cfg ts (Some r) = (ts', reply)"
  shows "server_run cfg (start_server ts) [(0, r)] (one_client ts' (client_request r) reply)"
proof -
  obtain pl where pl: "client_request r = frame_bytes hdhomerunTypeGetSetRequest pl"
    "length pl < 65536" "parseGetSetRequest pl = Some (Some r)"
    using parse_client_request [OF assms(1)] .
  let ?f = "\<lparr>frameType = hdhomerunTypeGetSetRequest, payload = pl, totalLength = length pl + 8, valid = True\<rparr>"
  have u: "control_unit (client_request r) = Some (?f, length pl + 8)"
    using control_unit_frame [OF pl(2), of hdhomerunTypeGetSetRequest "[]"] pl(1) by simp
  have len: "drop (length pl + 8) (client_request r) = []"
    using cc.unit_bounds [OF u] by (simp add: pl(1) frame_bytes_def Let_def header_bytes_def)
  define st where "st ts0 active k = (start_server ts0)\<lparr>activeConnections := active, s_conns := (\<lambda>c. new_conn)(0 := k)\<rparr>"
    for ts0 :: "tunerState list" and active :: "nat set" and k :: conn
  note simps = st_def start_server_def new_conn_def with_conn_def mutex_free_def
  let ?k = "\<lambda>p b got out. \<lparr>k_phase = p, k_open = True, k_buffer = b, k_received = got, k_sent = out\<rparr>"
  have "conn_step cfg (start_server ts) (Accept 0) (st ts {} (?k JustAccepted [] [] []))"
    using conn_step.accept [of "start_server ts" 0 cfg] by (simp add: simps)
  moreover have "conn_step cfg (st ts {} (?k JustAccepted [] [] [])) (Register 0) (st ts {0} (?k Handling [] [] []))"
    using conn_step.register [of "st ts {} (?k JustAccepted [] [] [])" 0 cfg] by (simp add: simps)
  moreover have "conn_step cfg (st ts {0} (?k Handling [] [] [])) (Read 0 (client_request r))
      (st ts {0} (?k Handling (client_request r) (client_request r) []))"
    using conn_step.read [of "st ts {0} (?k Handling [] [] [])" 0 cfg "client_request r"]
    by (simp add: simps control_unit_Nil)
  moreover have "conn_step cfg (st ts {0} (?k Handling (client_request r) (client_request r) [])) (Serve 0 r)
      (st ts' {0} (?k (Writing reply) [] (client_request r) []))"
    using conn_step.serve [of "st ts {0} (?k Handling (client_request r) (client_request r) [])" 0 ?f "length pl + 8" r cfg ts' reply]
      u len h pl(3) by (simp add: simps frame_request_def)
  moreover have "conn_step cfg (st ts' {0} (?k (Writing reply) [] (client_request r) [])) (Write 0)
      (st ts' {0} (?k Handling [] (client_request r) [reply]))"
    using conn_step.write_ok [of "st ts' {0} (?k (Writing reply) [] (client_request r) [])" 0 reply cfg]
    by (simp add: simps)
  ultimately have "server_run cfg (start_server ts)
      ((((([] @ served (Accept 0)) @ served (Register 0)) @ served (Read 0 (client_request r))) @ served (Serve 0 r)) @
        served (Write 0)) (st ts' {0} (?k Handling [] (client_request r) [reply]))"
    by (blast intro: server_run.start server_run.move)
  then show ?thesis by (simp add: served_def one_client_def st_def)
qed

abbreviation example_request :: controlRequest where
  "example_request \<equiv> \<lparr>reqName = tuner_key 1 ''channel'', reqValue = Some ''8vsb:7''\<rparr>"

lemma example_request_sendable: "sendable example_request"
proof -
  have "itoa (int 1) = ''1''" by code_simp
  then show ?thesis by (simp add: sendable_def c_string_def tuner_key_def)
qed

lemma example_request_served:
  "\<exists>ts. handleControlRequest example_config (replicate 2 createInitialTunerState) (Some example_request) =
     (ts, buildGetSetReply (tuner_key 1 ''channel'') ''8vsb:7'') \<and> tuner_vars (ts ! 1) ''channel'' = Some ''8vsb:7''"
proof -
  have "''channel'' \<in> writable" by (simp add: writable_def)
  then obtain s where "handleControlRequest example_config (replicate 2 createInitialTunerState) (Some example_request) =
      ((replicate 2 createInitialTunerState)[1 := s], buildGetSetReply (tuner_key 1 ''channel'') ''8vsb:7'')"
    "tuner_vars s = (tuner_vars createInitialTunerState)(''channel'' := Some ''8vsb:7'')"
    using handleControlRequest_writable [of 1 "replicate 2 createInitialTunerState" "''channel''" example_config "Some ''8vsb:7''"]
    by (auto simp: written_def max_int_def)
  then show ?thesis by auto
qed

lemma control_linearizable_witness:
  "\<exists>s. server_run example_config (start_server (replicate 2 createInitialTunerState)) [(0, example_request)] s \<and>
     k_received (s_conns s 0) = client_request example_request \<and>
     k_sent (s_conns s 0) = [buildGetSetReply (tuner_key 1 ''channel'') ''8vsb:7''] \<and>
     prefix [example_request] (stream_requests (client_request example_request)) \<and>
     prefix (k_sent (s_conns s 0)) (replies_of example_config (replicate 2 createInitialTunerState) 0 [(0, example_request)]) \<and>
     s_tuners s = fst (serve example_config (replicate 2 createInitialTunerState) [example_request]) \<and>
     tuner_vars (s_tuners s ! 1) ''channel'' = Some ''8vsb:7''"
proof -
  obtain ts where h: "handleControlRequest example_config (replicate 2 createInitialTunerState) (Some example_request) =
     (ts, buildGetSetReply (tuner_key 1 ''channel'') ''8vsb:7'')" "tuner_vars (ts ! 1) ''channel'' = Some ''8vsb:7''"
    using example_request_served by blast
  let ?s = "one_client ts (client_request example_request) (buildGetSetReply (tuner_key 1 ''channel'') ''8vsb:7'')"
  have r: "server_run example_config (start_server (replicate 2 createInitialTunerState)) [(0, example_request)] ?s"
    by (rule one_client_run [OF example_request_sendable h(1)])
  have s: "k_received (s_conns ?s 0) = client_request example_request"
    "k_sent (s_conns ?s 0) = [buildGetSetReply (tuner_key 1 ''channel'') ''8vsb:7'']" "s_tuners ?s = ts"
    by (simp_all only: one_client_def start_server_def control_server.simps conn.simps fun_upd_same)
  note lin = control_linearizable [OF r]
  have "requests_of 0 [(0, example_request)] = [example_request]" by (simp add: requests_of_def)
  with lin [THEN conjunct2, THEN spec, of 0] s
  have "prefix [example_request] (stream_requests (client_request example_request))"
    "prefix (k_sent (s_conns ?s 0)) (replies_of example_config (replicate 2 createInitialTunerState) 0 [(0, example_request)])"
    by simp_all
  moreover have "s_tuners ?s = fst (serve example_config (replicate 2 createInitialTunerState) [example_request])"
    using lin by (simp only: list.map snd_conv)
  moreover have "tuner_vars (s_tuners ?s ! 1) ''channel'' = Some ''8vsb:7''" using h(2) s(3) by simp
  ultimately show ?thesis using r s(1,2) by blast
qed

text \<open>The same client, connected when the server is stopped.\<close>

lemma stop_ends_active_witness:
  "\<exists>s s1 s2. server_run example_config (start_server (replicate 2 createInitialTunerState)) [(0, example_request)] s \<and>
     conn_step example_config s LockActive s1 \<and> server_run example_config s1 [] s2 \<and> s_stop s2 = Stopped \<and>
     registered_phase (k_phase (s_conns s 0)) \<and> k_open (s_conns s 0) \<and> k_open (s_conns s1 0) \<and>
     \<not> k_open (s_conns s2 0)"
proof -
  obtain ts where h: "handleControlRequest example_config (replicate 2 createInitialTunerState) (Some example_request) =
     (ts, buildGetSetReply (tuner_key 1 ''channel'') ''8vsb:7'')"
    using example_request_served by blast
  let ?run = "one_client ts (client_request example_request) (buildGetSetReply (tuner_key 1 ''channel'') ''8vsb:7'')"
  let ?s = "?run\<lparr>s_stop := ListenerClosed\<rparr>"
  let ?s1 = "?run\<lparr>s_stop := Closing {0}\<rparr>"
  have "s_stop ?run = NotStopped" by (simp add: one_client_def start_server_def)
  then have "conn_step example_config ?run CloseListener ?s" by (rule conn_step.close_listener)
  then have s: "server_run example_config (start_server (replicate 2 createInitialTunerState)) [(0, example_request)] ?s"
    using server_run.move [OF one_client_run [OF example_request_sendable h]] by (fastforce simp: served_def)
  have lock: "conn_step example_config ?s LockActive ?s1"
    using conn_step.lock_active [of ?s example_config] by (simp add: one_client_def)
  obtain s2 where s2: "server_run example_config ?s1 [] s2" "s_stop s2 = Stopped"
    using closing_returns [of "{0}" ?s1 example_config] by auto
  have "registered_phase (k_phase (s_conns ?s 0))" "k_open (s_conns ?s 0)" "k_open (s_conns ?s1 0)"
    by (simp_all add: one_client_def registered_phase_def)
  with stop_ends_active [OF s lock s2(1) server_run.start] s lock s2 show ?thesis by blast
qed

end
