(* ===== verification/Go_Net.thy ===== *)
theory Go_Net
  imports Go_Strings
begin

text \<open>
  IP addresses of the standard package \<open>net\<close>: \<open>ParseIP\<close> (dotted decimal and the text forms
  of IPv6; zones are rejected), \<open>To4\<close>, \<open>Equal\<close> and the text of an IPv4 address. An address is
  its bytes, sixteen as \<open>ParseIP\<close> gives them or four.
\<close>

type_synonym ip = "nat list"

definition v4_prefix :: ip where
  "v4_prefix = replicate 10 0 @ [255, 255]"

subsection \<open>Dotted decimal\<close>

text \<open>One field: digits without a leading zero, at most 255.\<close>

definition v4_field :: "string \<Rightarrow> nat option" where
  "v4_field f =
     (if f \<noteq> [] \<and> list_all is_digit f \<and> (hd f = CHR ''0'' \<longrightarrow> length f = 1) \<and> decimal f \<le> 255
      then Some (decimal f) else None)"

definition parse_v4_fields :: "string \<Rightarrow> ip option" where
  "parse_v4_fields s =
     (let fs = map v4_field (split_on ''.'' s)
      in if length fs = 4 \<and> list_all (\<lambda>f. f \<noteq> None) fs then Some (map the fs) else None)"

subsection \<open>IPv6\<close>

definition is_hex_digit :: "char \<Rightarrow> bool" where
  "is_hex_digit c \<longleftrightarrow> is_digit c \<or> (65 \<le> code c \<and> code c \<le> 70) \<or> (97 \<le> code c \<and> code c \<le> 102)"

definition hex_digit_val :: "char \<Rightarrow> nat" where
  "hex_digit_val c = (if is_digit c then code c - 48 else if code c \<le> 70 then code c - 55 else code c - 87)"

definition hex_number :: "string \<Rightarrow> nat" where
  "hex_number s = foldl (\<lambda>n c. 16 * n + hex_digit_val c) 0 s"

text \<open>
  The loop of \<open>parseIPv6\<close>: the groups left (two bytes each, eight at most), the bytes read,
  the position of the ellipsis in them, and the rest of the text. The result is the bytes,
  the ellipsis and the text left when the loop ends.
\<close>

fun v6_groups :: "nat \<Rightarrow> ip \<Rightarrow> nat option \<Rightarrow> string \<Rightarrow> (ip \<times> nat option \<times> string) option" where
  "v6_groups 0 bs ellipsis s = Some (bs, ellipsis, s)"
| "v6_groups (Suc n) bs ellipsis s =
     (let digits = takeWhile is_hex_digit s;
          rest = dropWhile is_hex_digit s
      in if digits = [] \<or> 4 < length digits then None
         else if has_prefix ''.'' rest then
           (if (ellipsis = None \<and> length bs \<noteq> 12) \<or> 12 < length bs then None
            else case parse_v4_fields s of None \<Rightarrow> None | Some q \<Rightarrow> Some (bs @ q, ellipsis, []))
         else
           let v = hex_number digits;
               bs' = bs @ [v div 256, v mod 256]
           in (case rest of
                 [] \<Rightarrow> Some (bs', ellipsis, [])
               | c # r \<Rightarrow>
                   if c \<noteq> CHR '':'' \<or> r = [] then None
                   else if hd r = CHR '':'' then
                     (if ellipsis \<noteq> None then None
                      else if tl r = [] then Some (bs', Some (length bs'), [])
                      else v6_groups n bs' (Some (length bs')) (tl r))
                   else v6_groups n bs' ellipsis r))"

definition v6_expand :: "ip \<Rightarrow> nat option \<Rightarrow> ip option" where
  "v6_expand bs ellipsis =
     (case ellipsis of
        None \<Rightarrow> if length bs < 16 then None else Some bs
      | Some e \<Rightarrow>
          if length bs < 16 then Some (take e bs @ replicate (16 - length bs) 0 @ drop e bs) else None)"

definition parse_v6 :: "string \<Rightarrow> ip option" where
  "parse_v6 s =
     (let leading = has_prefix ''::'' s;
          rest = (if leading then drop 2 s else s)
      in if leading \<and> rest = [] then Some (replicate 16 0)
         else case v6_groups 8 [] (if leading then Some 0 else None) rest of
           None \<Rightarrow> None
         | Some (bs, ellipsis, left) \<Rightarrow> if left \<noteq> [] then None else v6_expand bs ellipsis)"

subsection \<open>ParseIP\<close>

text \<open>The first dot or colon decides; \<open>ParseIP\<close> returns nil for an address with a zone.\<close>

definition ParseIP :: "string \<Rightarrow> ip option" where
  "ParseIP s =
     (case find (\<lambda>c. c = CHR ''.'' \<or> c = CHR '':'' \<or> c = CHR ''%'') s of
        None \<Rightarrow> None
      | Some c \<Rightarrow>
          if c = CHR ''.'' then map_option (\<lambda>q. v4_prefix @ q) (parse_v4_fields s)
          else if c = CHR '':'' \<and> CHR ''%'' \<notin> set s then parse_v6 s
          else None)"

definition To4 :: "ip \<Rightarrow> ip option" where
  "To4 a =
     (if length a = 4 then Some a
      else if length a = 16 \<and> take 12 a = v4_prefix then Some (drop 12 a)
      else None)"

definition v4_string :: "ip \<Rightarrow> string" where
  "v4_string a = join ''.'' (map (\<lambda>b. itoa_nat b) a)"

subsection \<open>Round trip of IPv4 addresses\<close>

lemma itoa_nat_head: "0 < n \<Longrightarrow> hd (itoa_nat n) \<noteq> CHR ''0''"
proof (induction n rule: itoa_nat.induct)
  case (1 n)
  show ?case
  proof (cases "n < 10")
    case True
    with 1(2) show ?thesis
      by (subst itoa_nat.simps) (auto simp: digit_char_def code_inject [symmetric] code_def)
  next
    case False
    with 1 show ?thesis
      by (subst itoa_nat.simps) (simp add: itoa_nat_nonempty hd_append)
  qed
qed

lemma v4_field_itoa: "n \<le> 255 \<Longrightarrow> v4_field (itoa_nat n) = Some n"
proof -
  assume "n \<le> 255"
  moreover have "hd (itoa_nat n) = CHR ''0'' \<longrightarrow> length (itoa_nat n) = 1"
  proof (cases "n = 0")
    case True
    then show ?thesis by (subst itoa_nat.simps, subst (2) itoa_nat.simps) simp
  qed (use itoa_nat_head in simp)
  ultimately show ?thesis
    by (simp add: v4_field_def itoa_nat_nonempty itoa_nat_digits decimal_itoa_nat)
qed

lemma no_dot: "list_all is_digit s \<Longrightarrow> CHR ''.'' \<notin> set s"
  by (auto simp: list_all_iff is_digit_def code_def)

lemma parse_v4_string:
  assumes "length a = 4" and "list_all (\<lambda>b. b \<le> 255) a"
  shows "parse_v4_fields (v4_string a) = Some a"
proof -
  obtain w x y z where a: "a = [w, x, y, z]"
    using assms(1) by (auto simp: length_Suc_conv numeral_eq_Suc)
  have "list_all (\<lambda>l. CHR ''.'' \<notin> set l) (map itoa_nat a)"
    using itoa_nat_digits no_dot by (simp add: list_all_iff)
  from split_on_join [OF this] have "split_on ''.'' (v4_string a) = map itoa_nat a"
    by (simp add: v4_string_def a)
  with assms(2) show ?thesis
    by (simp add: parse_v4_fields_def a v4_field_itoa)
qed

lemma find_append: "find P (xs @ ys) = (case find P xs of None \<Rightarrow> find P ys | r \<Rightarrow> r)"
  by (induction xs) auto

lemma ParseIP_v4_string:
  assumes "length a = 4" and "list_all (\<lambda>b. b \<le> 255) a"
  shows "ParseIP (v4_string a) = Some (v4_prefix @ a)"
proof -
  obtain w x y z where a: "a = [w, x, y, z]"
    using assms(1) by (auto simp: length_Suc_conv numeral_eq_Suc)
  let ?P = "\<lambda>c. c = CHR ''.'' \<or> c = CHR '':'' \<or> c = CHR ''%''"
  have "find ?P (itoa_nat w) = None"
    using itoa_nat_digits [of w] by (auto simp: find_None_iff list_all_iff is_digit_def code_def)
  then have "find ?P (v4_string a) = Some (CHR ''.'')"
    by (simp add: v4_string_def a find_append)
  then show ?thesis using parse_v4_string [OF assms] by (simp add: ParseIP_def)
qed

lemma To4_mapped: "length a = 4 \<Longrightarrow> To4 (v4_prefix @ a) = Some a"
  by (simp add: To4_def v4_prefix_def)

end
