(* ===== verification/Discovery_Server.thy ===== *)
theory Discovery_Server
  imports Control Go_Net
begin

text \<open>
  internal/discovery/server.go and types.go: the options and their defaults, the two UDP
  services (SSDP and HDHomeRun discovery) with the loops that answer datagrams, the choice of
  the multicast interface, start-up with its clean-up on every error, and the stop handle. What
  the network and the host do (which sockets can be opened, which writes and closes fail, the
  interfaces of the host) is a parameter; the sockets opened, closed and the datagrams sent
  are a trace.
\<close>

subsection \<open>Options\<close>

record discovery_options =
  BindAddress :: string
  ControlPort :: int
  SSDPPort :: int
  HDHomerunPort :: int
  SSDPMulticastHost :: string
  JoinSSDPMulticast :: "bool option"
  StartControl :: "bool option"
  StartupNotify :: "bool option"

definition defaultPort :: "int \<Rightarrow> int \<Rightarrow> int" where
  "defaultPort d p = (if p = 0 then d else p)"

definition defaultTrue :: "bool option \<Rightarrow> bool option" where
  "defaultTrue b = (if b = None then Some True else b)"

definition applyDiscoveryDefaults :: "discovery_options \<Rightarrow> discovery_options" where
  "applyDiscoveryDefaults opts = opts\<lparr>
     SSDPPort := defaultPort ssdpMulticastPort (SSDPPort opts),
     HDHomerunPort := defaultPort hdhomerunDiscoveryPort (HDHomerunPort opts),
     ControlPort := defaultPort hdhomerunControlTCPPort (ControlPort opts),
     SSDPMulticastHost :=
       (if SSDPMulticastHost opts = [] then ssdpMulticastHost else SSDPMulticastHost opts),
     JoinSSDPMulticast := defaultTrue (JoinSSDPMulticast opts),
     StartControl := defaultTrue (StartControl opts),
     StartupNotify := defaultTrue (StartupNotify opts)\<rparr>"

subsection \<open>Sending\<close>

text \<open>
  The \<open>send\<close> callback: it is given the message, an address in text form and a port, changes
  the world and reports whether it failed.
\<close>

type_synonym message = "byte list \<times> string \<times> int"
type_synonym 'w send = "message \<Rightarrow> 'w \<Rightarrow> 'w \<times> bool"

fun send_each :: "'w send \<Rightarrow> message list \<Rightarrow> 'w \<Rightarrow> 'w \<times> bool" where
  "send_each send [] w = (w, False)"
| "send_each send (m # ms) w =
     (let (w', failed) = send m w in if failed then (w', True) else send_each send ms w')"

definition sendStartupNotify :: "config \<Rightarrow> string \<Rightarrow> 'w send \<Rightarrow> 'w \<Rightarrow> 'w \<times> bool" where
  "sendStartupNotify cfg host send w =
     send_each send (map (\<lambda>p. (to_bytes p, host, ssdpMulticastPort)) (buildSsdpNotifyPackets cfg)) w"

subsection \<open>SSDP searches\<close>

fun search_target_lines :: "unicode \<Rightarrow> string list \<Rightarrow> string" where
  "search_target_lines U [] = []"
| "search_target_lines U (line # lines) =
     (if line = [] then search_target_lines U lines
      else case index_byte CHR '':'' line of
             None \<Rightarrow> search_target_lines U lines
           | Some colon \<Rightarrow>
               if colon = 0 then search_target_lines U lines
               else if trim_space (to_lower U (take colon line)) = ''st''
               then trim_space (drop (colon + 1) line)
               else search_target_lines U lines)"

definition parseSsdpSearchTarget :: "unicode \<Rightarrow> byte list \<Rightarrow> string" where
  "parseSsdpSearchTarget U message =
     (let lines = split_on crlf (of_bytes message)
      in if to_upper U (trim_space (hd lines)) \<noteq> ''M-SEARCH * HTTP/1.1'' then []
         else search_target_lines U (tl lines))"

text \<open>The results are the world, whether the message was a search, and whether a send failed.\<close>

definition handleSsdpMessage ::
  "unicode \<Rightarrow> config \<Rightarrow> byte list \<Rightarrow> string \<Rightarrow> int \<Rightarrow> 'w send \<Rightarrow> 'w \<Rightarrow> 'w \<times> bool \<times> bool" where
  "handleSsdpMessage U cfg message remoteAddress remotePort send w =
     (let searchTarget = parseSsdpSearchTarget U message
      in if searchTarget = [] then (w, False, False)
         else let (w', failed) = send_each send
                    (map (\<lambda>r. (to_bytes r, remoteAddress, remotePort))
                       (buildSsdpSearchResponses cfg searchTarget)) w
              in (w', True, failed))"

subsection \<open>HDHomeRun discovery\<close>

definition handleHdhomerunDiscoveryRequest ::
  "config \<Rightarrow> byte list \<Rightarrow> string \<Rightarrow> int \<Rightarrow> 'w send \<Rightarrow> 'w \<Rightarrow> ('w \<times> bool \<times> bool) go" where
  "handleHdhomerunDiscoveryRequest cfg message remoteAddress remotePort send w = do {
     parsed \<leftarrow> parseHdhomerunDiscoveryRequest message;
     (case parsed of
        None \<Rightarrow> Some (w, False, False)
      | Some request \<Rightarrow>
          if \<not> requestMatchesConfig request cfg then Some (w, False, False)
          else do {
            reply \<leftarrow> buildHdhomerunDiscoveryReply cfg;
            let (w', failed) = send (reply, remoteAddress, remotePort) w;
            Some (w', True, failed)
          })
   }"

subsection \<open>The reader loops\<close>

text \<open>
  A datagram on a socket: its bytes, the address (\<open>None\<close> is a nil address) and the port.
  \<open>WriteToUDP\<close> is given the address parsed back from its text; whether it fails is the
  parameter \<open>net\<close>, given the datagrams of before.
\<close>

type_synonym dgram = "byte list \<times> ip option \<times> int"
type_synonym udp_net = "dgram list \<Rightarrow> dgram \<Rightarrow> bool"

definition write_to_udp :: "udp_net \<Rightarrow> dgram list send" where
  "write_to_udp net = (\<lambda>(bytes, address, port) sent.
     (sent @ [(bytes, ParseIP address, port)], net sent (bytes, ParseIP address, port)))"

text \<open>
  What a reader gets: the datagrams \<open>ReadFromUDP\<close> delivers until it fails, each with the
  four bytes of its sender's address; the buffer holds 4096 bytes of it.
\<close>

type_synonym arrival = "byte list \<times> ip \<times> int"

definition udp_buffer :: nat where "udp_buffer = 4096"

fun ssdp_loop :: "unicode \<Rightarrow> config \<Rightarrow> udp_net \<Rightarrow> arrival list \<Rightarrow> dgram list \<Rightarrow> dgram list" where
  "ssdp_loop U cfg net [] sent = sent"
| "ssdp_loop U cfg net ((bytes, remote, port) # arrivals) sent =
     ssdp_loop U cfg net arrivals
       (fst (handleSsdpMessage U cfg (take udp_buffer bytes) (v4_string remote) port
               (write_to_udp net) sent))"

fun hdhomerun_loop :: "config \<Rightarrow> udp_net \<Rightarrow> arrival list \<Rightarrow> dgram list \<Rightarrow> dgram list go" where
  "hdhomerun_loop cfg net [] sent = Some sent"
| "hdhomerun_loop cfg net ((bytes, remote, port) # arrivals) sent =
     (case handleHdhomerunDiscoveryRequest cfg (take udp_buffer bytes) (v4_string remote) port
             (write_to_udp net) sent of
        None \<Rightarrow> None
      | Some (sent', _) \<Rightarrow> hdhomerun_loop cfg net arrivals sent')"

subsection \<open>The multicast interface\<close>

datatype iface_addr = IPNet ip | OtherAddr

record net_interface =
  if_name :: string
  if_addrs :: "iface_addr list option"

datatype discovery_error =
    BadBindAddress string
  | NotAddress string
  | NotIPv4Address string
  | InterfacesFailed string
  | InterfaceNotFound string
  | ListenFailed string
  | NotifyFailed

definition has_addr :: "ip \<Rightarrow> net_interface \<Rightarrow> bool" where
  "has_addr a iface =
     (case if_addrs iface of
        None \<Rightarrow> False
      | Some addrs \<Rightarrow>
          list_ex (\<lambda>ad. case ad of IPNet n \<Rightarrow> To4 n = Some a | OtherAddr \<Rightarrow> False) addrs)"

definition resolveSsdpMulticastInterface ::
  "string + net_interface list \<Rightarrow> config \<Rightarrow> discovery_options \<Rightarrow> discovery_error + net_interface" where
  "resolveSsdpMulticastInterface interfaces cfg opts =
     (let candidate = (if BindAddress opts = [] then url_hostname (AdvertisedBaseURL cfg)
                       else BindAddress opts)
      in case ParseIP candidate of
           None \<Rightarrow> Inl (NotAddress candidate)
         | Some parsed \<Rightarrow>
             (case To4 parsed of
                None \<Rightarrow> Inl (NotIPv4Address candidate)
              | Some a \<Rightarrow>
                  (case interfaces of
                     Inl e \<Rightarrow> Inl (InterfacesFailed e)
                   | Inr ifaces \<Rightarrow>
                       (case find (has_addr a) ifaces of
                          None \<Rightarrow> Inl (InterfaceNotFound candidate)
                        | Some i \<Rightarrow> Inr i))))"

definition parseBindIP :: "string \<Rightarrow> discovery_error + ip option" where
  "parseBindIP bindAddress =
     (if bindAddress = [] then Inr None
      else case ParseIP bindAddress of
             None \<Rightarrow> Inl (BadBindAddress bindAddress)
           | Some a \<Rightarrow> Inr (Some a))"

subsection \<open>The host\<close>

datatype socket = SsdpSocket | HdhomerunSocket | ControlListener | ControlConn nat

datatype net_event = Opened socket "ip option" int | Closed socket | Sent dgram

text \<open>
  What the host answers: its interfaces, the error of opening each kind of socket, of closing
  a socket and of writing a datagram; \<open>h_active\<close> are the control connections registered when
  the control server is stopped.
\<close>

record host =
  h_interfaces :: "string + net_interface list"
  h_multicast :: "net_interface \<Rightarrow> ip option \<Rightarrow> int \<Rightarrow> string option"
  h_udp :: "net_event list \<Rightarrow> ip option \<Rightarrow> int \<Rightarrow> string option"
  h_tcp :: "ip option \<Rightarrow> int \<Rightarrow> string option"
  h_close :: "socket \<Rightarrow> string option"
  h_write :: "dgram \<Rightarrow> bool"
  h_active :: "nat list"

text \<open>The stop handle of types.go: its \<open>sync.Once\<close> and the error it keeps.\<close>

record stop_handle =
  h_once :: bool
  h_err :: "string option"

definition newStopHandle :: stop_handle where
  "newStopHandle = \<lparr>h_once = False, h_err = None\<rparr>"

text \<open>\<open>Stop\<close> for a handle that may be nil, with a stop function that may be nil.\<close>

definition Stop ::
  "('w \<Rightarrow> 'w \<times> string option) option \<Rightarrow> stop_handle option \<Rightarrow> 'w \<Rightarrow>
   (stop_handle option \<times> 'w) \<times> string option" where
  "Stop stop h w =
     (case h of
        None \<Rightarrow> ((None, w), None)
      | Some s \<Rightarrow>
          if h_once s then ((h, w), h_err s)
          else case stop of
                 None \<Rightarrow> ((Some (s\<lparr>h_once := True\<rparr>), w), h_err s)
               | Some f \<Rightarrow> (let (w', e) = f w in ((Some \<lparr>h_once = True, h_err = e\<rparr>, w'), e)))"

record world =
  w_trace :: "net_event list"
  control_once :: bool
  control_handle :: "stop_handle option"
  server_once :: bool

definition fresh_world :: world where
  "fresh_world = \<lparr>w_trace = [], control_once = False, control_handle = None, server_once = False\<rparr>"

definition emit :: "net_event list \<Rightarrow> world \<Rightarrow> world" where
  "emit es w = w\<lparr>w_trace := w_trace w @ es\<rparr>"

definition first_error :: "string option \<Rightarrow> string option \<Rightarrow> string option" where
  "first_error e e' = (if e = None then e' else e)"

definition close_all :: "host \<Rightarrow> socket list \<Rightarrow> world \<Rightarrow> world \<times> string option" where
  "close_all h socks w = (emit (map Closed socks) w, foldl first_error None (map (h_close h) socks))"

subsection \<open>The control server's listener\<close>

text \<open>The closure \<open>stop\<close> of the control server: the listener, then the registered connections.\<close>

definition control_stop :: "host \<Rightarrow> world \<Rightarrow> world \<times> string option" where
  "control_stop h w =
     (if control_once w then (w, None)
      else close_all h (ControlListener # map ControlConn (h_active h)) (w\<lparr>control_once := True\<rparr>))"

definition StartHdhomerunControlServer ::
  "host \<Rightarrow> config \<Rightarrow> string \<Rightarrow> int \<Rightarrow> world \<Rightarrow> ((discovery_error + tunerState list) \<times> world) go" where
  "StartHdhomerunControlServer h cfg bindAddress port w =
     (let port = defaultPort hdhomerunControlTCPPort port
      in case parseBindIP bindAddress of
           Inl e \<Rightarrow> Some (Inl e, w)
         | Inr a \<Rightarrow>
             (case h_tcp h a port of
                Some e \<Rightarrow> Some (Inl (ListenFailed e), w)
              | None \<Rightarrow> do {
                  tuners \<leftarrow> newTunerRegistry (TunerCount cfg);
                  Some (Inr tuners, (emit [Opened ControlListener a port] w)
                          \<lparr>control_handle := Some newStopHandle, control_once := False\<rparr>)
                }))"

subsection \<open>The discovery server\<close>

text \<open>The closure \<open>stop\<close>: the control server first, then the two sockets.\<close>

definition server_stop :: "host \<Rightarrow> world \<Rightarrow> world \<times> string option" where
  "server_stop h w =
     (if server_once w then (w, None)
      else let w0 = w\<lparr>server_once := True\<rparr>;
               ((handle, w1), e1) = Stop (Some (control_stop h)) (control_handle w0) w0;
               (w2, e2) = close_all h [HdhomerunSocket] (w1\<lparr>control_handle := handle\<rparr>);
               (w3, e3) = close_all h [SsdpSocket] w2
           in (w3, first_error (first_error e1 e2) e3))"

definition open_ssdp ::
  "host \<Rightarrow> config \<Rightarrow> discovery_options \<Rightarrow> ip option \<Rightarrow> world \<Rightarrow> (discovery_error + world)" where
  "open_ssdp h cfg opts bindIP w =
     (if JoinSSDPMulticast opts = Some True then
        (case resolveSsdpMulticastInterface (h_interfaces h) cfg opts of
           Inl e \<Rightarrow> Inl e
         | Inr ifi \<Rightarrow>
             (case h_multicast h ifi (ParseIP (SSDPMulticastHost opts)) (SSDPPort opts) of
                Some e \<Rightarrow> Inl (ListenFailed e)
              | None \<Rightarrow> Inr (emit [Opened SsdpSocket (ParseIP (SSDPMulticastHost opts)) (SSDPPort opts)] w)))
      else (case h_udp h (w_trace w) bindIP (SSDPPort opts) of
              Some e \<Rightarrow> Inl (ListenFailed e)
            | None \<Rightarrow> Inr (emit [Opened SsdpSocket bindIP (SSDPPort opts)] w)))"

text \<open>The start-up notification writes to the SSDP socket.\<close>

definition trace_write :: "host \<Rightarrow> world send" where
  "trace_write h = (\<lambda>(bytes, address, port) w.
     (emit [Sent (bytes, ParseIP address, port)] w, h_write h (bytes, ParseIP address, port)))"

definition start_notify ::
  "host \<Rightarrow> config \<Rightarrow> discovery_options \<Rightarrow> world \<Rightarrow> (discovery_error + stop_handle) \<times> world" where
  "start_notify h cfg opts w =
     (if StartupNotify opts = Some True then
        (let (w', failed) = sendStartupNotify cfg (SSDPMulticastHost opts) (trace_write h) w
         in if failed then (Inl NotifyFailed, fst (server_stop h w')) else (Inr newStopHandle, w'))
      else (Inr newStopHandle, w))"

definition StartDiscoveryServer ::
  "host \<Rightarrow> config \<Rightarrow> discovery_options \<Rightarrow> world \<Rightarrow> ((discovery_error + stop_handle) \<times> world) go" where
  "StartDiscoveryServer h cfg options w =
     (let opts = applyDiscoveryDefaults options
      in case parseBindIP (BindAddress opts) of
           Inl e \<Rightarrow> Some (Inl e, w)
         | Inr bindIP \<Rightarrow>
             (case open_ssdp h cfg opts bindIP w of
                Inl e \<Rightarrow> Some (Inl e, w)
              | Inr w1 \<Rightarrow>
                  (case h_udp h (w_trace w1) bindIP (HDHomerunPort opts) of
                     Some e \<Rightarrow> Some (Inl (ListenFailed e), emit [Closed SsdpSocket] w1)
                   | None \<Rightarrow>
                       let w2 = emit [Opened HdhomerunSocket bindIP (HDHomerunPort opts)] w1
                       in if StartControl opts = Some True then
                            (case StartHdhomerunControlServer h cfg (BindAddress opts) (ControlPort opts) w2 of
                               None \<Rightarrow> None
                             | Some (Inl e, w3) \<Rightarrow>
                                 Some (Inl e, emit [Closed HdhomerunSocket, Closed SsdpSocket] w3)
                             | Some (Inr tuners, w3) \<Rightarrow> Some (start_notify h cfg opts w3))
                          else Some (start_notify h cfg opts w2))))"

subsection \<open>Replies go back to the sender\<close>

definition ip4 :: "ip \<Rightarrow> bool" where
  "ip4 a \<longleftrightarrow> length a = 4 \<and> list_all (\<lambda>b. b \<le> 255) a"

lemma ParseIP_sender: "ip4 a \<Longrightarrow> ParseIP (v4_string a) = Some (v4_prefix @ a)"
  by (simp add: ip4_def ParseIP_v4_string)

text \<open>What one datagram on each of the two ports is answered with.\<close>

definition ssdp_answers :: "unicode \<Rightarrow> config \<Rightarrow> arrival \<Rightarrow> dgram list" where
  "ssdp_answers U cfg = (\<lambda>(bytes, remote, port).
     map (\<lambda>r. (to_bytes r, Some (v4_prefix @ remote), port))
       (buildSsdpSearchResponses cfg (parseSsdpSearchTarget U (take udp_buffer bytes))))"

definition discovery_answers :: "config \<Rightarrow> arrival \<Rightarrow> dgram list" where
  "discovery_answers cfg = (\<lambda>(bytes, remote, port).
     case the (parseHdhomerunDiscoveryRequest (take udp_buffer bytes)) of
       None \<Rightarrow> []
     | Some request \<Rightarrow>
         if requestMatchesConfig request cfg
         then [(the (buildHdhomerunDiscoveryReply cfg), Some (v4_prefix @ remote), port)] else [])"

lemma ssdp_step:
  assumes "ip4 a"
  shows "fst (handleSsdpMessage U cfg (take udp_buffer m) (v4_string a) p (write_to_udp net) sent) =
    sent @ ssdp_answers U cfg (m, a, p)"
  using ParseIP_sender [OF assms]
  by (auto simp: handleSsdpMessage_def ssdp_answers_def write_to_udp_def buildSsdpSearchResponses_def
      ssdpRootDeviceTarget_def ssdpAllTarget_def Let_def split: prod.splits)

lemma ssdp_loop_answers:
  "list_all (\<lambda>(m, a, p). ip4 a) arrivals \<Longrightarrow>
   ssdp_loop U cfg net arrivals sent = sent @ concat (map (ssdp_answers U cfg) arrivals)"
  by (induction arrivals arbitrary: sent) (auto simp: ssdp_step)

lemma discovery_step:
  assumes "valid_config cfg" and "ip4 a"
  shows "\<exists>r. handleHdhomerunDiscoveryRequest cfg (take udp_buffer m) (v4_string a) p (write_to_udp net) sent =
    Some (sent @ discovery_answers cfg (m, a, p), r)"
proof -
  obtain raw where "hex_decode (DeviceID cfg) = Some raw"
    using device_id_bytes valid_device_id [OF assms(1)] by blast
  then obtain reply where reply: "buildHdhomerunDiscoveryReply cfg = Some reply"
    by (simp add: discovery_reply_frame)
  obtain parsed where "parseHdhomerunDiscoveryRequest (take udp_buffer m) = Some parsed"
    using discovery_request_eq by blast
  then show ?thesis
    using ParseIP_sender [OF assms(2)] reply
    by (cases parsed)
      (auto simp: handleHdhomerunDiscoveryRequest_def discovery_answers_def write_to_udp_def go_eval)
qed

lemma hdhomerun_loop_answers:
  assumes "valid_config cfg"
  shows "list_all (\<lambda>(m, a, p). ip4 a) arrivals \<Longrightarrow>
    hdhomerun_loop cfg net arrivals sent = Some (sent @ concat (map (discovery_answers cfg) arrivals))"
proof (induction arrivals arbitrary: sent)
  case (Cons d arrivals)
  obtain m a p where d: "d = (m, a, p)" by (cases d) auto
  with Cons.prems obtain r where
    "handleHdhomerunDiscoveryRequest cfg (take udp_buffer m) (v4_string a) p (write_to_udp net) sent =
       Some (sent @ discovery_answers cfg (m, a, p), r)"
    using discovery_step [OF assms] by fastforce
  with Cons d show ?case by simp
qed simp

text \<open>
  C18 The discovery services answer every datagram, each to its own sender. For a valid
  configuration and whatever datagrams arrive from IPv4 senders, neither reader loop panics or
  stops early, even when writes fail: a datagram is answered, in order of arrival, by what its
  first 4096 bytes ask for and nothing else, and each answer is addressed to the sender and
  the port the datagram came from.
\<close>

theorem discovery_answers_senders:
  assumes "valid_config cfg" and "list_all (\<lambda>(m, a, p). ip4 a) arrivals"
  shows "ssdp_loop U cfg net arrivals [] = concat (map (ssdp_answers U cfg) arrivals) \<and>
    hdhomerun_loop cfg net arrivals [] = Some (concat (map (discovery_answers cfg) arrivals)) \<and>
    (\<forall>(m, a, p) \<in> set arrivals. \<forall>(bytes, address, port) \<in>
       set (ssdp_answers U cfg (m, a, p)) \<union> set (discovery_answers cfg (m, a, p)).
         Option.bind address To4 = Some a \<and> port = p)"
proof (intro conjI)
  show "ssdp_loop U cfg net arrivals [] = concat (map (ssdp_answers U cfg) arrivals)"
    using ssdp_loop_answers [OF assms(2)] by simp
  show "hdhomerun_loop cfg net arrivals [] = Some (concat (map (discovery_answers cfg) arrivals))"
    using hdhomerun_loop_answers [OF assms] by simp
  have "Option.bind (Some (v4_prefix @ a)) To4 = Some a" if "ip4 a" for a
    using that by (simp add: ip4_def To4_mapped)
  then show "\<forall>(m, a, p) \<in> set arrivals. \<forall>(bytes, address, port) \<in>
       set (ssdp_answers U cfg (m, a, p)) \<union> set (discovery_answers cfg (m, a, p)).
         Option.bind address To4 = Some a \<and> port = p"
    using assms(2)
    by (auto simp: list_all_iff ssdp_answers_def discovery_answers_def split: option.splits if_splits)
qed

subsection \<open>Search messages\<close>

text \<open>A search as a client writes it: the request line, headers, an empty line.\<close>

definition msearch :: "(string \<times> string) list \<Rightarrow> byte list" where
  "msearch headers = to_bytes (join crlf
     (''M-SEARCH * HTTP/1.1'' # map (\<lambda>(k, v). k @ '':'' @ v) headers @ [[], []]))"

definition search_header_ok :: "string \<times> string \<Rightarrow> bool" where
  "search_header_ok = (\<lambda>(k, v). k \<noteq> [] \<and> CHR '':'' \<notin> set k \<and> CHR 0x0D \<notin> set k \<and> CHR 0x0D \<notin> set v)"

lemma search_lines_headers:
  "list_all search_header_ok headers \<Longrightarrow>
   search_target_lines U (map (\<lambda>(k, v). k @ '':'' @ v) headers @ [[], []]) =
     (case find (\<lambda>(k, v). trim_space (to_lower U k) = ''st'') headers of
        None \<Rightarrow> [] | Some (k, v) \<Rightarrow> trim_space v)"
proof (induction headers)
  case (Cons h headers)
  obtain k v where h: "h = (k, v)" by (cases h)
  have "CHR '':'' \<notin> set k \<Longrightarrow> index_byte CHR '':'' (k @ CHR '':'' # v) = Some (length k)"
    by (induction k) auto
  with Cons h show ?case by (simp add: search_header_ok_def)
qed simp

text \<open>
  C19 Which searches are answered. Reading the datagram of an SSDP search gives the trimmed
  value of its first header named \<open>ST\<close>, whatever the case and the blanks around the name; so
  it is answered, by one packet, exactly when that value is the root device or everything.
\<close>

theorem ssdp_search_target:
  assumes "list_all search_header_ok headers"
  shows "parseSsdpSearchTarget U (msearch headers) =
      (case find (\<lambda>(k, v). trim_space (to_lower U k) = ''st'') headers of
         None \<Rightarrow> [] | Some (k, v) \<Rightarrow> trim_space v) \<and>
    buildSsdpSearchResponses cfg (parseSsdpSearchTarget U (msearch headers)) =
      (if \<exists>k v. find (\<lambda>(k, v). trim_space (to_lower U k) = ''st'') headers = Some (k, v) \<and>
                trim_space v \<in> {''upnp:rootdevice'', ''ssdp:all''}
       then [buildSsdpSearchResponsePacket cfg] else [])"
proof -
  let ?lines = "''M-SEARCH * HTTP/1.1'' # map (\<lambda>(k, v). k @ '':'' @ v) headers @ [[], []]"
  have "list_all (\<lambda>l. CHR 0x0D \<notin> set l) ?lines"
    using assms by (auto simp: list_all_iff search_header_ok_def)
  then have "split_on crlf (of_bytes (msearch headers)) = ?lines"
    unfolding msearch_def of_bytes_to_bytes by (rule split_crlf_join) simp
  moreover have "to_upper U (trim_space ''M-SEARCH * HTTP/1.1'') = ''M-SEARCH * HTTP/1.1''"
  proof -
    have "trim_space ''M-SEARCH * HTTP/1.1'' = ''M-SEARCH * HTTP/1.1''" by code_simp
    moreover have "list_all is_ascii ''M-SEARCH * HTTP/1.1''" by code_simp
    moreover have "map upper_char ''M-SEARCH * HTTP/1.1'' = ''M-SEARCH * HTTP/1.1''" by code_simp
    ultimately show ?thesis by (simp only: to_upper_def if_True)
  qed
  ultimately have "parseSsdpSearchTarget U (msearch headers) =
      (case find (\<lambda>(k, v). trim_space (to_lower U k) = ''st'') headers of
         None \<Rightarrow> [] | Some (k, v) \<Rightarrow> trim_space v)"
    using search_lines_headers [OF assms] by (simp add: parseSsdpSearchTarget_def Let_def)
  then show ?thesis
    by (auto simp: buildSsdpSearchResponses_def ssdpRootDeviceTarget_def ssdpAllTarget_def
        split: option.splits)
qed

lemma ssdp_search_target_witness:
  "parseSsdpSearchTarget ascii_only
     (msearch [(''HOST'', '' 239.255.255.250:1900''), (''St'', '' ssdp:all'')]) = ''ssdp:all''"
proof -
  have "list_all search_header_ok [(''HOST'', '' 239.255.255.250:1900''), (''St'', '' ssdp:all'')]"
    by code_simp
  moreover have "(case find (\<lambda>(k, v). trim_space (to_lower ascii_only k) = ''st'')
      [(''HOST'', '' 239.255.255.250:1900''), (''St'', '' ssdp:all'')] of
      None \<Rightarrow> [] | Some (k, v) \<Rightarrow> trim_space v) = ''ssdp:all''" by code_simp
  ultimately show ?thesis
    using ssdp_search_target by metis
qed

subsection \<open>Start-up and stop\<close>

definition opened_sockets :: "net_event list \<Rightarrow> socket list" where
  "opened_sockets es = concat (map (\<lambda>e. case e of Opened s a p \<Rightarrow> [s] | _ \<Rightarrow> []) es)"

definition closed_sockets :: "net_event list \<Rightarrow> socket list" where
  "closed_sockets es = concat (map (\<lambda>e. case e of Closed s \<Rightarrow> [s] | _ \<Rightarrow> []) es)"

lemma opened_simps [simp]:
  "opened_sockets [] = []" "opened_sockets (es @ fs) = opened_sockets es @ opened_sockets fs"
  "opened_sockets (Opened s a p # es) = s # opened_sockets es" "opened_sockets (Closed s # es) = opened_sockets es"
  "opened_sockets (Sent d # es) = opened_sockets es" "opened_sockets (map Closed ss) = []"
  by (simp_all add: opened_sockets_def comp_def)

lemma closed_simps [simp]:
  "closed_sockets [] = []" "closed_sockets (es @ fs) = closed_sockets es @ closed_sockets fs"
  "closed_sockets (Opened s a p # es) = closed_sockets es" "closed_sockets (Closed s # es) = s # closed_sockets es"
  "closed_sockets (Sent d # es) = closed_sockets es" "closed_sockets (map Closed ss) = ss"
  by (simp_all add: closed_sockets_def comp_def)

text \<open>The sockets a running server holds, in the order \<open>stop\<close> closes them.\<close>

definition held :: "host \<Rightarrow> bool \<Rightarrow> socket list" where
  "held h control =
     (if control then ControlListener # map ControlConn (h_active h) else []) @
     [HdhomerunSocket, SsdpSocket]"

definition running :: "bool \<Rightarrow> world \<Rightarrow> bool" where
  "running control w \<longleftrightarrow> \<not> server_once w \<and> \<not> control_once w \<and>
     control_handle w = (if control then Some newStopHandle else None)"

lemma first_error_assoc: "first_error (first_error a b) c = first_error a (first_error b c)"
  by (cases a) (simp_all add: first_error_def)

lemma first_error_None [simp]: "first_error None e = e" "first_error e None = e"
  by (cases e, simp_all add: first_error_def)+

lemma foldl_first_error: "foldl first_error e es = first_error e (foldl first_error None es)"
proof (induction es arbitrary: e)
  case (Cons x es)
  show ?case
    using Cons [of "first_error e x"] Cons [of x] by (simp add: first_error_assoc)
qed simp

lemma server_stop_running:
  assumes "running control w"
  shows "\<exists>w'. server_stop h w = (w', foldl first_error None (map (h_close h) (held h control))) \<and>
    w_trace w' = w_trace w @ map Closed (held h control) \<and> server_once w'"
  using assms
    foldl_first_error [of "foldl first_error None (map (h_close h) (ControlListener # map ControlConn (h_active h)))"
      "map (h_close h) [HdhomerunSocket, SsdpSocket]"]
    foldl_first_error [of "h_close h HdhomerunSocket" "[h_close h SsdpSocket]"]
  by (cases control)
    (auto simp: server_stop_def running_def Stop_def control_stop_def close_all_def held_def emit_def
      newStopHandle_def first_error_def Let_def)

text \<open>Calling \<open>Stop\<close> on the handle of the server, several times.\<close>

fun stop_calls ::
  "host \<Rightarrow> nat \<Rightarrow> stop_handle option \<times> world \<Rightarrow> (stop_handle option \<times> world) \<times> string option list" where
  "stop_calls h 0 s = (s, [])"
| "stop_calls h (Suc n) (hdl, w) =
     (let (s', e) = Stop (Some (server_stop h)) hdl w; (s'', es) = stop_calls h n s' in (s'', e # es))"

lemma stop_calls_done:
  "h_once s \<Longrightarrow> stop_calls h n (Some s, w) = ((Some s, w), replicate n (h_err s))"
  by (induction n) (simp_all add: Stop_def)

lemma stop_calls_running:
  assumes "running control w"
  shows "\<exists>hdl w'. stop_calls h (Suc n) (Some newStopHandle, w) =
      ((hdl, w'), replicate (Suc n) (foldl first_error None (map (h_close h) (held h control)))) \<and>
    w_trace w' = w_trace w @ map Closed (held h control)"
proof -
  let ?e = "foldl first_error None (map (h_close h) (held h control))"
  obtain w' where w': "server_stop h w = (w', ?e)" "w_trace w' = w_trace w @ map Closed (held h control)"
    using server_stop_running [OF assms] by blast
  have "stop_calls h n (Some \<lparr>h_once = True, h_err = ?e\<rparr>, w') =
      ((Some \<lparr>h_once = True, h_err = ?e\<rparr>, w'), replicate n ?e)"
    by (simp add: stop_calls_done)
  with w' show ?thesis by (simp add: Stop_def newStopHandle_def)
qed

lemma notify_trace:
  "\<exists>d. sendStartupNotify cfg a (trace_write h) w = (emit [Sent d] w, h_write h d)"
  by (rule exI [of _ "(to_bytes (buildSsdpNotifyPacket cfg), ParseIP a, ssdpMulticastPort)"]) (simp add: sendStartupNotify_def buildSsdpNotifyPackets_def trace_write_def)

lemma start_notify_spec:
  assumes "running control w" and "start_notify h cfg opts w = (r, w')"
  shows "case r of
      Inl e \<Rightarrow> opened_sockets (w_trace w') = opened_sockets (w_trace w) \<and>
        closed_sockets (w_trace w') = closed_sockets (w_trace w) @ held h control
    | Inr s \<Rightarrow> s = newStopHandle \<and> running control w' \<and> opened_sockets (w_trace w') = opened_sockets (w_trace w) \<and>
        closed_sockets (w_trace w') = closed_sockets (w_trace w)"
proof -
  obtain d where d: "sendStartupNotify cfg (SSDPMulticastHost opts) (trace_write h) w = (emit [Sent d] w, h_write h d)"
    using notify_trace by blast
  have r: "running control (emit [Sent d] w)" using assms(1) by (simp add: running_def emit_def)
  from server_stop_running [OF this, of h] assms d r show ?thesis
    by (auto simp: start_notify_def emit_def split: if_splits)
qed

lemma open_ssdp_Inr: "open_ssdp h cfg opts a w = Inr w' \<Longrightarrow> \<exists>b. w' = emit [Opened SsdpSocket b (SSDPPort opts)] w"
  by (auto simp: open_ssdp_def split: if_splits sum.splits option.splits)

definition starts_control :: "discovery_options \<Rightarrow> bool" where
  "starts_control options \<longleftrightarrow> StartControl options \<noteq> Some False"

lemma starts_control_defaults: "StartControl (applyDiscoveryDefaults o') = Some True \<longleftrightarrow> starts_control o'"
  by (cases "StartControl o'") (auto simp: applyDiscoveryDefaults_def defaultTrue_def starts_control_def)

lemma StartHdhomerunControlServer_Inr:
  "StartHdhomerunControlServer h cfg b p w = Some (Inr ts, w') \<Longrightarrow>
   \<exists>a q. w' = (emit [Opened ControlListener a q] w)\<lparr>control_handle := Some newStopHandle, control_once := False\<rparr>"
  by (auto simp: StartHdhomerunControlServer_def Let_def split: sum.splits option.splits Option.bind_splits)

lemma StartHdhomerunControlServer_Inl:
  "StartHdhomerunControlServer h cfg b p w = Some (Inl e, w') \<Longrightarrow> w' = w"
  by (auto simp: StartHdhomerunControlServer_def Let_def split: sum.splits option.splits Option.bind_splits)

lemma start_outcome:
  assumes "StartDiscoveryServer h cfg options fresh_world = Some (r, w)"
  shows "case r of
      Inl e \<Rightarrow> distinct (opened_sockets (w_trace w)) \<and>
        filter (\<lambda>s. s \<notin> range ControlConn) (closed_sockets (w_trace w)) = rev (opened_sockets (w_trace w))
    | Inr hdl \<Rightarrow> hdl = newStopHandle \<and> running (starts_control options) w \<and> closed_sockets (w_trace w) = [] \<and>
        opened_sockets (w_trace w) = [SsdpSocket, HdhomerunSocket] @
          (if starts_control options then [ControlListener] else [])"
proof -
  let ?o = "applyDiscoveryDefaults options"
  consider (bind) e where "parseBindIP (BindAddress ?o) = Inl e"
    | (ssdp) a e where "parseBindIP (BindAddress ?o) = Inr a" "open_ssdp h cfg ?o a fresh_world = Inl e"
    | (live) a w1 where "parseBindIP (BindAddress ?o) = Inr a" "open_ssdp h cfg ?o a fresh_world = Inr w1"
    by (cases "parseBindIP (BindAddress ?o)") (auto, meson old.sum.exhaust)
  then show ?thesis
  proof cases
    case bind
    with assms show ?thesis by (auto simp: StartDiscoveryServer_def Let_def fresh_world_def)
  next
    case ssdp
    with assms show ?thesis by (auto simp: StartDiscoveryServer_def Let_def fresh_world_def)
  next
    case live
    obtain b where w1: "w1 = emit [Opened SsdpSocket b (SSDPPort ?o)] fresh_world"
      using open_ssdp_Inr [OF live(2)] by blast
    let ?w2 = "emit [Opened HdhomerunSocket a (HDHomerunPort ?o)] w1"
    have r2: "running False ?w2" and t2: "opened_sockets (w_trace ?w2) = [SsdpSocket, HdhomerunSocket]"
        "closed_sockets (w_trace ?w2) = []"
      by (simp_all add: w1 running_def emit_def fresh_world_def)
    show ?thesis
    proof (cases "h_udp h (w_trace w1) a (HDHomerunPort ?o)")
      case (Some e)
      with live assms show ?thesis
        by (auto simp: StartDiscoveryServer_def Let_def w1 emit_def fresh_world_def)
    next
      case None
      show ?thesis
      proof (cases "starts_control options")
        case False
        then have "start_notify h cfg ?o ?w2 = (r, w)"
          using assms live None starts_control_defaults [of options]
          by (simp add: StartDiscoveryServer_def Let_def)
        from start_notify_spec [OF r2 this] t2 False show ?thesis
          by (cases r) (auto simp: held_def)
      next
        case True
        then consider (failed) e w3 where
            "StartHdhomerunControlServer h cfg (BindAddress ?o) (ControlPort ?o) ?w2 = Some (Inl e, w3)"
            "r = Inl e" "w = emit [Closed HdhomerunSocket, Closed SsdpSocket] w3"
          | (up) ts w3 where
            "StartHdhomerunControlServer h cfg (BindAddress ?o) (ControlPort ?o) ?w2 = Some (Inr ts, w3)"
            "start_notify h cfg ?o w3 = (r, w)"
          using assms live None starts_control_defaults [of options]
          by (auto simp: StartDiscoveryServer_def Let_def split: option.splits sum.splits prod.splits)
        then show ?thesis
        proof cases
          case failed
          with StartHdhomerunControlServer_Inl [OF failed(1)] t2 show ?thesis
            by (auto simp: emit_def)
        next
          case up
          obtain c q where w3: "w3 = (emit [Opened ControlListener c q] ?w2)
              \<lparr>control_handle := Some newStopHandle, control_once := False\<rparr>"
            using StartHdhomerunControlServer_Inr [OF up(1)] by blast
          have r3: "running True w3" and t3: "opened_sockets (w_trace w3) = [SsdpSocket, HdhomerunSocket, ControlListener]"
              "closed_sockets (w_trace w3) = []"
            using r2 t2 by (simp_all add: w3 running_def emit_def)
          from start_notify_spec [OF r3 up(2)] t3 True show ?thesis
            by (cases r) (auto simp: held_def filter_map comp_def)
        qed
      qed
    qed
  qed
qed

text \<open>
  C4 A failed start leaves nothing open. Whatever the host answers to each attempt to open
  or write, \<open>StartDiscoveryServer\<close> either returns an error, and then every socket it opened,
  the listener of the control server included, has been closed exactly once; or it returns
  its handle, and then exactly the two UDP sockets and, if asked for, the control listener
  are open and nothing has been closed.
\<close>

theorem startup_cleans_up:
  assumes "StartDiscoveryServer h cfg options fresh_world = Some (r, w)"
  shows "case r of
      Inl e \<Rightarrow> distinct (opened_sockets (w_trace w)) \<and>
        filter (\<lambda>s. s \<notin> range ControlConn) (closed_sockets (w_trace w)) = rev (opened_sockets (w_trace w))
    | Inr hdl \<Rightarrow> hdl = newStopHandle \<and> running (starts_control options) w \<and> closed_sockets (w_trace w) = [] \<and>
        opened_sockets (w_trace w) = [SsdpSocket, HdhomerunSocket] @
          (if starts_control options then [ControlListener] else [])"
  using assms by (rule start_outcome)

text \<open>
  C16 Stopping closes everything once, however often it is called. After a successful start,
  every call of \<open>Stop\<close> returns the same result, the first error of closing, if any, and
  after any number of calls the control listener, its registered connections and the two UDP
  sockets have each been closed exactly once, in this order.
\<close>

theorem stop_closes_once:
  assumes "StartDiscoveryServer h cfg options fresh_world = Some (Inr hdl, w)"
  shows "\<exists>hdl' w'. stop_calls h (Suc n) (Some hdl, w) =
      ((hdl', w'), replicate (Suc n)
         (foldl first_error None (map (h_close h) (held h (starts_control options))))) \<and>
    closed_sockets (w_trace w') = held h (starts_control options) \<and>
    set (opened_sockets (w_trace w')) \<subseteq> set (closed_sockets (w_trace w'))"
proof -
  have up: "hdl = newStopHandle" "running (starts_control options) w" "closed_sockets (w_trace w) = []"
      "set (opened_sockets (w_trace w)) \<subseteq> set (held h (starts_control options))"
    using start_outcome [OF assms] by (auto simp: held_def)
  from stop_calls_running [OF up(2), of h n] up show ?thesis by auto
qed

subsection \<open>Examples\<close>

text \<open>
  A host that opens every socket but one: the control listener, when \<open>h_tcp\<close> is given an
  error; closing the HDHomeRun socket fails.
\<close>

definition example_host :: "string option \<Rightarrow> host" where
  "example_host e =
     \<lparr>h_interfaces = Inr [\<lparr>if_name = ''eth0'', if_addrs = Some [OtherAddr, IPNet [192, 168, 1, 10]]\<rparr>],
      h_multicast = \<lambda>i a p. None, h_udp = \<lambda>t a p. None, h_tcp = \<lambda>a p. e,
      h_close = \<lambda>s. if s = HdhomerunSocket then Some ''closed'' else None,
      h_write = \<lambda>d. False, h_active = [7]\<rparr>"

definition example_options :: discovery_options where
  "example_options =
     \<lparr>BindAddress = ''192.168.1.10'', ControlPort = 0, SSDPPort = 0, HDHomerunPort = 0,
      SSDPMulticastHost = [], JoinSSDPMulticast = None, StartControl = None, StartupNotify = Some False\<rparr>"

lemma example_bind: "ParseIP ''192.168.1.10'' = Some (v4_prefix @ [192, 168, 1, 10])"
  by code_simp

lemma To4_four: "length a = 4 \<Longrightarrow> To4 a = Some a"
  by (simp add: To4_def)

lemma example_ssdp:
  "\<exists>b. open_ssdp (example_host e) example_config (applyDiscoveryDefaults example_options) a fresh_world =
    Inr (emit [Opened SsdpSocket b 1900] fresh_world)"
  by (rule exI [of _ "ParseIP ssdpMulticastHost"])
    (simp add: open_ssdp_def resolveSsdpMulticastInterface_def example_host_def example_options_def
      applyDiscoveryDefaults_def defaultTrue_def example_bind To4_mapped has_addr_def defaultPort_def
      ssdpMulticastPort_def To4_four)

lemma example_tuners: "newTunerRegistry (TunerCount example_config) = Some (replicate 2 createInitialTunerState)"
proof -
  have "TunerCount example_config = 2" by code_simp
  then show ?thesis by (simp add: newTunerRegistry_def)
qed

lemma example_start:
  "\<exists>w. StartDiscoveryServer (example_host None) example_config example_options fresh_world =
     Some (Inr newStopHandle, w)"
  using example_ssdp [of None "Some (v4_prefix @ [192, 168, 1, 10])"]
  by (auto simp: StartDiscoveryServer_def StartHdhomerunControlServer_def start_notify_def parseBindIP_def
      example_host_def example_options_def applyDiscoveryDefaults_def defaultTrue_def example_bind
      example_tuners Let_def)

lemma startup_cleans_up_witness:
  "\<exists>w. StartDiscoveryServer (example_host (Some ''in use'')) example_config example_options fresh_world =
     Some (Inl (ListenFailed ''in use''), w) \<and> distinct (opened_sockets (w_trace w))"
proof -
  obtain w where w: "StartDiscoveryServer (example_host (Some ''in use'')) example_config example_options
      fresh_world = Some (Inl (ListenFailed ''in use''), w)"
    using example_ssdp [of "Some ''in use''" "Some (v4_prefix @ [192, 168, 1, 10])"]
    by (auto simp: StartDiscoveryServer_def StartHdhomerunControlServer_def parseBindIP_def
        example_host_def example_options_def applyDiscoveryDefaults_def defaultTrue_def example_bind Let_def)
  from startup_cleans_up [OF w] w show ?thesis by simp
qed

lemma stop_closes_once_witness:
  "\<exists>w hdl w'. StartDiscoveryServer (example_host None) example_config example_options fresh_world =
     Some (Inr newStopHandle, w) \<and>
   stop_calls (example_host None) 2 (Some newStopHandle, w) = ((hdl, w'), [Some ''closed'', Some ''closed'']) \<and>
   closed_sockets (w_trace w') = [ControlListener, ControlConn 7, HdhomerunSocket, SsdpSocket]"
proof -
  obtain w where w: "StartDiscoveryServer (example_host None) example_config example_options fresh_world =
     Some (Inr newStopHandle, w)" using example_start by blast
  have "starts_control example_options" by (simp add: starts_control_def example_options_def)
  with stop_closes_once [OF w, of 1] w show ?thesis
    by (auto simp: held_def example_host_def first_error_def numeral_eq_Suc)
qed

lemma discovery_answers_senders_witness:
  "\<exists>d. ssdp_loop ascii_only example_config (\<lambda>sent d. True)
     [(msearch [(''ST'', ''ssdp:all'')], [192, 168, 1, 20], 50000)] [] = [d] \<and>
     Option.bind (fst (snd d)) To4 = Some [192, 168, 1, 20]"
proof -
  let ?a = "[(msearch [(''ST'', ''ssdp:all'')], [192, 168, 1, 20], 50000)]"
  have ok: "list_all (\<lambda>(m, a, p). ip4 a) ?a" by (simp add: ip4_def)
  have "take udp_buffer (msearch [(''ST'', ''ssdp:all'')]) = msearch [(''ST'', ''ssdp:all'')]"
    by (simp add: msearch_def to_bytes_def udp_buffer_def crlf_def)
  moreover have "parseSsdpSearchTarget ascii_only (msearch [(''ST'', ''ssdp:all'')]) = ''ssdp:all''"
    unfolding parseSsdpSearchTarget_def msearch_def of_bytes_to_bytes by code_simp
  ultimately show ?thesis
    using discovery_answers_senders [OF example_valid ok, of ascii_only "\<lambda>sent d. True"]
    by (simp add: ssdp_answers_def buildSsdpSearchResponses_def ssdpAllTarget_def)
qed

end
