(* ===== verification/Go_Utf8.thy ===== *)
theory Go_Utf8
  imports Go_Strings
begin

text \<open>
  Facts about \<open>utf8.DecodeRuneInString\<close>: what the bytes of a rune of several bytes are, that
  the rune is not ASCII, and that encoding a decoded rune gives its bytes back.
\<close>

lemma mod_window: "m dvd a \<Longrightarrow> a + l \<le> b \<Longrightarrow> b < a + m \<Longrightarrow> l \<le> b mod m" for a b l m :: nat
proof -
  assume m: "m dvd a" "a + l \<le> b" "b < a + m"
  then obtain q where "a = m * q" by blast
  moreover define k where "k = b - a"
  moreover have "b = a + k" "k < m" "l \<le> k" using m by (simp_all add: k_def)
  ultimately show ?thesis by simp
qed

lemma mod_offset: "m dvd a \<Longrightarrow> a \<le> b \<Longrightarrow> b < a + m \<Longrightarrow> b = a + b mod m" for a b m :: nat
proof -
  assume m: "m dvd a" "a \<le> b" "b < a + m"
  then obtain q where "a = m * q" by blast
  moreover define k where "k = b - a"
  moreover have "b = a + k" "k < m" using m by (simp_all add: k_def)
  ultimately show ?thesis by simp
qed

text \<open>
  A decoded rune of several bytes: the leading byte carries the bits above six per
  continuation byte.
\<close>

lemma wide_shape:
  assumes "decode_rune (c # t) = (r, n)" and "n \<noteq> 1"
  obtains a where "n = 2" "take 1 t = [a]" "0xC2 \<le> code c" "code c \<le> 0xDF"
      "128 \<le> code a" "code a \<le> 191" "r = code c mod 32 * 64 + code a mod 64"
    | a b where "n = 3" "take 2 t = [a, b]" "0xE0 \<le> code c" "code c \<le> 0xEF"
      "(if code c = 0xE0 then 0xA0 else 128) \<le> code a" "code a \<le> (if code c = 0xED then 0x9F else 191)"
      "128 \<le> code b" "code b \<le> 191"
      "r = (code c mod 16 * 64 + code a mod 64) * 64 + code b mod 64"
    | a b d where "n = 4" "take 3 t = [a, b, d]" "0xF0 \<le> code c" "code c \<le> 0xF4"
      "(if code c = 0xF0 then 0x90 else 128) \<le> code a" "code a \<le> (if code c = 0xF4 then 0x8F else 191)"
      "128 \<le> code b" "code b \<le> 191" "128 \<le> code d" "code d \<le> 191"
      "r = ((code c mod 8 * 64 + code a mod 64) * 64 + code b mod 64) * 64 + code d mod 64"
proof -
  have big: "\<not> code c < 128" using assms by (auto simp: decode_rune_def)
  obtain bits lo hi where lead: "lead_byte (code c) = Some (n, bits, lo, hi)"
    and cont: "length (map code (take (n - 1) t)) = n - 1" "lo \<le> map code (take (n - 1) t) ! 0"
      "map code (take (n - 1) t) ! 0 \<le> hi"
      "\<forall>b \<in> set (tl (map code (take (n - 1) t))). 0x80 \<le> b \<and> b \<le> 0xBF"
      "r = foldl (\<lambda>v b. v * 64 + b mod 64) bits (map code (take (n - 1) t))"
    using assms big
    by (auto simp: decode_rune_def Let_def split: if_splits option.splits prod.splits)
  have n: "2 \<le> n" "n \<le> 4" using lead_byte_len [OF lead] by simp_all
  have small: "code c < 256" by (simp add: code_def)
  consider (two) "n = 2" | (three) "n = 3" | (four) "n = 4" using n by linarith
  then show thesis
  proof cases
    case two
    moreover obtain a where a: "take 1 t = [a]" using cont(1) two by (cases t) auto
    moreover have "0xC2 \<le> code c \<and> code c \<le> 0xDF \<and> bits = code c mod 32 \<and> lo = 128 \<and> hi = 191"
      using lead two unfolding lead_byte_def by (simp split: if_split_asm)
    ultimately show thesis using cont by (intro that(1) [of a]) auto
  next
    case three
    moreover obtain a b where "take 2 t = [a, b]"
      using cont(1) three by (cases t; cases "tl t") auto
    moreover have "0xE0 \<le> code c \<and> code c \<le> 0xEF \<and> bits = code c mod 16 \<and>
        lo = (if code c = 0xE0 then 0xA0 else 128) \<and> hi = (if code c = 0xED then 0x9F else 191)"
      using lead three unfolding lead_byte_def by (simp split: if_split_asm)
    ultimately show thesis using cont by (intro that(2) [of a b]) auto
  next
    case four
    moreover obtain a b d where "take 3 t = [a, b, d]"
      using cont(1) four by (cases t; cases "tl t"; cases "tl (tl t)") auto
    moreover have "0xF0 \<le> code c \<and> code c \<le> 0xF4 \<and> bits = code c mod 8 \<and>
        lo = (if code c = 0xF0 then 0x90 else 128) \<and> hi = (if code c = 0xF4 then 0x8F else 191)"
      using lead four unfolding lead_byte_def by (simp split: if_split_asm)
    ultimately show thesis using cont by (intro that(3) [of a b d]) auto
  qed
qed

lemma narrow_rune: "decode_rune (c # s) = (r, 1) \<Longrightarrow> r = code c \<or> r = rune_error"
  by (auto simp: decode_rune_def Let_def dest: lead_byte_len split: if_splits option.splits prod.splits)

lemma cont_offset: "128 \<le> a \<Longrightarrow> a \<le> 191 \<Longrightarrow> a = 128 + a mod 64" for a :: nat
  using mod_offset [of 64 128 a] by simp

lemma digits64: "z < 64 \<Longrightarrow> (k * 64 + z) div 64 = k" "z < 64 \<Longrightarrow> (k * 64 + z) mod 64 = z" for k z :: nat
  by (simp_all only: div_mult_self3 mod_mult_self3) simp_all

lemma two_byte_encode:
  "2 \<le> l \<Longrightarrow> l < 32 \<Longrightarrow> x < 64 \<Longrightarrow>
   128 \<le> l * 64 + x \<and> encode_rune (l * 64 + x) = map char_of [0xC0 + l, 0x80 + x]"
  by (simp add: encode_rune_def Let_def)

lemma three_byte_encode:
  assumes "l < 16" "x < 64" "y < 64" "l = 0 \<Longrightarrow> 32 \<le> x" "l = 13 \<Longrightarrow> x < 32"
  shows "128 \<le> (l * 64 + x) * 64 + y \<and>
    encode_rune ((l * 64 + x) * 64 + y) = map char_of [0xE0 + l, 0x80 + x, 0x80 + y]"
proof -
  define r where "r = (l * 64 + x) * 64 + y"
  have big: "0x800 \<le> r" using assms(4) by (cases "l = 0") (auto simp: r_def)
  have small: "r < 0x10000" using assms(1-3) by (simp add: r_def)
  have no_surrogate: "r < 0xD800 \<or> 0xDFFF < r"
  proof -
    consider "l < 13" | "l = 13" | "13 < l" by linarith
    then show ?thesis using assms(2,3,5) by cases (auto simp: r_def)
  qed
  have parts: "r div 4096 = l" "r div 64 mod 64 = x" "r mod 64 = y"
  proof -
    have "r div 64 = l * 64 + x" "r mod 64 = y" unfolding r_def by (simp_all only: digits64 assms(3))
    moreover have "r div 4096 = r div 64 div 64" by (simp flip: div_mult2_eq)
    ultimately show "r div 4096 = l" "r div 64 mod 64 = x" "r mod 64 = y"
      by (simp_all only: digits64 assms(2))
  qed
  have "128 \<le> r \<and> encode_rune r = map char_of [0xE0 + l, 0x80 + x, 0x80 + y]"
  proof -
    have "\<not> (0x10FFFF < r \<or> (0xD800 \<le> r \<and> r \<le> 0xDFFF))" using small no_surrogate by auto
    then show ?thesis using big small parts by (simp only: encode_rune_def Let_def if_False) simp
  qed
  then show ?thesis unfolding r_def .
qed

lemma four_byte_encode:
  assumes "l < 5" "x < 64" "y < 64" "z < 64" "l = 0 \<Longrightarrow> 16 \<le> x" "l = 4 \<Longrightarrow> x < 16"
  shows "128 \<le> ((l * 64 + x) * 64 + y) * 64 + z \<and>
    encode_rune (((l * 64 + x) * 64 + y) * 64 + z) =
      map char_of [0xF0 + l, 0x80 + x, 0x80 + y, 0x80 + z]"
proof -
  define r where "r = ((l * 64 + x) * 64 + y) * 64 + z"
  have big: "0x10000 \<le> r" using assms(5) by (cases "l = 0") (auto simp: r_def)
  have small: "r \<le> 0x10FFFF"
    using assms(1-4,6) by (cases "l = 4") (auto simp: r_def)
  have "r div 64 = (l * 64 + x) * 64 + y" "r mod 64 = z"
    unfolding r_def by (simp_all only: digits64 assms(4))
  moreover have "r div 4096 = r div 64 div 64" "r div 262144 = r div 64 div 64 div 64"
    by (simp_all flip: div_mult2_eq)
  ultimately have parts: "r div 262144 = l" "r div 4096 mod 64 = x" "r div 64 mod 64 = y" "r mod 64 = z"
    by (simp_all only: digits64 assms(2,3))
  have "128 \<le> r \<and> encode_rune r = map char_of [0xF0 + l, 0x80 + x, 0x80 + y, 0x80 + z]"
    using big small parts by (simp add: encode_rune_def Let_def)
  then show ?thesis unfolding r_def .
qed

text \<open>A rune of more than one byte is not ASCII, none of its bytes is, and it encodes to them.\<close>

lemma wide_rune:
  assumes "decode_rune s = (r, n)" and "n \<noteq> 1" and "s \<noteq> []"
  shows "128 \<le> r \<and> list_all (\<lambda>c. 128 \<le> code c) (take n s) \<and> encode_rune r = take n s"
proof -
  obtain c t where s: "s = c # t" using assms(3) by (cases s) auto
  have ch: "char_of (code x) = x" for x by (simp add: code_def)
  have d: "decode_rune (c # t) = (r, n)" using assms(1) s by simp
  from d assms(2) show ?thesis
  proof (cases rule: wide_shape)
    case (1 a)
    have "code c = 0xC0 + code c mod 32" using 1 mod_offset [of 32 192 "code c"] by simp
    moreover from this 1 have "2 \<le> code c mod 32" by linarith
    moreover note cont_offset [OF 1(5,6)] two_byte_encode [of "code c mod 32" "code a mod 64"]
    ultimately show ?thesis
      using 1 ch [of c] ch [of a] by (simp add: s take_Cons')
  next
    case (2 a b)
    have c: "code c = 0xE0 + code c mod 16" using 2 mod_offset [of 16 224 "code c"] by simp
    have a: "128 \<le> code a" "code a \<le> 191" using 2(5,6) by (auto split: if_splits)
    note x = cont_offset [OF a] cont_offset [OF 2(7,8)]
    have "code c mod 16 = 0 \<Longrightarrow> 32 \<le> code a mod 64" using 2(5) c x(1) by (auto split: if_splits)
    moreover have "code c mod 16 = 13 \<Longrightarrow> code a mod 64 < 32" using 2(6) c x(1) by (auto split: if_splits)
    ultimately have "128 \<le> r \<and> encode_rune r = map char_of [0xE0 + code c mod 16, 0x80 + code a mod 64, 0x80 + code b mod 64]"
      unfolding 2(9) by (intro three_byte_encode) simp_all
    then have "128 \<le> r" "encode_rune r = [c, a, b]"
      using ch [of c] ch [of a] ch [of b] unfolding c [symmetric] x [symmetric] by simp_all
    with 2 a show ?thesis by (simp add: s take_Cons')
  next
    case (3 a b d)
    have c: "code c = 0xF0 + code c mod 8" using 3 mod_offset [of 8 240 "code c"] by simp
    have a: "128 \<le> code a" "code a \<le> 191" using 3(5,6) by (auto split: if_splits)
    note x = cont_offset [OF a] cont_offset [OF 3(7,8)] cont_offset [OF 3(9,10)]
    have "code c mod 8 = 0 \<Longrightarrow> 16 \<le> code a mod 64" using 3(5) c x(1) by (auto split: if_splits)
    moreover have "code c mod 8 = 4 \<Longrightarrow> code a mod 64 < 16" using 3(6) c x(1) by (auto split: if_splits)
    moreover have "code c mod 8 < 5" using 3(4) c by linarith
    ultimately have "128 \<le> r \<and> encode_rune r = map char_of [0xF0 + code c mod 8, 0x80 + code a mod 64,
        0x80 + code b mod 64, 0x80 + code d mod 64]"
      unfolding 3(11) by (intro four_byte_encode) simp_all
    then have "128 \<le> r" "encode_rune r = [c, a, b, d]"
      using ch [of c] ch [of a] ch [of b] ch [of d] unfolding c [symmetric] x [symmetric] by simp_all
    with 3 a show ?thesis by (simp add: s take_Cons')
  qed
qed

end
