(* ===== verification/Device_Xml.thy ===== *)
theory Device_Xml
  imports Hdhr Go_Utf8
begin

text \<open>
  BuildDeviceXML of internal/hdhr/device.go, with the part of \<open>encoding/xml\<close> it uses: the
  escaping of character data and the layout of \<open>MarshalIndent\<close>. A reader of elements, the
  specification, gets back what was put in.
\<close>

subsection \<open>EscapeText\<close>

definition in_character_range :: "nat \<Rightarrow> bool" where
  "in_character_range r \<longleftrightarrow> r = 9 \<or> r = 10 \<or> r = 13 \<or> (0x20 \<le> r \<and> r \<le> 0xD7FF) \<or>
     (0xE000 \<le> r \<and> r \<le> 0xFFFD) \<or> (0x10000 \<le> r \<and> r \<le> 0x10FFFF)"

text \<open>What is written for a rune of width \<open>n\<close> whose bytes are \<open>bs\<close>.\<close>

definition xml_rune :: "nat \<Rightarrow> nat \<Rightarrow> string \<Rightarrow> string" where
  "xml_rune r n bs =
     (if r = 34 then ''&#34;'' else if r = 39 then ''&#39;'' else if r = 38 then ''&amp;''
      else if r = 60 then ''&lt;'' else if r = 62 then ''&gt;'' else if r = 9 then ''&#x9;''
      else if r = 10 then ''&#xA;'' else if r = 13 then ''&#xD;''
      else if \<not> in_character_range r \<or> (r = rune_error \<and> n = 1) then encode_rune rune_error
      else bs)"

function xml_escape :: "string \<Rightarrow> string" where
  "xml_escape s =
     (if s = [] then []
      else let (r, n) = decode_rune s in xml_rune r n (take n s) @ xml_escape (drop n s))"
  by pat_completeness auto
termination
proof (relation "measure length")
  fix s :: string and x and r n :: nat
  assume "s \<noteq> []" "x = decode_rune s" "(r, n) = x"
  then show "(drop n s, s) \<in> measure length"
    using decode_rune_width [of s] by (cases "decode_rune s") auto
qed simp

declare xml_escape.simps [simp del]

subsection \<open>The document\<close>

definition quot :: string where "quot = [CHR 0x22]"
definition newline :: string where "newline = [CHR 0x0A]"

definition xml_header :: string where
  "xml_header = ''<?xml version='' @ quot @ ''1.0'' @ quot @ '' encoding='' @ quot @ ''UTF-8'' @ quot @
     ''?>'' @ newline"

text \<open>A line of \<open>MarshalIndent\<close>: two blanks per level, and an element with its text.\<close>

definition indent :: "nat \<Rightarrow> string" where
  "indent n = newline @ concat (replicate n ''  '')"

definition element :: "nat \<Rightarrow> string \<Rightarrow> string \<Rightarrow> string" where
  "element n nm contents =
     indent n @ ''<'' @ nm @ ''>'' @ xml_escape contents @ ''</'' @ nm @ ''>''"

record xmlSpec =
  Major :: int
  Minor :: int

record xmlDeviceInfo =
  x_DeviceType :: string
  x_FriendlyName :: string
  x_Manufacturer :: string
  x_ModelName :: string
  x_ModelNumber :: string
  x_SerialNumber :: string
  x_UDN :: string

record xmlRoot =
  Xmlns :: string
  URLBase :: string
  SpecVersion :: xmlSpec
  Device :: xmlDeviceInfo

definition marshal_device :: "xmlDeviceInfo \<Rightarrow> string" where
  "marshal_device d =
     element 2 ''deviceType'' (x_DeviceType d) @ element 2 ''friendlyName'' (x_FriendlyName d) @
     element 2 ''manufacturer'' (x_Manufacturer d) @ element 2 ''modelName'' (x_ModelName d) @
     element 2 ''modelNumber'' (x_ModelNumber d) @ element 2 ''serialNumber'' (x_SerialNumber d) @
     element 2 ''UDN'' (x_UDN d)"

definition marshal_root :: "xmlRoot \<Rightarrow> string" where
  "marshal_root x =
     ''<root xmlns='' @ quot @ xml_escape (Xmlns x) @ quot @ ''>'' @
     element 1 ''URLBase'' (URLBase x) @
     indent 1 @ ''<specVersion>'' @
     element 2 ''major'' (itoa (Major (SpecVersion x))) @
     element 2 ''minor'' (itoa (Minor (SpecVersion x))) @
     indent 1 @ ''</specVersion>'' @
     indent 1 @ ''<device>'' @ marshal_device (Device x) @ indent 1 @ ''</device>'' @
     newline @ ''</root>''"

definition device_root :: "string \<Rightarrow> string \<Rightarrow> url \<Rightarrow> string \<Rightarrow> xmlRoot" where
  "device_root friendlyName serialNumber presentationURL udn =
     \<lparr>Xmlns = ''urn:schemas-upnp-org:device-1-0'',
      URLBase = Scheme presentationURL @ ''://'' @ Host presentationURL,
      SpecVersion = \<lparr>Major = 1, Minor = 0\<rparr>,
      Device =
        \<lparr>x_DeviceType = ''urn:schemas-upnp-org:device:MediaServer:1'',
         x_FriendlyName = friendlyName, x_Manufacturer = Manufacturer, x_ModelName = ModelName,
         x_ModelNumber = ModelNumber, x_SerialNumber = serialNumber, x_UDN = udn\<rparr>\<rparr>"

text \<open>Marshalling these types cannot fail, so the error of the code is never returned.\<close>

definition BuildDeviceXML :: "string \<Rightarrow> string \<Rightarrow> url \<Rightarrow> string \<Rightarrow> string" where
  "BuildDeviceXML friendlyName serialNumber presentationURL udn =
     xml_header @ marshal_root (device_root friendlyName serialNumber presentationURL udn) @ newline"

subsection \<open>A reader\<close>

text \<open>The entities \<open>EscapeText\<close> writes, and the text they stand for.\<close>

definition entities :: "(string \<times> char) list" where
  "entities =
     [(''&#34;'', CHR 0x22), (''&#39;'', CHR 0x27), (''&amp;'', CHR ''&''), (''&lt;'', CHR ''<''),
      (''&gt;'', CHR ''>''), (''&#x9;'', CHR 0x09), (''&#xA;'', CHR 0x0A), (''&#xD;'', CHR 0x0D)]"

function xml_unescape :: "string \<Rightarrow> string" where
  "xml_unescape [] = []"
| "xml_unescape (c # s) =
     (case find (\<lambda>e. has_prefix (fst e) (c # s)) entities of
        None \<Rightarrow> c # xml_unescape s
      | Some (e, d) \<Rightarrow> d # xml_unescape (drop (length e - 1) s))"
  by pat_completeness auto
termination
  by (relation "measure length") auto

text \<open>
  The markup of a document: what follows each less-than sign. The text of an element runs to
  the next one.
\<close>

definition markup :: "string \<Rightarrow> string list" where
  "markup doc = split_on ''<'' doc"

definition tag_of :: "string \<Rightarrow> string" where
  "tag_of piece = takeWhile (\<lambda>c. c \<noteq> CHR ''>'') piece"

definition element_text :: "string \<Rightarrow> string \<Rightarrow> string option" where
  "element_text nm doc =
     map_option (\<lambda>p. xml_unescape (drop (length nm + 1) p))
       (find (has_prefix (nm @ ''>'')) (markup doc))"

text \<open>Texts of valid UTF-8 whose runes XML allows.\<close>

function xml_text :: "string \<Rightarrow> bool" where
  "xml_text s =
     (if s = [] then True
      else let (r, n) = decode_rune s
           in if in_character_range r \<and> \<not> (r = rune_error \<and> n = 1) then xml_text (drop n s) else False)"
  by pat_completeness auto
termination
proof (relation "measure length")
  fix s :: string and x and r n :: nat
  assume "s \<noteq> []" "x = decode_rune s" "(r, n) = x"
  then show "(drop n s, s) \<in> measure length"
    using decode_rune_width [of s] by (cases "decode_rune s") auto
qed simp

declare xml_text.simps [simp del]

subsection \<open>Escaping\<close>

lemma unescape_entity:
  "(e, c) \<in> set entities \<Longrightarrow> xml_unescape (e @ s) = c # xml_unescape s"
  unfolding entities_def by (auto simp: entities_def has_prefix_def)

lemma unescape_plain: "c \<noteq> CHR ''&'' \<Longrightarrow> xml_unescape (c # s) = c # xml_unescape s"
  by (simp add: entities_def has_prefix_Cons)

declare xml_unescape.simps(2) [simp del]

lemma unescape_bytes:
  "CHR ''&'' \<notin> set bs \<Longrightarrow> xml_unescape (bs @ s) = bs @ xml_unescape s"
proof (induction bs)
  case (Cons c bs)
  then have "c \<noteq> CHR ''&''" by auto
  with Cons show ?case by (simp add: unescape_plain)
qed simp

lemma escaped_codes:
  "code c = 34 \<longleftrightarrow> c = CHR 0x22" "code c = 39 \<longleftrightarrow> c = CHR 0x27" "code c = 38 \<longleftrightarrow> c = CHR ''&''"
  "code c = 60 \<longleftrightarrow> c = CHR ''<''" "code c = 62 \<longleftrightarrow> c = CHR ''>''" "code c = 9 \<longleftrightarrow> c = CHR 0x09"
  "code c = 10 \<longleftrightarrow> c = CHR 0x0A" "code c = 13 \<longleftrightarrow> c = CHR 0x0D"
  by (subst code_inject [symmetric], simp add: code_def)+

lemma xml_rune_narrow:
  assumes "in_character_range (code c)"
  shows "(xml_rune (code c) 1 [c], c) \<in> set entities \<or> (xml_rune (code c) 1 [c] = [c] \<and> c \<noteq> CHR ''&'')"
proof -
  have "code c < 256" by (simp add: code_def)
  then have "code c \<noteq> 65533" by linarith
  then have "code c \<noteq> rune_error" by (simp add: rune_error_def)
  with assms show ?thesis by (simp add: xml_rune_def escaped_codes entities_def)
qed

lemma unescape_rune:
  assumes "decode_rune s = (r, n)" and "s \<noteq> []" and "in_character_range r" and "\<not> (r = rune_error \<and> n = 1)"
  shows "xml_unescape (xml_rune r n (take n s) @ x) = take n s @ xml_unescape x"
proof -
  obtain c t where s: "s = c # t" using assms(2) by (cases s) auto
  show ?thesis
  proof (cases "n = 1")
    case True
    then have r: "r = code c" using assms narrow_rune unfolding s by metis
    show ?thesis
      using xml_rune_narrow [of c] assms(3) unescape_entity [of _ c x] unescape_plain [of c x]
      unfolding r True s by auto
  next
    case False
    note wide = wide_rune [OF assms(1) False assms(2)]
    then have "xml_rune r n (take n s) = take n s" using assms(3) False by (simp add: xml_rune_def)
    moreover have "CHR ''&'' \<notin> set (take n s)" using wide by (auto simp: list_all_iff code_def)
    ultimately show ?thesis by (simp add: unescape_bytes)
  qed
qed

lemma unescape_escape: "xml_text s \<Longrightarrow> xml_unescape (xml_escape s @ x) = s @ xml_unescape x"
proof (induction s rule: xml_escape.induct)
  case (1 s)
  show ?case
  proof (cases "s = []")
    case False
    obtain r n where d: "decode_rune s = (r, n)" by fastforce
    with False 1(2) have ok: "in_character_range r" "\<not> (r = rune_error \<and> n = 1)" "xml_text (drop n s)"
      by (subst (asm) xml_text.simps, auto split: if_splits)+
    have "xml_unescape (xml_escape s @ x) = take n s @ xml_unescape (xml_escape (drop n s) @ x)"
      using False d unescape_rune [OF d False ok(1,2)] by (subst xml_escape.simps) simp
    also have "\<dots> = s @ xml_unescape x"
      using 1(1) [OF False _ _ ok(3)] d by (simp flip: append_assoc)
    finally show ?thesis .
  qed (simp add: xml_escape.simps)
qed

text \<open>No text can open a tag, valid or not.\<close>

lemma encode_rune_error_no_lt: "CHR ''<'' \<notin> set (encode_rune rune_error)"
  by code_simp

lemma xml_rune_no_lt:
  assumes "decode_rune s = (r, n)" and "s \<noteq> []"
  shows "CHR ''<'' \<notin> set (xml_rune r n (take n s))"
proof -
  obtain c t where s: "s = c # t" using assms(2) by (cases s) auto
  show ?thesis
  proof (cases "n = 1")
    case True
    then have "r = code c \<or> r = rune_error" using assms narrow_rune unfolding s by metis
    with True show ?thesis
      using encode_rune_error_no_lt by (auto simp: xml_rune_def s code_def)
  next
    case False
    from wide_rune [OF assms(1) False assms(2)] show ?thesis
      using encode_rune_error_no_lt by (auto simp: xml_rune_def list_all_iff code_def)
  qed
qed

lemma xml_escape_no_lt: "CHR ''<'' \<notin> set (xml_escape s)"
proof (induction s rule: xml_escape.induct)
  case (1 s)
  obtain r n where d: "decode_rune s = (r, n)" by fastforce
  show ?case
  proof (cases "s = []")
    case False
    with 1 [OF False d [symmetric] refl] xml_rune_no_lt [OF d False] d show ?thesis
      by (subst xml_escape.simps) simp
  qed (simp add: xml_escape.simps)
qed

subsection \<open>The document reads back\<close>

text \<open>The markup of the document, piece by piece.\<close>

definition piece :: "string \<Rightarrow> string \<Rightarrow> string" where
  "piece tag rest = tag @ CHR ''>'' # rest"

definition text_tags :: "nat \<Rightarrow> string \<Rightarrow> string \<Rightarrow> (string \<times> string) list" where
  "text_tags n nm contents = [(nm, xml_escape contents), (CHR ''/'' # nm, indent n)]"

definition device_tags :: "string \<Rightarrow> string \<Rightarrow> url \<Rightarrow> string \<Rightarrow> (string \<times> string) list" where
  "device_tags name serial base udn =
     [(''?xml version='' @ quot @ ''1.0'' @ quot @ '' encoding='' @ quot @ ''UTF-8'' @ quot @ ''?'', newline),
      (''root xmlns='' @ quot @ ''urn:schemas-upnp-org:device-1-0'' @ quot, indent 1)] @
     text_tags 1 ''URLBase'' (Scheme base @ ''://'' @ Host base) @
     [(''specVersion'', indent 2)] @ text_tags 2 ''major'' (itoa 1) @ text_tags 1 ''minor'' (itoa 0) @
     [(''/specVersion'', indent 1), (''device'', indent 2)] @
     text_tags 2 ''deviceType'' ''urn:schemas-upnp-org:device:MediaServer:1'' @
     text_tags 2 ''friendlyName'' name @ text_tags 2 ''manufacturer'' Manufacturer @
     text_tags 2 ''modelName'' ModelName @ text_tags 2 ''modelNumber'' ModelNumber @
     text_tags 2 ''serialNumber'' serial @ text_tags 1 ''UDN'' udn @
     [(''/device'', newline), (''/root'', newline)]"

definition pieces :: "(string \<times> string) list \<Rightarrow> string list" where
  "pieces tags = [] # map (\<lambda>(tag, rest). piece tag rest) tags"

lemma xmlns_escape:
  "xml_escape ''urn:schemas-upnp-org:device-1-0'' = ''urn:schemas-upnp-org:device-1-0''"
  by code_simp

lemma markup_device: "markup (BuildDeviceXML name serial base udn) = pieces (device_tags name serial base udn)"
proof -
  let ?ps = "pieces (device_tags name serial base udn)"
  have "BuildDeviceXML name serial base udn = join ''<'' ?ps"
    by (simp add: BuildDeviceXML_def pieces_def device_tags_def text_tags_def piece_def element_def
        marshal_root_def marshal_device_def device_root_def xml_header_def xmlns_escape)
  moreover have "list_all (\<lambda>p. CHR ''<'' \<notin> set p) ?ps"
    by (simp add: pieces_def device_tags_def text_tags_def piece_def xml_escape_no_lt quot_def
        newline_def indent_def)
  then have "split_on ''<'' (join ''<'' ?ps) = ?ps" by (rule split_on_join) (simp add: pieces_def)
  ultimately show ?thesis by (simp add: markup_def)
qed

lemma tag_of_piece: "CHR ''>'' \<notin> set tag \<Longrightarrow> tag_of (piece tag rest) = tag"
  by (induction tag) (auto simp: tag_of_def piece_def)

lemma tags_of_pieces:
  "list_all (\<lambda>t. CHR ''>'' \<notin> set (fst t)) ts \<Longrightarrow> map tag_of (pieces ts) = [] # map fst ts"
proof -
  have "tag_of [] = []" by (simp add: tag_of_def)
  then show "list_all (\<lambda>t. CHR ''>'' \<notin> set (fst t)) ts \<Longrightarrow> ?thesis"
    by (induction ts) (auto simp: pieces_def tag_of_piece)
qed

lemma piece_prefix:
  "CHR ''>'' \<notin> set tag \<Longrightarrow> CHR ''>'' \<notin> set nm \<Longrightarrow> has_prefix (nm @ ''>'') (piece tag rest) \<longleftrightarrow> nm = tag"
proof (induction nm arbitrary: tag)
  case Nil
  then show ?case by (cases tag) (auto simp: has_prefix_Cons piece_def)
next
  case (Cons c nm)
  then show ?case by (cases tag) (auto simp: has_prefix_Cons piece_def)
qed

text \<open>Reading an element is looking its tag up.\<close>

lemma element_text_pieces:
  assumes "markup doc = pieces ts" and "list_all (\<lambda>t. CHR ''>'' \<notin> set (fst t)) ts" and "CHR ''>'' \<notin> set nm"
  shows "element_text nm doc = map_option xml_unescape (map_of ts nm)"
proof -
  have "find (has_prefix (nm @ ''>'')) (map (\<lambda>(tag, rest). piece tag rest) ts) =
      map_option (piece nm) (map_of ts nm)"
    using assms(2,3) by (induction ts) (auto simp: piece_prefix)
  moreover have "\<not> has_prefix (nm @ ''>'') []" by (simp add: has_prefix_def)
  ultimately show ?thesis
    using assms(1)
    by (simp add: element_text_def pieces_def option.map_comp comp_def piece_def)
qed

lemma device_tags_ok: "list_all (\<lambda>t. CHR ''>'' \<notin> set (fst t)) (device_tags name serial base udn)"
  by (simp add: device_tags_def text_tags_def quot_def)

lemma xml_text_unescape: "xml_text t \<Longrightarrow> xml_unescape (xml_escape t) = t"
  using unescape_escape [of t "[]"] by simp

lemma device_element:
  "CHR ''>'' \<notin> set nm \<Longrightarrow> element_text nm (BuildDeviceXML name serial base udn) =
     map_option xml_unescape (map_of (device_tags name serial base udn) nm)"
  using element_text_pieces [OF markup_device device_tags_ok] by blast

text \<open>
  C20 The device description is well formed and reads back. Whatever the friendly name, the
  serial number, the address and the UDN are, the markup of the document is the same: no text
  can open a tag. When they are UTF-8 text that XML allows, reading the elements \<open>URLBase\<close>,
  \<open>friendlyName\<close>, \<open>serialNumber\<close> and \<open>UDN\<close> gives exactly the origin, the name, the serial
  number and the UDN that went in.
\<close>

theorem device_xml_roundtrip:
  "map tag_of (markup (BuildDeviceXML name serial base udn)) =
     [[], ''?xml version='' @ quot @ ''1.0'' @ quot @ '' encoding='' @ quot @ ''UTF-8'' @ quot @ ''?'',
      ''root xmlns='' @ quot @ ''urn:schemas-upnp-org:device-1-0'' @ quot,
      ''URLBase'', ''/URLBase'', ''specVersion'', ''major'', ''/major'', ''minor'', ''/minor'',
      ''/specVersion'', ''device'', ''deviceType'', ''/deviceType'', ''friendlyName'', ''/friendlyName'',
      ''manufacturer'', ''/manufacturer'', ''modelName'', ''/modelName'', ''modelNumber'',
      ''/modelNumber'', ''serialNumber'', ''/serialNumber'', ''UDN'', ''/UDN'', ''/device'', ''/root''] \<and>
   (xml_text (Scheme base @ ''://'' @ Host base) \<longrightarrow>
      element_text ''URLBase'' (BuildDeviceXML name serial base udn) = Some (Scheme base @ ''://'' @ Host base)) \<and>
   (xml_text name \<longrightarrow> element_text ''friendlyName'' (BuildDeviceXML name serial base udn) = Some name) \<and>
   (xml_text serial \<longrightarrow> element_text ''serialNumber'' (BuildDeviceXML name serial base udn) = Some serial) \<and>
   (xml_text udn \<longrightarrow> element_text ''UDN'' (BuildDeviceXML name serial base udn) = Some udn)"
proof (intro conjI impI)
  show "map tag_of (markup (BuildDeviceXML name serial base udn)) =
     [[], ''?xml version='' @ quot @ ''1.0'' @ quot @ '' encoding='' @ quot @ ''UTF-8'' @ quot @ ''?'',
      ''root xmlns='' @ quot @ ''urn:schemas-upnp-org:device-1-0'' @ quot,
      ''URLBase'', ''/URLBase'', ''specVersion'', ''major'', ''/major'', ''minor'', ''/minor'',
      ''/specVersion'', ''device'', ''deviceType'', ''/deviceType'', ''friendlyName'', ''/friendlyName'',
      ''manufacturer'', ''/manufacturer'', ''modelName'', ''/modelName'', ''modelNumber'',
      ''/modelNumber'', ''serialNumber'', ''/serialNumber'', ''UDN'', ''/UDN'', ''/device'', ''/root'']"
    unfolding markup_device tags_of_pieces [OF device_tags_ok]
    by (simp add: device_tags_def text_tags_def)
qed (simp_all add: device_element, simp_all add: device_tags_def text_tags_def quot_def xml_text_unescape)

lemma device_xml_roundtrip_witness:
  "element_text ''friendlyName'' (BuildDeviceXML ''Tom & <Jo>'' ''105A1B22'' empty_url ''u'') = Some ''Tom & <Jo>''"
proof -
  have "xml_text ''Tom & <Jo>''" by code_simp
  then show ?thesis using device_xml_roundtrip [of "''Tom & <Jo>''"] by blast
qed

end
