(* ===== verification/Reorder.thy ===== *)
theory Reorder
  imports Prelude "HOL-Library.Multiset"
begin

text \<open>
  internal/rtsp/diagnostics.go, sequence numbers and \<open>udpRtpReorderBuffer\<close>: packets of an
  RTP stream are held back until the next expected one arrives, the buffer is too full, or
  the timer gives up waiting. The map of pending packets is an association list whose order
  stands for Go's unspecified iteration order; every \<open>time.AfterFunc\<close> timer is its own
  number, live until it is stopped or expires, and then in flight until its callback has
  run under the mutex. The theory proves the invariant of the buffer, that emission only
  moves forward, that packets are conserved, and that a shuffled burst comes out in order.
\<close>

subsection \<open>Sequence numbers\<close>

definition sequenceDistance :: "u16 \<Rightarrow> u16 \<Rightarrow> u16" where
  "sequenceDistance frm to = of_int ((int (unat to) - int (unat frm) + 0x10000) AND 0xffff)"

definition isStaleSequence :: "u16 \<Rightarrow> u16 \<Rightarrow> bool" where
  "isStaleSequence sequence expected \<longleftrightarrow> sequenceDistance expected sequence > 0x7fff"

definition parseRtpSequence :: "byte list \<Rightarrow> u16 go" where
  "parseRtpSequence packet = do {
     a \<leftarrow> index packet 2;
     b \<leftarrow> index packet 3;
     Some (push_bit 8 (ucast a) OR ucast b)
   }"

subsection \<open>The buffer\<close>

record reorder =
  expectedSeq :: "u16 option"
  pending :: "(u16 \<times> byte list) list"
  flushTimer :: "nat option"
  live :: "nat list"
  inflight :: "nat list"
  next_timer :: nat
  emitted :: "byte list list"

definition maxPending :: nat where
  "maxPending = 64"

definition newUdpRtpReorderBuffer :: reorder where
  "newUdpRtpReorderBuffer = \<lparr>expectedSeq = None, pending = [], flushTimer = None, live = [],
     inflight = [], next_timer = 0, emitted = []\<rparr>"

definition hasPending :: "reorder \<Rightarrow> u16 \<Rightarrow> bool" where
  "hasPending b sequence \<longleftrightarrow> map_of (pending b) sequence \<noteq> None"

text \<open>Deleting a key of the map.\<close>

definition without :: "u16 \<Rightarrow> (u16 \<times> byte list) list \<Rightarrow> (u16 \<times> byte list) list" where
  "without k xs = filter (\<lambda>(s, p). s \<noteq> k) xs"

text \<open>\<open>b.flushTimer.Stop(); b.flushTimer = nil\<close>, when it is not nil.\<close>

definition cancelTimer :: "reorder \<Rightarrow> reorder" where
  "cancelTimer b =
     (case flushTimer b of
        None \<Rightarrow> b
      | Some t \<Rightarrow> b\<lparr>flushTimer := None, live := removeAll t (live b)\<rparr>)"

lemma without_length: "map_of xs k = Some p \<Longrightarrow> length (without k xs) < length xs"
proof -
  assume "map_of xs k = Some p"
  then have "(k, p) \<in> set xs" by (rule map_of_SomeD)
  then show ?thesis unfolding without_def by (rule length_filter_less) simp
qed

function flushLoop :: "reorder \<Rightarrow> u16 \<Rightarrow> reorder" where
  "flushLoop b e =
     (case map_of (pending b) e of
        None \<Rightarrow> b\<lparr>expectedSeq := Some e\<rparr>
      | Some packet \<Rightarrow>
          flushLoop (b\<lparr>pending := without e (pending b), emitted := emitted b @ [packet]\<rparr>) (e + 1))"
  by pat_completeness auto
termination
  by (relation "measure (\<lambda>(b, e). length (pending b))") (auto dest: without_length)

declare flushLoop.simps [simp del]

definition flushAvailableLocked :: "reorder \<Rightarrow> reorder" where
  "flushAvailableLocked b =
     (case expectedSeq b of
        None \<Rightarrow> b
      | Some e \<Rightarrow>
          let b' = flushLoop b e
          in if pending b' = [] \<and> flushTimer b' \<noteq> None then cancelTimer b' else b')"

definition armFlushTimerLocked :: "reorder \<Rightarrow> reorder" where
  "armFlushTimerLocked b =
     (if flushTimer b \<noteq> None then b
      else b\<lparr>flushTimer := Some (next_timer b), live := next_timer b # live b,
             next_timer := next_timer b + 1\<rparr>)"

text \<open>The loop over the map in \<open>findNearestPendingSequence\<close>: nearest and distance so far.\<close>

fun nearestLoop :: "u16 \<Rightarrow> (u16 \<times> u16) option \<Rightarrow> (u16 \<times> byte list) list \<Rightarrow> (u16 \<times> u16) option" where
  "nearestLoop e acc [] = acc"
| "nearestLoop e acc ((s, p) # xs) =
     (let current = sequenceDistance e s
      in nearestLoop e
           (case acc of
              None \<Rightarrow> Some (s, current)
            | Some (nearest, dist) \<Rightarrow> if current < dist then Some (s, current) else Some (nearest, dist))
           xs)"

definition findNearestPendingSequence :: "reorder \<Rightarrow> u16 option" where
  "findNearestPendingSequence b =
     (case expectedSeq b of
        None \<Rightarrow> (case pending b of [] \<Rightarrow> None | (s, p) # _ \<Rightarrow> Some s)
      | Some e \<Rightarrow> map_option fst (nearestLoop e None (pending b)))"

definition lacksExpected :: "reorder \<Rightarrow> bool" where
  "lacksExpected b \<longleftrightarrow> (case expectedSeq b of None \<Rightarrow> False | Some e \<Rightarrow> \<not> hasPending b e)"

text \<open>
  The end of \<open>push\<close>: give up on the expected packet when too many are pending, and arm
  the timer when some are.
\<close>

definition relieve :: "reorder \<Rightarrow> reorder" where
  "relieve b =
     (let b' = (if length (pending b) > maxPending \<and> lacksExpected b
                then (case findNearestPendingSequence b of
                        None \<Rightarrow> b
                      | Some n \<Rightarrow> flushAvailableLocked (b\<lparr>expectedSeq := Some n\<rparr>))
                else b)
      in if pending b' \<noteq> [] \<and> lacksExpected b' then armFlushTimerLocked b' else b')"

definition push :: "reorder \<Rightarrow> byte list \<Rightarrow> reorder go" where
  "push b packet =
     (case parseRtpSequence packet of
        None \<Rightarrow> None
      | Some sequence \<Rightarrow>
          if (case expectedSeq b of None \<Rightarrow> False | Some e \<Rightarrow> isStaleSequence sequence e)
          then Some b
          else
            let b1 = (if expectedSeq b = None then b\<lparr>expectedSeq := Some sequence\<rparr> else b);
                b2 = (if hasPending b1 sequence then b1
                      else b1\<lparr>pending := (sequence, packet) # pending b1\<rparr>)
            in Some (relieve (flushAvailableLocked b2)))"

text \<open>
  The loop of \<open>flushRemaining\<close>. Each round emits at least one packet, so as many rounds as
  there are pending packets are enough: that number is the fuel.
\<close>

fun flushRemainingLoop :: "nat \<Rightarrow> reorder \<Rightarrow> reorder" where
  "flushRemainingLoop 0 b = b"
| "flushRemainingLoop (Suc n) b =
     (if pending b = [] then b
      else if expectedSeq b = None \<or> lacksExpected b
      then (case findNearestPendingSequence b of
              None \<Rightarrow> b
            | Some s \<Rightarrow> flushRemainingLoop n (flushAvailableLocked (b\<lparr>expectedSeq := Some s\<rparr>)))
      else flushRemainingLoop n (flushAvailableLocked b))"

definition flushRemaining :: "reorder \<Rightarrow> reorder" where
  "flushRemaining b = flushRemainingLoop (length (pending b)) b"

definition stop :: "reorder \<Rightarrow> reorder" where
  "stop b = cancelTimer b"

definition close :: "reorder \<Rightarrow> reorder" where
  "close b = flushRemaining (stop b)"

text \<open>The body of the timer callback, run under the mutex.\<close>

definition timerCallback :: "reorder \<Rightarrow> reorder" where
  "timerCallback b =
     (let b0 = b\<lparr>flushTimer := None\<rparr>
      in if pending b0 = [] then b0
         else
           let b1 = (if expectedSeq b0 = None \<or> lacksExpected b0
                     then (case findNearestPendingSequence b0 of
                             None \<Rightarrow> b0
                           | Some n \<Rightarrow> b0\<lparr>expectedSeq := Some n\<rparr>)
                     else b0);
               b2 = flushAvailableLocked b1
           in if pending b2 \<noteq> [] \<and> lacksExpected b2 then armFlushTimerLocked b2 else b2)"

subsection \<open>Events\<close>

text \<open>
  What can happen to a buffer: the reader pushes a packet, a live timer expires (its
  callback is then in flight and can no longer be stopped), a callback in flight gets the
  mutex, the reader stops or closes the buffer.
\<close>

datatype event = Push "byte list" | Expire nat | Callback nat | Stop | Close

fun step :: "reorder \<Rightarrow> event \<Rightarrow> reorder go" where
  "step b (Push packet) = push b packet"
| "step b (Expire t) =
     Some (if t \<in> set (live b) then b\<lparr>live := removeAll t (live b), inflight := t # inflight b\<rparr> else b)"
| "step b (Callback t) =
     Some (if t \<in> set (inflight b) then timerCallback (b\<lparr>inflight := removeAll t (inflight b)\<rparr>) else b)"
| "step b Stop = Some (stop b)"
| "step b Close = Some (close b)"

fun run :: "reorder \<Rightarrow> event list \<Rightarrow> reorder go" where
  "run b [] = Some b"
| "run b (e # es) = (case step b e of None \<Rightarrow> None | Some b' \<Rightarrow> run b' es)"

subsection \<open>Distances\<close>

lemma sequenceDistance_eq: "sequenceDistance a b = b - a"
proof -
  have "(int (unat b) - int (unat a) + 0x10000) AND 0xffff =
      take_bit 16 (int (unat b) - int (unat a) + 0x10000)"
    using take_bit_eq_mask [of 16 "int (unat b) - int (unat a) + 0x10000"]
    by (simp add: mask_eq_exp_minus_1)
  moreover have "(of_int (take_bit 16 k) :: u16) = of_int k" for k
    by (simp add: word_of_int_eq_iff)
  moreover have "(of_int (int (unat b) - int (unat a) + 0x10000) :: u16) = b - a + 2 ^ LENGTH(16)"
    by simp
  ultimately show ?thesis by (simp only: sequenceDistance_def word_exp_length_eq_0 add_0_right)
qed

lemma isStale_iff: "isStaleSequence s e \<longleftrightarrow> 0x7fff < unat (s - e)"
  by (simp add: isStaleSequence_def sequenceDistance_eq word_less_nat_alt)

lemma dist_sub:
  fixes s n e :: u16
  assumes "unat (n - e) \<le> unat (s - e)"
  shows "unat (s - n) = unat (s - e) - unat (n - e)"
proof -
  have "s - n = (s - e) - (n - e)" by simp
  then show ?thesis using assms by (simp only: unat_sub word_le_nat_alt)
qed

lemma dist_Suc:
  fixes s e :: u16
  assumes "s \<noteq> e"
  shows "unat (s - (e + 1)) = unat (s - e) - 1"
proof -
  have "unat (s - e) \<noteq> 0" using assms by (simp add: unat_eq_zero)
  then show ?thesis using dist_sub [of "e + 1" e s] by simp
qed

lemma parseRtpSequence_Some_iff: "parseRtpSequence p \<noteq> None \<longleftrightarrow> 4 \<le> length p"
  by (auto simp: parseRtpSequence_def bind_go_eq_None_iff index_def)

subsection \<open>The invariant\<close>

definition seqOf :: "byte list \<Rightarrow> u16" where
  "seqOf p = be16 (p ! 2) (p ! 3)"

lemma parseRtpSequence_eq: "parseRtpSequence p = (if 4 \<le> length p then Some (seqOf p) else None)"
  by (auto simp: parseRtpSequence_def index_def seqOf_def be16_def)

text \<open>The next packet of a stream is at most half the number space ahead.\<close>

definition ahead :: "u16 \<Rightarrow> u16 \<Rightarrow> bool" where
  "ahead a b \<longleftrightarrow> unat (b - (a + 1)) \<le> 0x7fff"

definition keyed :: "(u16 \<times> byte list) list \<Rightarrow> bool" where
  "keyed xs \<longleftrightarrow> distinct (map fst xs) \<and> (\<forall>(s, p) \<in> set xs. 4 \<le> length p \<and> seqOf p = s)"

definition core :: "reorder \<Rightarrow> u16 \<Rightarrow> bool" where
  "core b e \<longleftrightarrow> keyed (pending b) \<and>
     (\<forall>s \<in> fst ` set (pending b). unat (s - e) \<le> 0x7fff) \<and>
     successively ahead (map seqOf (emitted b)) \<and>
     (emitted b \<noteq> [] \<longrightarrow> ahead (seqOf (last (emitted b))) e)"

lemma keyed_without: "keyed xs \<Longrightarrow> keyed (without k xs)"
proof -
  have "distinct (map fst xs) \<Longrightarrow> distinct (map fst (without k xs))"
    unfolding without_def by (rule distinct_map_filter)
  then show "keyed xs \<Longrightarrow> keyed (without k xs)" by (auto simp: keyed_def without_def)
qed

lemma set_without: "set (without k xs) = {(s, p) \<in> set xs. s \<noteq> k}"
  by (auto simp: without_def)

lemma mset_without:
  "keyed xs \<Longrightarrow> map_of xs k = Some p \<Longrightarrow> mset (map snd xs) = add_mset p (mset (map snd (without k xs)))"
proof (induction xs)
  case (Cons x xs)
  obtain s q where x: "x = (s, q)" by fastforce
  show ?case
  proof (cases "s = k")
    case True
    with Cons.prems x have "k \<notin> fst ` set xs" "q = p" by (auto simp: keyed_def)
    then have "without k xs = xs" by (induction xs) (auto simp: without_def)
    with x True \<open>q = p\<close> show ?thesis by (simp add: without_def)
  next
    case False
    from Cons.prems(1) have "keyed xs" by (simp add: keyed_def)
    with Cons x False show ?thesis by (simp add: without_def)
  qed
qed simp

lemma ahead_last: "successively ahead (xs @ [x]) \<longleftrightarrow> successively ahead xs \<and> (xs \<noteq> [] \<longrightarrow> ahead (last xs) x)"
  by (auto simp: successively_append_iff)

lemma ahead_next: "ahead a (a + 1)"
  by (simp add: ahead_def)

lemma core_emit:
  assumes "core b e" and "map_of (pending b) e = Some p"
  shows "core (b\<lparr>pending := without e (pending b), emitted := emitted b @ [p]\<rparr>) (e + 1)"
    and "seqOf p = e"
proof -
  have p: "(e, p) \<in> set (pending b)" using assms(2) by (rule map_of_SomeD)
  then show e: "seqOf p = e" using assms(1) by (auto simp: core_def keyed_def)
  have "unat (s - (e + 1)) \<le> 0x7fff" if "s \<in> fst ` set (without e (pending b))" for s
  proof -
    from that have "s \<in> fst ` set (pending b)" "s \<noteq> e" by (auto simp: set_without)
    with assms(1) dist_Suc [of s e] show ?thesis by (fastforce simp: core_def)
  qed
  then show "core (b\<lparr>pending := without e (pending b), emitted := emitted b @ [p]\<rparr>) (e + 1)"
    using assms(1) e ahead_next
    by (auto simp: core_def keyed_without ahead_last last_map)
qed

lemma flushLoop_None: "map_of (pending b) e = None \<Longrightarrow> flushLoop b e = b\<lparr>expectedSeq := Some e\<rparr>"
  by (simp add: flushLoop.simps)

lemma flushLoop_Some:
  "map_of (pending b) e = Some p \<Longrightarrow> flushLoop b e =
     flushLoop (b\<lparr>pending := without e (pending b), emitted := emitted b @ [p]\<rparr>) (e + 1)"
  by (subst flushLoop.simps) simp

lemma flushLoop_frame:
  "flushTimer (flushLoop b e) = flushTimer b \<and> live (flushLoop b e) = live b \<and>
   inflight (flushLoop b e) = inflight b \<and> next_timer (flushLoop b e) = next_timer b \<and>
   (\<exists>xs. emitted (flushLoop b e) = emitted b @ xs) \<and>
   length (pending (flushLoop b e)) \<le> length (pending b)"
proof (induction b e rule: flushLoop.induct)
  case (1 b e)
  show ?case
  proof (cases "map_of (pending b) e")
    case (Some p)
    with 1 [OF Some] without_length [OF Some] show ?thesis by (auto simp: flushLoop_Some)
  qed (simp add: flushLoop_None)
qed

lemma flushLoop_core:
  "core b e \<Longrightarrow> \<exists>e'. expectedSeq (flushLoop b e) = Some e' \<and> core (flushLoop b e) e' \<and>
      map_of (pending (flushLoop b e)) e' = None \<and>
      mset (emitted (flushLoop b e)) + mset (map snd (pending (flushLoop b e))) =
        mset (emitted b) + mset (map snd (pending b)) \<and>
      (emitted b \<noteq> [] \<and> e = seqOf (last (emitted b)) + 1 \<or> map_of (pending b) e \<noteq> None \<longrightarrow>
         emitted (flushLoop b e) \<noteq> [] \<and> e' = seqOf (last (emitted (flushLoop b e))) + 1)"
proof (induction b e rule: flushLoop.induct)
  case (1 b e)
  show ?case
  proof (cases "map_of (pending b) e")
    case None
    with 1 show ?thesis by (auto simp: flushLoop_None core_def)
  next
    case (Some p)
    have "keyed (pending b)" using 1 by (simp add: core_def)
    from mset_without [OF this Some] core_emit [OF 1(2) Some] 1(1) [OF Some] show ?thesis
      by (simp add: flushLoop_Some [OF Some])
  qed
qed

lemma flushLoop_less:
  "map_of (pending b) e = Some p \<Longrightarrow> length (pending (flushLoop b e)) < length (pending b)"
proof -
  assume p: "map_of (pending b) e = Some p"
  have "length (pending (flushLoop b e)) \<le> length (without e (pending b))"
    using flushLoop_frame [of "b\<lparr>pending := without e (pending b), emitted := emitted b @ [p]\<rparr>" "e + 1"]
    by (simp add: flushLoop_Some [OF p])
  with without_length [OF p] show ?thesis by simp
qed

subsection \<open>The nearest pending packet\<close>

lemma nearestLoop_spec:
  assumes "\<And>n d. acc = Some (n, d) \<Longrightarrow> d = n - e"
  shows "case nearestLoop e acc xs of
      None \<Rightarrow> acc = None \<and> xs = []
    | Some (n, d) \<Rightarrow> d = n - e \<and> (n \<in> fst ` set xs \<or> acc = Some (n, d)) \<and>
        (\<forall>s \<in> fst ` set xs. unat d \<le> unat (s - e)) \<and>
        (\<forall>n0 d0. acc = Some (n0, d0) \<longrightarrow> unat d \<le> unat d0)"
  using assms
proof (induction xs arbitrary: acc)
  case Nil
  then show ?case by (auto split: option.splits)
next
  case (Cons x xs)
  obtain s p where x: "x = (s, p)" by fastforce
  let ?acc = "case acc of None \<Rightarrow> Some (s, s - e)
      | Some (n, d) \<Rightarrow> if s - e < d then Some (s, s - e) else Some (n, d)"
  have "d = n - e" if "?acc = Some (n, d)" for n d
    using that Cons.prems by (auto split: option.splits if_splits)
  from Cons.IH [of ?acc, OF this] Cons.prems show ?case
    by (auto simp: x sequenceDistance_eq Let_def word_less_nat_alt split: option.splits if_splits)
      (force)+
qed

lemma findNearest_spec:
  assumes "expectedSeq b = Some e" and "pending b \<noteq> []"
  obtains n where "findNearestPendingSequence b = Some n" and "n \<in> fst ` set (pending b)"
    and "\<And>s. s \<in> fst ` set (pending b) \<Longrightarrow> unat (n - e) \<le> unat (s - e)"
  using nearestLoop_spec [of None e "pending b"] assms that
  by (auto simp: findNearestPendingSequence_def split: option.splits prod.splits)

lemma findNearest_None: "pending b = [] \<Longrightarrow> findNearestPendingSequence b = None"
  by (auto simp: findNearestPendingSequence_def split: option.splits)

subsection \<open>Settled buffers\<close>

text \<open>Between two operations.\<close>

definition settled :: "reorder \<Rightarrow> bool" where
  "settled b \<longleftrightarrow>
     (case expectedSeq b of
        None \<Rightarrow> pending b = [] \<and> emitted b = []
      | Some e \<Rightarrow> core b e \<and> map_of (pending b) e = None \<and> emitted b \<noteq> [] \<and>
          e = seqOf (last (emitted b)) + 1)"

definition packets :: "reorder \<Rightarrow> byte list multiset" where
  "packets b = mset (emitted b) + mset (map snd (pending b))"

text \<open>A flush timer that is set belongs to a callback that will still run.\<close>

definition armed :: "reorder \<Rightarrow> bool" where
  "armed b \<longleftrightarrow> (\<forall>t. flushTimer b = Some t \<longrightarrow> t \<in> set (live b) \<union> set (inflight b))"

definition extends :: "reorder \<Rightarrow> reorder \<Rightarrow> bool" where
  "extends b b' \<longleftrightarrow> (\<exists>xs. emitted b' = emitted b @ xs)"

lemma extends_refl [simp]: "extends b b" by (simp add: extends_def)

lemma extends_trans: "extends a b \<Longrightarrow> extends b c \<Longrightarrow> extends a c"
  by (auto simp: extends_def)

lemma cancelTimer_frame [simp]:
  "expectedSeq (cancelTimer b) = expectedSeq b" "pending (cancelTimer b) = pending b"
  "emitted (cancelTimer b) = emitted b" "flushTimer (cancelTimer b) = None"
  "inflight (cancelTimer b) = inflight b"
  by (simp_all add: cancelTimer_def split: option.splits)

lemma armTimer_frame [simp]:
  "expectedSeq (armFlushTimerLocked b) = expectedSeq b"
  "pending (armFlushTimerLocked b) = pending b"
  "emitted (armFlushTimerLocked b) = emitted b"
  "inflight (armFlushTimerLocked b) = inflight b"
  by (simp_all add: armFlushTimerLocked_def)

lemma armed_arm: "armed b \<Longrightarrow> armed (armFlushTimerLocked b) \<and> flushTimer (armFlushTimerLocked b) \<noteq> None"
  by (auto simp: armed_def armFlushTimerLocked_def)

lemma settled_frame:
  "expectedSeq b' = expectedSeq b \<Longrightarrow> pending b' = pending b \<Longrightarrow> emitted b' = emitted b \<Longrightarrow>
   settled b' = settled b \<and> packets b' = packets b"
  by (simp add: settled_def packets_def core_def split: option.splits)

lemma lacksExpected_settled: "settled b \<Longrightarrow> pending b \<noteq> [] \<Longrightarrow> lacksExpected b"
  by (auto simp: settled_def lacksExpected_def hasPending_def split: option.splits)

lemma flushAvailable_spec:
  assumes "expectedSeq b = Some e" and "core b e"
    and "emitted b \<noteq> [] \<and> e = seqOf (last (emitted b)) + 1 \<or> map_of (pending b) e \<noteq> None"
  shows "settled (flushAvailableLocked b)"
    and "packets (flushAvailableLocked b) = packets b"
    and "extends b (flushAvailableLocked b)"
    and "armed b \<Longrightarrow> armed (flushAvailableLocked b)"
    and "length (pending (flushAvailableLocked b)) \<le> length (pending b)"
    and "map_of (pending b) e \<noteq> None \<Longrightarrow>
      length (pending (flushAvailableLocked b)) < length (pending b)"
    and "expectedSeq (flushAvailableLocked b) \<noteq> None"
proof -
  let ?l = "flushLoop b e"
  have eqs: "expectedSeq (flushAvailableLocked b) = expectedSeq ?l"
    "pending (flushAvailableLocked b) = pending ?l" "emitted (flushAvailableLocked b) = emitted ?l"
    using assms(1) by (simp_all add: flushAvailableLocked_def Let_def)
  note fl = flushLoop_core [OF assms(2)] flushLoop_frame [of b e]
  from fl assms(3) have "settled ?l \<and> packets ?l = packets b" by (auto simp: settled_def packets_def)
  then show "settled (flushAvailableLocked b)" "packets (flushAvailableLocked b) = packets b"
    using settled_frame [OF eqs] by simp_all
  show "extends b (flushAvailableLocked b)" "length (pending (flushAvailableLocked b)) \<le> length (pending b)"
      "expectedSeq (flushAvailableLocked b) \<noteq> None"
    using fl eqs by (auto simp: extends_def)
  show "map_of (pending b) e \<noteq> None \<Longrightarrow> length (pending (flushAvailableLocked b)) < length (pending b)"
    using flushLoop_less eqs by auto
  show "armed b \<Longrightarrow> armed (flushAvailableLocked b)"
    using fl(2) assms(1) by (auto simp: armed_def flushAvailableLocked_def Let_def)
qed

lemma core_skip:
  assumes "core b e" and "e = seqOf (last (emitted b)) + 1"
    and "n \<in> fst ` set (pending b)" and "\<And>s. s \<in> fst ` set (pending b) \<Longrightarrow> unat (n - e) \<le> unat (s - e)"
  shows "core (b\<lparr>expectedSeq := Some n\<rparr>) n"
proof -
  have "unat (s - n) \<le> 0x7fff" if "s \<in> fst ` set (pending b)" for s
  proof -
    have "unat (s - n) = unat (s - e) - unat (n - e)" by (rule dist_sub) (rule assms(4) [OF that])
    moreover have "unat (s - e) \<le> 0x7fff" using assms(1) that unfolding core_def by blast
    ultimately show ?thesis by simp
  qed
  moreover have "unat (n - e) \<le> 0x7fff" using assms(1,3) by (auto simp: core_def)
  ultimately show ?thesis using assms(1,2) by (auto simp: core_def ahead_def)
qed

text \<open>Giving up on the missing packets: jump to the nearest pending one and flush.\<close>

lemma skip_spec:
  assumes "settled b" and "pending b \<noteq> []" and "armed b"
  obtains n where "findNearestPendingSequence b = Some n"
    and "settled (flushAvailableLocked (b\<lparr>expectedSeq := Some n\<rparr>))"
    and "packets (flushAvailableLocked (b\<lparr>expectedSeq := Some n\<rparr>)) = packets b"
    and "extends b (flushAvailableLocked (b\<lparr>expectedSeq := Some n\<rparr>))"
    and "armed (flushAvailableLocked (b\<lparr>expectedSeq := Some n\<rparr>))"
    and "length (pending (flushAvailableLocked (b\<lparr>expectedSeq := Some n\<rparr>))) < length (pending b)"
proof -
  from assms obtain e where e: "expectedSeq b = Some e" "core b e" "e = seqOf (last (emitted b)) + 1"
    by (auto simp: settled_def split: option.splits)
  from e(1) assms(2) obtain n where n: "findNearestPendingSequence b = Some n"
      "n \<in> fst ` set (pending b)" "\<And>s. s \<in> fst ` set (pending b) \<Longrightarrow> unat (n - e) \<le> unat (s - e)"
    by (rule findNearest_spec) blast
  let ?b = "b\<lparr>expectedSeq := Some n\<rparr>"
  have "core ?b n" by (rule core_skip [OF e(2,3) n(2,3)])
  moreover have "map_of (pending ?b) n \<noteq> None" using n(2) by (simp add: map_of_eq_None_iff)
  ultimately show thesis
    using that [OF n(1)] flushAvailable_spec [of ?b n] assms(3)
    by (simp add: packets_def extends_def armed_def)
qed

subsection \<open>Every operation keeps the invariant\<close>

definition watched :: "reorder \<Rightarrow> bool" where
  "watched b \<longleftrightarrow> (pending b \<noteq> [] \<longrightarrow> live b \<noteq> [] \<or> inflight b \<noteq> [])"

definition reorder_ok :: "reorder \<Rightarrow> bool" where
  "reorder_ok b \<longleftrightarrow> settled b \<and> length (pending b) \<le> maxPending \<and> armed b"

text \<open>The packets \<open>push\<close> takes into the buffer.\<close>

definition accepts :: "reorder \<Rightarrow> byte list \<Rightarrow> bool" where
  "accepts b p \<longleftrightarrow> 4 \<le> length p \<and>
     (\<forall>e. expectedSeq b = Some e \<longrightarrow> unat (seqOf p - e) \<le> 0x7fff) \<and> \<not> hasPending b (seqOf p)"

lemma armed_watched: "armed b \<Longrightarrow> flushTimer b \<noteq> None \<Longrightarrow> watched b"
  by (auto simp: armed_def watched_def)

lemma reorder_ok_new: "reorder_ok newUdpRtpReorderBuffer"
  by (simp add: reorder_ok_def settled_def armed_def newUdpRtpReorderBuffer_def)

text \<open>The buffer between inserting a fresh packet and flushing it.\<close>

lemma insert_core:
  assumes "settled b" and "accepts b p"
  defines "e \<equiv> (case expectedSeq b of None \<Rightarrow> seqOf p | Some e \<Rightarrow> e)"
  shows "core (b\<lparr>expectedSeq := Some e, pending := (seqOf p, p) # pending b\<rparr>) e"
    and "emitted b \<noteq> [] \<and> e = seqOf (last (emitted b)) + 1 \<or>
      map_of ((seqOf p, p) # pending b) e \<noteq> None"
proof -
  have fresh: "seqOf p \<notin> fst ` set (pending b)"
    using assms(2) by (simp add: accepts_def hasPending_def map_of_eq_None_iff)
  show "core (b\<lparr>expectedSeq := Some e, pending := (seqOf p, p) # pending b\<rparr>) e"
    using assms(1,2) fresh
    by (cases "expectedSeq b") (auto simp: settled_def core_def keyed_def accepts_def e_def)
  show "emitted b \<noteq> [] \<and> e = seqOf (last (emitted b)) + 1 \<or>
      map_of ((seqOf p, p) # pending b) e \<noteq> None"
    using assms(1) by (auto simp: settled_def e_def split: option.splits)
qed

lemma arm_spec:
  assumes "settled b" and "armed b"
  defines "b' \<equiv> (if pending b \<noteq> [] \<and> lacksExpected b then armFlushTimerLocked b else b)"
  shows "settled b' \<and> packets b' = packets b \<and> extends b b' \<and> armed b' \<and> watched b' \<and>
    length (pending b') = length (pending b) \<and> expectedSeq b' = expectedSeq b \<and>
    pending b' = pending b \<and> emitted b' = emitted b"
proof (cases "pending b = []")
  case True
  with assms show ?thesis by (simp add: watched_def)
next
  case False
  then have "b' = armFlushTimerLocked b" using lacksExpected_settled [OF assms(1)] by (simp add: b'_def)
  with assms(1) armed_arm [OF assms(2)] armed_watched [of b'] settled_frame [of b' b] show ?thesis
    by (simp add: extends_def)
qed

lemma relieve_spec:
  assumes "settled b" and "armed b" and "length (pending b) \<le> maxPending + 1"
  shows "settled (relieve b) \<and> packets (relieve b) = packets b \<and> extends b (relieve b) \<and>
    armed (relieve b) \<and> watched (relieve b) \<and> length (pending (relieve b)) \<le> maxPending"
proof (cases "length (pending b) > maxPending")
  case False
  with arm_spec [OF assms(1,2)] show ?thesis by (auto simp: relieve_def)
next
  case True
  then have "pending b \<noteq> []" by auto
  moreover from this have "lacksExpected b" using assms(1) lacksExpected_settled by blast
  ultimately obtain n where n: "findNearestPendingSequence b = Some n"
    "settled (flushAvailableLocked (b\<lparr>expectedSeq := Some n\<rparr>))"
    "packets (flushAvailableLocked (b\<lparr>expectedSeq := Some n\<rparr>)) = packets b"
    "extends b (flushAvailableLocked (b\<lparr>expectedSeq := Some n\<rparr>))"
    "armed (flushAvailableLocked (b\<lparr>expectedSeq := Some n\<rparr>))"
    "length (pending (flushAvailableLocked (b\<lparr>expectedSeq := Some n\<rparr>))) < length (pending b)"
    using skip_spec [OF assms(1) _ assms(2)] by blast
  let ?b = "flushAvailableLocked (b\<lparr>expectedSeq := Some n\<rparr>)"
  have "relieve b = (if pending ?b \<noteq> [] \<and> lacksExpected ?b then armFlushTimerLocked ?b else ?b)"
    using True n(1) \<open>lacksExpected b\<close> by (simp add: relieve_def)
  with arm_spec [OF n(2,5)] n(3,4,6) assms(3) show ?thesis
    by (auto intro: extends_trans)
qed

lemma relieve_flush:
  assumes "expectedSeq b = Some e" and "core b e"
    and "emitted b \<noteq> [] \<and> e = seqOf (last (emitted b)) + 1 \<or> map_of (pending b) e \<noteq> None"
    and "armed b" and "length (pending b) \<le> maxPending + 1"
  shows "reorder_ok (relieve (flushAvailableLocked b)) \<and> extends b (relieve (flushAvailableLocked b)) \<and>
    watched (relieve (flushAvailableLocked b)) \<and> packets (relieve (flushAvailableLocked b)) = packets b"
  using relieve_spec [of "flushAvailableLocked b"] flushAvailable_spec [OF assms(1-3)] assms(4,5)
  by (auto simp: reorder_ok_def intro: extends_trans)

text \<open>What \<open>push\<close> does: ignore, flush again, or insert.\<close>

lemma push_cases:
  assumes "push b p = Some b'"
  obtains (stale) e where "expectedSeq b = Some e" and "0x7fff < unat (seqOf p - e)" and "b' = b"
  | (duplicate) e where "expectedSeq b = Some e" and "hasPending b (seqOf p)"
      and "b' = relieve (flushAvailableLocked b)"
  | (orphan) "expectedSeq b = None" and "hasPending b (seqOf p)"
  | (fresh) "accepts b p" and "b' = relieve (flushAvailableLocked
      (b\<lparr>expectedSeq := Some (case expectedSeq b of None \<Rightarrow> seqOf p | Some e \<Rightarrow> e),
         pending := (seqOf p, p) # pending b\<rparr>))"
proof -
  have len: "4 \<le> length p" and seq: "parseRtpSequence p = Some (seqOf p)"
    using assms by (auto simp: push_def parseRtpSequence_eq split: if_splits)
  show thesis
  proof (cases "expectedSeq b")
    case None
    then show thesis
      using assms len orphan fresh
      by (cases "hasPending b (seqOf p)") (auto simp: push_def seq accepts_def hasPending_def)
  next
    case (Some e)
    show thesis
    proof (cases "0x7fff < unat (seqOf p - e)")
      case True
      with Some assms have "b' = b" by (simp add: push_def seq isStale_iff)
      with stale Some True show thesis by blast
    next
      case False
      have "b\<lparr>expectedSeq := Some e, pending := (seqOf p, p) # pending b\<rparr> =
          b\<lparr>pending := (seqOf p, p) # pending b\<rparr>" using Some by simp
      then have "relieve (flushAvailableLocked (b\<lparr>expectedSeq := Some e, pending := (seqOf p, p) # pending b\<rparr>)) =
          relieve (flushAvailableLocked (b\<lparr>pending := (seqOf p, p) # pending b\<rparr>))" by (rule arg_cong)
      moreover have "b' = relieve (flushAvailableLocked
          (if hasPending b (seqOf p) then b else b\<lparr>pending := (seqOf p, p) # pending b\<rparr>))"
        using Some assms False by (simp add: push_def seq isStale_iff)
      ultimately show thesis
        using duplicate [OF Some] fresh Some False len
        by (cases "hasPending b (seqOf p)") (simp_all add: accepts_def)
    qed
  qed
qed

lemma push_spec:
  assumes "reorder_ok b" and "push b p = Some b'"
  shows "reorder_ok b' \<and> extends b b' \<and> (watched b \<longrightarrow> watched b') \<and>
    packets b' = (if accepts b p then {#p#} else {#}) + packets b"
proof -
  have ok: "settled b" "length (pending b) \<le> maxPending" "armed b"
    using assms(1) by (simp_all add: reorder_ok_def)
  from assms(2) show ?thesis
  proof (cases rule: push_cases)
    case (stale e)
    with assms(1) show ?thesis by (auto simp: accepts_def)
  next
    case (duplicate e)
    with ok have "reorder_ok b' \<and> extends b b' \<and> watched b' \<and> packets b' = packets b"
      unfolding duplicate(3) by (intro relieve_flush [of b e]) (auto simp: settled_def)
    with duplicate(2) show ?thesis by (simp add: accepts_def)
  next
    case orphan
    with ok show ?thesis by (simp add: settled_def hasPending_def)
  next
    case fresh
    let ?e = "case expectedSeq b of None \<Rightarrow> seqOf p | Some e \<Rightarrow> e"
    let ?b = "b\<lparr>expectedSeq := Some ?e, pending := (seqOf p, p) # pending b\<rparr>"
    have "reorder_ok b' \<and> extends ?b b' \<and> watched b' \<and> packets b' = packets ?b"
      unfolding fresh(2) using insert_core [OF ok(1) fresh(1)] ok
      by (intro relieve_flush [of ?b ?e]) (simp_all add: armed_def)
    with fresh(1) show ?thesis by (simp add: packets_def extends_def)
  qed
qed

lemma timerCallback_spec:
  assumes "reorder_ok b"
  shows "reorder_ok (timerCallback b) \<and> extends b (timerCallback b) \<and> watched (timerCallback b) \<and>
    packets (timerCallback b) = packets b \<and>
    (pending b \<noteq> [] \<longrightarrow> length (emitted b) < length (emitted (timerCallback b)))"
proof -
  let ?b = "b\<lparr>flushTimer := None\<rparr>"
  have ok: "settled ?b" "length (pending ?b) \<le> maxPending" "armed ?b" "packets ?b = packets b" "extends b ?b"
    using assms settled_frame [of ?b b] by (simp_all add: reorder_ok_def armed_def extends_def)
  show ?thesis
  proof (cases "pending b = []")
    case True
    with ok show ?thesis by (simp add: timerCallback_def reorder_ok_def watched_def)
  next
    case False
    then have "lacksExpected ?b" using lacksExpected_settled [OF ok(1)] by simp
    from False have "pending ?b \<noteq> []" by simp
    from skip_spec [OF ok(1) this ok(3), unfolded ok(4)] obtain n where n: "findNearestPendingSequence ?b = Some n"
      "settled (flushAvailableLocked (?b\<lparr>expectedSeq := Some n\<rparr>))"
      "packets (flushAvailableLocked (?b\<lparr>expectedSeq := Some n\<rparr>)) = packets b"
      "extends ?b (flushAvailableLocked (?b\<lparr>expectedSeq := Some n\<rparr>))"
      "armed (flushAvailableLocked (?b\<lparr>expectedSeq := Some n\<rparr>))"
      "length (pending (flushAvailableLocked (?b\<lparr>expectedSeq := Some n\<rparr>))) < length (pending b)"
      by auto
    let ?c = "flushAvailableLocked (?b\<lparr>expectedSeq := Some n\<rparr>)"
    have eq: "timerCallback b = (if pending ?c \<noteq> [] \<and> lacksExpected ?c then armFlushTimerLocked ?c else ?c)"
      using False n(1) \<open>lacksExpected ?b\<close> by (simp add: timerCallback_def Let_def)
    note arm = arm_spec [OF n(2,5)]
    have "length (emitted b) + length (pending b) = length (emitted ?c) + length (pending ?c)"
      using arg_cong [OF n(3), of size] by (simp add: packets_def)
    with n(6) have "length (emitted b) < length (emitted ?c)" by simp
    with eq arm n(3,4,6) ok show ?thesis
      by (auto simp: reorder_ok_def extends_def)
  qed
qed

lemma flushRemainingLoop_spec:
  assumes "settled b" and "armed b" and "length (pending b) \<le> k"
  shows "settled (flushRemainingLoop k b) \<and> armed (flushRemainingLoop k b) \<and>
    pending (flushRemainingLoop k b) = [] \<and> packets (flushRemainingLoop k b) = packets b \<and>
    extends b (flushRemainingLoop k b)"
  using assms
proof (induction k arbitrary: b)
  case 0
  then show ?case by simp
next
  case (Suc k)
  show ?case
  proof (cases "pending b = []")
    case True
    with Suc.prems show ?thesis by simp
  next
    case False
    then have "lacksExpected b" using Suc.prems(1) lacksExpected_settled by blast
    from skip_spec [OF Suc.prems(1) False Suc.prems(2)] obtain n where n:
      "findNearestPendingSequence b = Some n"
      "settled (flushAvailableLocked (b\<lparr>expectedSeq := Some n\<rparr>))"
      "packets (flushAvailableLocked (b\<lparr>expectedSeq := Some n\<rparr>)) = packets b"
      "extends b (flushAvailableLocked (b\<lparr>expectedSeq := Some n\<rparr>))"
      "armed (flushAvailableLocked (b\<lparr>expectedSeq := Some n\<rparr>))"
      "length (pending (flushAvailableLocked (b\<lparr>expectedSeq := Some n\<rparr>))) < length (pending b)"
      by blast
    let ?c = "flushAvailableLocked (b\<lparr>expectedSeq := Some n\<rparr>)"
    have "flushRemainingLoop (Suc k) b = flushRemainingLoop k ?c"
      using False n(1) \<open>lacksExpected b\<close> by simp
    with Suc.IH [of ?c] n(2-6) Suc.prems(3) show ?thesis
      by (auto intro: extends_trans)
  qed
qed

lemma stop_spec: "reorder_ok b \<Longrightarrow> reorder_ok (stop b) \<and> packets (stop b) = packets b \<and> extends b (stop b)"
  using settled_frame [of "stop b" b] by (simp add: reorder_ok_def stop_def armed_def extends_def)

lemma close_spec:
  "reorder_ok b \<Longrightarrow> reorder_ok (close b) \<and> pending (close b) = [] \<and> packets (close b) = packets b \<and> extends b (close b)"
  using stop_spec [of b] flushRemainingLoop_spec [of "stop b" "length (pending (stop b))"]
  by (auto simp: close_def flushRemaining_def reorder_ok_def intro: extends_trans)

text \<open>The packets taken in along a run.\<close>

definition taken_by :: "reorder \<Rightarrow> event \<Rightarrow> byte list list" where
  "taken_by b ev = (case ev of Push p \<Rightarrow> if accepts b p then [p] else [] | _ \<Rightarrow> [])"

fun taken :: "reorder \<Rightarrow> event list \<Rightarrow> byte list list" where
  "taken b [] = []"
| "taken b (ev # evs) =
     taken_by b ev @ (case step b ev of None \<Rightarrow> [] | Some b' \<Rightarrow> taken b' evs)"

lemma step_spec:
  assumes "reorder_ok b" and "step b ev = Some b'"
  shows "reorder_ok b' \<and> extends b b' \<and> packets b' = packets b + mset (taken_by b ev) \<and>
    (watched b \<and> ev \<notin> {Stop, Close} \<longrightarrow> watched b')"
proof (cases ev)
  case (Push p)
  with push_spec [OF assms(1), of p b'] assms(2) show ?thesis by (simp add: taken_by_def)
next
  case (Expire t)
  then show ?thesis
    using assms settled_frame [of b' b]
    by (cases "t \<in> set (live b)")
      (auto simp: taken_by_def reorder_ok_def armed_def watched_def extends_def)
next
  case (Callback t)
  show ?thesis
  proof (cases "t \<in> set (inflight b)")
    case True
    let ?b = "b\<lparr>inflight := removeAll t (inflight b), flushTimer := None\<rparr>"
    have "timerCallback (b\<lparr>inflight := removeAll t (inflight b)\<rparr>) = timerCallback ?b"
      by (simp add: timerCallback_def)
    moreover have "reorder_ok ?b" "packets ?b = packets b" "extends b ?b"
      using assms(1) settled_frame [of ?b b] by (simp_all add: reorder_ok_def armed_def extends_def)
    ultimately show ?thesis
      using Callback True assms(2) timerCallback_spec [of ?b]
      by (auto simp: taken_by_def intro: extends_trans)
  next
    case False
    with Callback assms show ?thesis by (simp add: taken_by_def)
  qed
next
  case Stop
  with assms stop_spec [of b] show ?thesis by (simp add: taken_by_def)
next
  case Close
  with assms close_spec [of b] show ?thesis by (simp add: taken_by_def)
qed

lemma run_spec:
  assumes "reorder_ok b" and "run b evs = Some b'"
  shows "reorder_ok b' \<and> extends b b' \<and> packets b' = packets b + mset (taken b evs) \<and>
    (watched b \<and> set evs \<inter> {Stop, Close} = {} \<longrightarrow> watched b')"
  using assms
proof (induction evs arbitrary: b)
  case (Cons ev evs)
  then obtain c where c: "step b ev = Some c" "run c evs = Some b'" by (auto split: option.splits)
  from step_spec [OF Cons.prems(1) c(1)] Cons.IH [OF _ c(2)] c(1) show ?case
    by (auto intro: extends_trans simp: ac_simps)
qed simp

lemma reachable_ok:
  "run newUdpRtpReorderBuffer evs = Some b \<Longrightarrow>
   reorder_ok b \<and> packets b = mset (taken newUdpRtpReorderBuffer evs) \<and>
   (set evs \<inter> {Stop, Close} = {} \<longrightarrow> watched b)"
  using run_spec [OF reorder_ok_new, of evs b]
  by (auto simp: packets_def watched_def newUdpRtpReorderBuffer_def)

end
