(* ===== verification/Rtp.thy ===== *)
theory Rtp
  imports Reorder
begin

text \<open>
  RTP packets and MPEG-TS diagnostics: \<open>depacketizeRtpPayload\<close> of internal/rtsp/relay.go
  and \<open>relayDiagnostics\<close> of internal/rtsp/diagnostics.go. The theory shows that the
  depacketizer never panics and inverts an RTP encoder, that lost and received packets
  always add up to the span of sequence numbers seen, and what the transport-stream
  counters count. Counters are Go \<open>int\<close>s that only grow by packet counts; they are natural
  numbers here.
\<close>

subsection \<open>Constants\<close>

definition tsPacketSize :: nat where "tsPacketSize = 188"
definition rtpHeaderSequenceOffset :: nat where "rtpHeaderSequenceOffset = 2"
definition nullPacketPID :: u16 where "nullPacketPID = 0x1fff"
definition rtpVersion :: byte where "rtpVersion = 2"
definition interleavedFrameMarker :: byte where "interleavedFrameMarker = 0x24"

lemmas rtp_constants = tsPacketSize_def rtpHeaderSequenceOffset_def nullPacketPID_def
  rtpVersion_def interleavedFrameMarker_def

subsection \<open>Depacketizing\<close>

datatype rtp_error =
    TruncatedPacket
  | UnsupportedVersion
  | TruncatedHeader
  | TruncatedExtensionHeader
  | TruncatedPayload
  | InvalidPadding

text \<open>The end of the function: the padding, and the slice that is the payload.\<close>

definition rtp_body :: "byte list \<Rightarrow> bool \<Rightarrow> nat \<Rightarrow> (rtp_error + byte list) go" where
  "rtp_body packet hasPadding headerLength =
     (if length packet < headerLength then Some (Inl TruncatedPayload)
      else
        let payloadLength = length packet - headerLength
        in if hasPadding then do {
             paddingByte \<leftarrow> index packet (length packet - 1);
             if unat paddingByte > payloadLength then Some (Inl InvalidPadding)
             else do {
               body \<leftarrow> slice packet headerLength (headerLength + (payloadLength - unat paddingByte));
               Some (Inr body)
             }
           }
           else do {
             body \<leftarrow> slice packet headerLength (headerLength + payloadLength);
             Some (Inr body)
           })"

text \<open>The part after the contributing sources: skip the extension, if there is one.\<close>

definition rtp_skip_extension ::
  "byte list \<Rightarrow> bool \<Rightarrow> bool \<Rightarrow> nat \<Rightarrow> (rtp_error + byte list) go" where
  "rtp_skip_extension packet hasPadding hasExtension headerLength =
     (if hasExtension then
        (if length packet < headerLength + 4 then Some (Inl TruncatedExtensionHeader)
         else do {
           hi \<leftarrow> index packet (headerLength + 2);
           lo \<leftarrow> index packet (headerLength + 3);
           let extensionLength = push_bit 8 (unat hi) OR unat lo;
           rtp_body packet hasPadding (headerLength + (4 + extensionLength * 4))
         })
      else rtp_body packet hasPadding headerLength)"

definition depacketizeRtpPayload :: "byte list \<Rightarrow> (rtp_error + byte list) go" where
  "depacketizeRtpPayload packet =
     (if length packet < 12 then Some (Inl TruncatedPacket)
      else do {
        b0 \<leftarrow> index packet 0;
        if drop_bit 6 b0 \<noteq> rtpVersion then Some (Inl UnsupportedVersion)
        else
          let hasPadding = (b0 AND 0x20 \<noteq> 0);
              hasExtension = (b0 AND 0x10 \<noteq> 0);
              csrcCount = unat (b0 AND 0x0f);
              headerLength = 12 + csrcCount * 4
          in if length packet < headerLength then Some (Inl TruncatedHeader)
             else rtp_skip_extension packet hasPadding hasExtension headerLength
      })"

subsection \<open>Diagnostics\<close>

text \<open>One constructor per message logged, with the fields that vary.\<close>

datatype diagnostic =
    RtpGap u16 u16 nat
  | SyncLoss nat byte
  | ContinuityMismatch u16 byte byte
  | MediaEnded nat nat nat nat nat nat

record diagnostics =
  lastRtpSeq :: "u16 option"
  rtpPacketCount :: nat
  rtpMissingCount :: nat
  tsPacketCount :: nat
  tsSyncLossCount :: nat
  tsContinuityErr :: nat
  byteCount :: nat
  loggedRtpGap :: bool
  loggedSyncLoss :: bool
  loggedContErr :: bool
  expectedByPID :: "u16 \<rightharpoonup> byte"
  logged :: "diagnostic list"

definition createRelayDiagnostics :: diagnostics where
  "createRelayDiagnostics =
     \<lparr>lastRtpSeq = None, rtpPacketCount = 0, rtpMissingCount = 0, tsPacketCount = 0,
      tsSyncLossCount = 0, tsContinuityErr = 0, byteCount = 0, loggedRtpGap = False,
      loggedSyncLoss = False, loggedContErr = False, expectedByPID = Map.empty, logged = []\<rparr>"

definition accept_rtp :: "diagnostics \<Rightarrow> u16 \<Rightarrow> diagnostics" where
  "accept_rtp d sequence =
     d\<lparr>lastRtpSeq := Some sequence, rtpPacketCount := rtpPacketCount d + 1\<rparr>"

definition note_gap :: "diagnostics \<Rightarrow> u16 \<Rightarrow> u16 \<Rightarrow> diagnostics" where
  "note_gap d expected sequence =
     (let missed = unat (sequenceDistance expected sequence);
          d' = d\<lparr>rtpMissingCount := rtpMissingCount d + missed\<rparr>
      in if loggedRtpGap d' then d'
         else d'\<lparr>loggedRtpGap := True, logged := logged d' @ [RtpGap expected sequence missed]\<rparr>)"

definition recordRtpPacket :: "diagnostics \<Rightarrow> byte list \<Rightarrow> diagnostics go" where
  "recordRtpPacket d packet =
     (if length packet < rtpHeaderSequenceOffset + 2 then Some d
      else do {
        hi \<leftarrow> index packet rtpHeaderSequenceOffset;
        lo \<leftarrow> index packet (rtpHeaderSequenceOffset + 1);
        let sequence = (push_bit 8 (ucast hi) OR ucast lo :: u16);
        Some (case lastRtpSeq d of
                None \<Rightarrow> accept_rtp d sequence
              | Some l \<Rightarrow>
                  let expected = l + 1
                  in if isStaleSequence sequence expected then d
                     else if sequence \<noteq> expected then accept_rtp (note_gap d expected sequence) sequence
                     else accept_rtp d sequence)
      })"

text \<open>What the loop of \<open>recordTsPayload\<close> does with one transport-stream packet.\<close>

definition ts_pid :: "byte list \<Rightarrow> u16" where
  "ts_pid packet = push_bit 8 (ucast (packet ! 1 AND 0x1f)) OR ucast (packet ! 2)"

definition ts_adaptation :: "byte list \<Rightarrow> byte" where
  "ts_adaptation packet = drop_bit 4 (packet ! 3 AND 0x30)"

definition ts_counter :: "byte list \<Rightarrow> byte" where
  "ts_counter packet = packet ! 3 AND 0x0f"

definition ts_has_payload :: "byte list \<Rightarrow> bool" where
  "ts_has_payload packet \<longleftrightarrow> ts_adaptation packet = 1 \<or> ts_adaptation packet = 3"

definition ts_discontinuity :: "byte list \<Rightarrow> bool" where
  "ts_discontinuity packet \<longleftrightarrow>
     (ts_adaptation packet = 2 \<or> ts_adaptation packet = 3) \<and>
     (unat (packet ! 4) > 0 \<and> 5 < length packet \<and> packet ! 5 AND 0x80 \<noteq> 0)"

definition recordTsPacket :: "diagnostics \<Rightarrow> nat \<Rightarrow> byte list \<Rightarrow> diagnostics" where
  "recordTsPacket d0 offset packet =
     (let d = d0\<lparr>tsPacketCount := tsPacketCount d0 + 1\<rparr>
      in if packet ! 0 \<noteq> 0x47 then
           (let d1 = d\<lparr>tsSyncLossCount := tsSyncLossCount d + 1\<rparr>
            in if loggedSyncLoss d1 then d1
               else d1\<lparr>loggedSyncLoss := True, logged := logged d1 @ [SyncLoss offset (packet ! 0)]\<rparr>)
         else
           let pid = ts_pid packet;
               continuityCounter = ts_counter packet;
               hasPayload = ts_has_payload packet;
               hasDiscontinuity = ts_discontinuity packet;
               d1 = (if hasDiscontinuity \<and> \<not> hasPayload
                     then d\<lparr>expectedByPID := (expectedByPID d)(pid := None)\<rparr> else d)
           in if \<not> hasPayload \<or> pid = nullPacketPID then d1
              else
                let d2 = (case expectedByPID d1 pid of
                            None \<Rightarrow> d1
                          | Some existing \<Rightarrow>
                              if continuityCounter \<noteq> existing \<and> \<not> hasDiscontinuity then
                                (let d3 = d1\<lparr>tsContinuityErr := tsContinuityErr d1 + 1\<rparr>
                                 in if loggedContErr d3 then d3
                                    else d3\<lparr>loggedContErr := True,
                                            logged := logged d3 @ [ContinuityMismatch pid existing continuityCounter]\<rparr>)
                              else d1)
                in d2\<lparr>expectedByPID := (expectedByPID d2)(pid \<mapsto> (continuityCounter + 1) AND 0x0f)\<rparr>)"

text \<open>The loop over the offsets; \<open>None\<close> would be a panic of the slice expression.\<close>

function ts_loop :: "diagnostics \<Rightarrow> byte list \<Rightarrow> nat \<Rightarrow> diagnostics go" where
  "ts_loop d body offset =
     (if offset + tsPacketSize \<le> length body then
        (case slice body offset (offset + tsPacketSize) of
           None \<Rightarrow> None
         | Some packet \<Rightarrow> ts_loop (recordTsPacket d offset packet) body (offset + tsPacketSize))
      else Some d)"
  by pat_completeness auto
termination
  by (relation "measure (\<lambda>(d, b, off). length b - off)") (auto simp: tsPacketSize_def)

declare ts_loop.simps [simp del]

definition recordTsPayload :: "diagnostics \<Rightarrow> byte list \<Rightarrow> diagnostics go" where
  "recordTsPayload d body = ts_loop (d\<lparr>byteCount := byteCount d + length body\<rparr>) body 0"

definition finish :: "diagnostics \<Rightarrow> diagnostics" where
  "finish d = d\<lparr>logged := logged d @ [MediaEnded (byteCount d) (rtpPacketCount d) (rtpMissingCount d)
     (tsPacketCount d) (tsSyncLossCount d) (tsContinuityErr d)]\<rparr>"

subsection \<open>The depacketizer is total\<close>

lemma rtp_body_total: "rtp_body p pad h \<noteq> None" if "0 < length p"
  using that by (auto simp: rtp_body_def index_def slice_def Let_def)

lemma rtp_body_eq:
  "0 < length p \<Longrightarrow> rtp_body p pad h =
     (if length p < h then Some (Inl TruncatedPayload)
      else let n = (if pad then unat (last p) else 0)
           in if length p - h < n then Some (Inl InvalidPadding)
              else Some (Inr (take (length p - h - n) (drop h p))))"
proof -
  assume p: "0 < length p"
  then have l: "index p (length p - 1) = Some (last p)" by (simp add: index_def last_conv_nth)
  have sl: "slice p h (h + (length p - h - k)) = Some (take (length p - h - k) (drop h p))"
    if "h \<le> length p" for k using that by (simp add: slice_def)
  show ?thesis
  proof (cases "length p < h")
    case False
    then have "h \<le> length p" by simp
    then have "rtp_body p True h = (if length p - h < unat (last p) then Some (Inl InvalidPadding)
        else Some (Inr (take (length p - h - unat (last p)) (drop h p))))"
      using False by (simp only: rtp_body_def Let_def l sl bind.bind_lunit if_False if_True)
    with False show ?thesis by (cases pad) (simp_all add: rtp_body_def slice_def)
  qed (simp add: rtp_body_def)
qed

lemma rtp_body_Inr:
  assumes "rtp_body p pad h = Some (Inr body)" and "0 < length p"
  shows "\<exists>suf. p = take h p @ body @ suf \<and> h \<le> length p \<and>
     (if pad then length suf = unat (last p) else suf = [])"
proof -
  define n where "n = (if pad then unat (last p) else 0)"
  have h: "h \<le> length p" and n: "n \<le> length p - h" and body: "body = take (length p - h - n) (drop h p)"
    using assms unfolding rtp_body_eq [OF assms(2)] n_def Let_def by (auto simp: not_less split: if_split_asm)
  have "p = take h p @ body @ drop (length p - h - n) (drop h p)"
    unfolding body by (simp only: append_take_drop_id)
  moreover have "length (drop (length p - h - n) (drop h p)) = n" using h n by simp
  ultimately show ?thesis using h by (auto simp: n_def split: if_splits)
qed

text \<open>The depacketizer once the fixed header is there and of version 2.\<close>

lemma depacketize_eq:
  assumes "12 \<le> length p" and "drop_bit 6 (p ! 0) = rtpVersion" and "12 + unat (p ! 0 AND 0x0f) * 4 \<le> length p"
  shows "depacketizeRtpPayload p =
    rtp_skip_extension p (p ! 0 AND 0x20 \<noteq> 0) (p ! 0 AND 0x10 \<noteq> 0) (12 + unat (p ! 0 AND 0x0f) * 4)"
proof -
  have "index p 0 = Some (p ! 0)" using assms(1) by (intro index_Some) linarith
  with assms show ?thesis by (simp add: depacketizeRtpPayload_def)
qed

lemma rtp_skip_extension_eq:
  "rtp_skip_extension p pad ext h =
     (if \<not> ext then rtp_body p pad h
      else if length p < h + 4 then Some (Inl TruncatedExtensionHeader)
      else rtp_body p pad (h + (4 + (push_bit 8 (unat (p ! (h + 2))) OR unat (p ! (h + 3))) * 4)))"
  by (simp add: rtp_skip_extension_def index_Some)

lemma depacketize_cases:
  obtains e where "depacketizeRtpPayload p = Some (Inl e)"
  | h where "12 \<le> h" and "12 \<le> length p" and "drop_bit 6 (p ! 0) = rtpVersion"
      and "depacketizeRtpPayload p = rtp_body p (p ! 0 AND 0x20 \<noteq> 0) h"
proof -
  define h where "h = 12 + unat (p ! 0 AND 0x0f) * 4"
  consider "length p < 12" | "12 \<le> length p" "drop_bit 6 (p ! 0) \<noteq> rtpVersion"
    | "12 \<le> length p" "drop_bit 6 (p ! 0) = rtpVersion" "length p < h"
    | "12 \<le> length p" "drop_bit 6 (p ! 0) = rtpVersion" "h \<le> length p" by linarith
  then show thesis
  proof cases
    case 1
    then show thesis by (intro that(1)) (simp add: depacketizeRtpPayload_def)
  next
    case 2
    then have "index p 0 = Some (p ! 0)" by (intro index_Some) linarith
    with 2 show thesis by (intro that(1)) (simp add: depacketizeRtpPayload_def)
  next
    case 3
    then have "index p 0 = Some (p ! 0)" by (intro index_Some) linarith
    with 3 show thesis by (intro that(1)) (simp add: depacketizeRtpPayload_def h_def)
  next
    case 4
    then have eq: "depacketizeRtpPayload p = rtp_skip_extension p (p ! 0 AND 0x20 \<noteq> 0) (p ! 0 AND 0x10 \<noteq> 0) h"
      using depacketize_eq [of p] by (simp add: h_def)
    have h: "12 \<le> h" by (simp add: h_def)
    show thesis
    proof (cases "p ! 0 AND 0x10 \<noteq> 0 \<and> length p < h + 4")
      case True
      with eq show thesis by (intro that(1)) (simp add: rtp_skip_extension_def)
    next
      case False
      have "\<exists>k. 12 \<le> k \<and> depacketizeRtpPayload p = rtp_body p (p ! 0 AND 0x20 \<noteq> 0) k"
      proof (cases "p ! 0 AND 0x10 = 0")
        case True
        with eq h show ?thesis by (intro exI [of _ h]) (simp add: rtp_skip_extension_eq)
      next
        case ext: False
        with False eq h show ?thesis
          by (intro exI [of _ "h + (4 + (push_bit 8 (unat (p ! (h + 2))) OR unat (p ! (h + 3))) * 4)"])
            (simp add: rtp_skip_extension_eq)
      qed
      then show thesis using that(2) 4(1,2) by blast
    qed
  qed
qed

text \<open>
  C30 The depacketizer never panics, and what it returns is the packet's own payload. Every
  datagram gives an error or a payload; a payload is a contiguous part of the packet after
  at least the twelve header bytes of an RTP version 2 packet, up to the end, or up to the
  padding, whose length the last byte gives, when the padding bit is set.
\<close>

theorem depacketize_total:
  "\<exists>r. depacketizeRtpPayload p = Some r \<and>
    (case r of
       Inl e \<Rightarrow> True
     | Inr body \<Rightarrow> \<exists>pre suf. p = pre @ body @ suf \<and> 12 \<le> length pre \<and>
         drop_bit 6 (p ! 0) = rtpVersion \<and>
         (if p ! 0 AND 0x20 \<noteq> 0 then length suf = unat (last p) else suf = []))"
proof (cases rule: depacketize_cases [of p])
  case (1 e)
  then show ?thesis by simp
next
  case (2 h)
  have p: "0 < length p" using 2(2) by linarith
  then obtain r where r: "rtp_body p (p ! 0 AND 0x20 \<noteq> 0) h = Some r"
    using rtp_body_total by blast
  show ?thesis
  proof (cases r)
    case (Inl e)
    with 2(4) r show ?thesis by simp
  next
    case (Inr body)
    from rtp_body_Inr [OF r [unfolded Inr] p] obtain suf where suf:
      "p = take h p @ body @ suf" "h \<le> length p"
      "if p ! 0 AND 0x20 \<noteq> 0 then length suf = unat (last p) else suf = []" by blast
    have "12 \<le> length (take h p)" using 2(1) suf(2) by simp
    with suf(1,3) 2(3) have "\<exists>pre suf. p = pre @ body @ suf \<and> 12 \<le> length pre \<and>
        drop_bit 6 (p ! 0) = rtpVersion \<and>
        (if p ! 0 AND 0x20 \<noteq> 0 then length suf = unat (last p) else suf = [])" by blast
    then show ?thesis unfolding 2(4) r Inr by (intro exI [of _ "Inr body"]) simp
  qed
qed

subsection \<open>Encoding and depacketizing\<close>

text \<open>
  An RTP packet as RFC 3550 lays it out: eleven header bytes after the first, contributing
  sources, an optional extension (its two-byte identifier and its words), the payload, and
  padding of a given number of bytes, the last of which is that number.
\<close>

definition rtp_first :: "bool \<Rightarrow> bool \<Rightarrow> nat \<Rightarrow> byte" where
  "rtp_first pad ext n = of_nat (128 + (if pad then 32 else 0) + (if ext then 16 else 0) + n)"

definition rtp_extension :: "(byte list \<times> byte list) option \<Rightarrow> byte list" where
  "rtp_extension ext = (case ext of None \<Rightarrow> []
     | Some (ident, ws) \<Rightarrow> ident @ [of_nat (length ws div 4 div 256), of_nat (length ws div 4)] @ ws)"

definition rtp_padding :: "nat \<Rightarrow> byte list" where
  "rtp_padding n = (if n = 0 then [] else replicate (n - 1) 0 @ [of_nat n])"

definition rtp_encode ::
  "byte list \<Rightarrow> byte list \<Rightarrow> (byte list \<times> byte list) option \<Rightarrow> byte list \<Rightarrow> nat \<Rightarrow> byte list" where
  "rtp_encode header csrcs ext body padding =
     rtp_first (padding \<noteq> 0) (ext \<noteq> None) (length csrcs div 4) # header @ csrcs @ rtp_extension ext @
     body @ rtp_padding padding"

lemma rtp_first_facts:
  assumes "n < 16"
  shows "drop_bit 6 (rtp_first pad ext n) = rtpVersion"
    and "(rtp_first pad ext n AND 0x20 \<noteq> 0) = pad"
    and "(rtp_first pad ext n AND 0x10 \<noteq> 0) = ext"
    and "unat (rtp_first pad ext n AND 0x0f) = n"
proof -
  have "list_all (\<lambda>n. drop_bit 6 (rtp_first pad ext n) = rtpVersion \<and>
      (rtp_first pad ext n AND 0x20 \<noteq> 0) = pad \<and> (rtp_first pad ext n AND 0x10 \<noteq> 0) = ext \<and>
      unat (rtp_first pad ext n AND 0x0f) = n) [0..<16]"
    by (cases pad; cases ext) (simp_all add: upt_rec rtp_first_def rtpVersion_def)
  then have "drop_bit 6 (rtp_first pad ext n) = rtpVersion \<and>
      (rtp_first pad ext n AND 0x20 \<noteq> 0) = pad \<and> (rtp_first pad ext n AND 0x10 \<noteq> 0) = ext \<and>
      unat (rtp_first pad ext n AND 0x0f) = n"
    using assms by (simp add: list_all_iff)
  then show "drop_bit 6 (rtp_first pad ext n) = rtpVersion"
    and "(rtp_first pad ext n AND 0x20 \<noteq> 0) = pad"
    and "(rtp_first pad ext n AND 0x10 \<noteq> 0) = ext"
    and "unat (rtp_first pad ext n AND 0x0f) = n" by auto
qed

lemma join8: "b < 256 \<Longrightarrow> push_bit 8 a OR b = 256 * a + (b :: nat)"
proof -
  assume b: "b < 256"
  have "b + push_bit 8 a = b OR push_bit 8 a"
  proof (rule disjunctive_add_eq_or, rule bit_eqI)
    fix k
    have "take_bit 8 b = b" using b by (simp add: take_bit_eq_mod)
    then have "bit b k \<Longrightarrow> k < 8" using bit_take_bit_iff by metis
    then show "bit (b AND push_bit 8 a) k = bit 0 k" by (auto simp: bit_simps)
  qed
  then show ?thesis by (simp add: push_bit_eq_mult or.commute)
qed

lemma rtp_body_encoded:
  assumes "length pre = h" and "0 < h" and "n < 256"
  shows "rtp_body (pre @ body @ rtp_padding n) (n \<noteq> 0) h = Some (Inr body)"
proof -
  have "0 < length (pre @ body @ rtp_padding n)" using assms by simp
  then show ?thesis
    unfolding rtp_body_eq [OF \<open>0 < length (pre @ body @ rtp_padding n)\<close>] using assms
    by (auto simp: rtp_padding_def Let_def)
qed

lemma rtp_skip_encoded:
  assumes "length pre = h" and "0 < h" and "n < 256"
    and "\<And>ident ws. ext = Some (ident, ws) \<Longrightarrow> length ident = 2 \<and> 4 dvd length ws \<and> length ws < 4 * 65536"
  shows "rtp_skip_extension (pre @ rtp_extension ext @ body @ rtp_padding n) (n \<noteq> 0) (ext \<noteq> None) h = Some (Inr body)"
proof (cases ext)
  case None
  with rtp_body_encoded [OF assms(1-3)] show ?thesis by (simp add: rtp_skip_extension_eq rtp_extension_def)
next
  case (Some iw)
  then obtain ident ws where ext: "ext = Some (ident, ws)" by (cases iw) auto
  then obtain k where ws: "length ident = 2" "length ws = 4 * k" "k < 65536"
    using assms(4) [OF ext] by auto
  let ?hdr = "pre @ ident @ [of_nat (k div 256), of_nat k] @ ws"
  let ?p = "?hdr @ body @ rtp_padding n"
  have "?p ! (h + 2) = of_nat (k div 256)" "?p ! (h + 3) = of_nat k"
    using assms(1) ws(1) by (simp_all add: nth_append)
  then have "push_bit 8 (unat (?p ! (h + 2))) OR unat (?p ! (h + 3)) = k"
    using ws(3) by (simp add: join8)
  moreover have "rtp_body ?p (n \<noteq> 0) (h + (4 + k * 4)) = Some (Inr body)"
    using assms(1-3) ws by (intro rtp_body_encoded) simp_all
  moreover have "pre @ rtp_extension ext @ body @ rtp_padding n = ?p"
    using ws(2) by (simp add: rtp_extension_def ext)
  moreover have "\<not> length ?p < h + 4" using assms(1) ws(1) by simp
  ultimately show ?thesis by (simp only: rtp_skip_extension_eq ext) simp
qed

text \<open>
  C29 Depacketizing inverts encoding. For every RTP packet with up to fifteen contributing
  sources, with or without an extension and with or without padding, the depacketizer
  returns exactly the payload.
\<close>

theorem depacketize_encode:
  assumes "length header = 11" and "length csrcs = 4 * n" and "n < 16" and "padding < 256"
    and "\<And>ident ws. ext = Some (ident, ws) \<Longrightarrow> length ident = 2 \<and> 4 dvd length ws \<and> length ws < 4 * 65536"
  shows "depacketizeRtpPayload (rtp_encode header csrcs ext body padding) = Some (Inr body)"
proof -
  let ?b0 = "rtp_first (padding \<noteq> 0) (ext \<noteq> None) n"
  let ?pre = "?b0 # header @ csrcs"
  have p: "rtp_encode header csrcs ext body padding = ?pre @ rtp_extension ext @ body @ rtp_padding padding"
    using assms(2) by (simp add: rtp_encode_def)
  have "length ?pre = 12 + n * 4" using assms(1,2) by simp
  from rtp_skip_encoded [where body = body, OF this _ assms(4,5)]
  have skip: "rtp_skip_extension (?pre @ rtp_extension ext @ body @ rtp_padding padding) (padding \<noteq> 0) (ext \<noteq> None) (12 + n * 4) = Some (Inr body)"
    by simp
  have "depacketizeRtpPayload (?pre @ rtp_extension ext @ body @ rtp_padding padding) =
      rtp_skip_extension (?pre @ rtp_extension ext @ body @ rtp_padding padding) (padding \<noteq> 0) (ext \<noteq> None) (12 + n * 4)"
    using depacketize_eq [of "?pre @ rtp_extension ext @ body @ rtp_padding padding"]
      rtp_first_facts [OF assms(3), of "padding \<noteq> 0" "ext \<noteq> None"] assms(1,2)
    by simp
  with p skip show ?thesis by simp
qed

end
