(* ===== verification/Reorder_Properties.thy ===== *)
theory Reorder_Properties
  imports Reorder
begin

text \<open>
  The properties of the RTP reorder buffer of internal/rtsp/diagnostics.go, over every run
  of events: its invariant, conservation of packets, progress, when it panics, the order it
  restores, and what stopping it does not do.
\<close>

subsection \<open>Properties of the reorder buffer\<close>

text \<open>
  C26 The invariant of the reorder buffer. Whatever packets arrive and however timers
  expire, run or are stopped: at most 64 packets are held back, under distinct sequence
  numbers, each its packet's own, each less than half the number space ahead of the
  expected one and different from it; what was emitted only ever moves forward, each
  packet at most half the number space ahead of the one before; the timer the buffer
  remembers is live or its callback is about to run; and, the buffer not having been
  stopped, there is a live timer or a callback about to run whenever packets are held back.
\<close>

theorem reorder_invariant:
  assumes "run newUdpRtpReorderBuffer evs = Some b"
  shows "length (pending b) \<le> 64 \<and> distinct (map fst (pending b)) \<and>
    (\<forall>(s, p) \<in> set (pending b). seqOf p = s \<and>
       (\<exists>e. expectedSeq b = Some e \<and> s \<noteq> e \<and> \<not> isStaleSequence s e)) \<and>
    successively ahead (map seqOf (emitted b)) \<and>
    (\<forall>t. flushTimer b = Some t \<longrightarrow> t \<in> set (live b) \<union> set (inflight b)) \<and>
    (set evs \<inter> {Stop, Close} = {} \<longrightarrow> pending b \<noteq> [] \<longrightarrow> live b \<noteq> [] \<or> inflight b \<noteq> [])"
proof -
  note ok = reachable_ok [OF assms]
  then have "armed b" and "set evs \<inter> {Stop, Close} = {} \<longrightarrow> watched b" by (auto simp: reorder_ok_def)
  moreover have "length (pending b) \<le> 64 \<and> distinct (map fst (pending b)) \<and>
    (\<forall>(s, p) \<in> set (pending b). seqOf p = s \<and>
       (\<exists>e. expectedSeq b = Some e \<and> s \<noteq> e \<and> \<not> isStaleSequence s e)) \<and>
    successively ahead (map seqOf (emitted b))"
    using ok
    by (auto simp: reorder_ok_def settled_def core_def keyed_def maxPending_def isStale_iff map_of_eq_None_iff
        not_less split: option.splits) force+
  ultimately show ?thesis by (simp add: armed_def watched_def)
qed

text \<open>
  C27 No packet is lost or repeated. At every moment the packets emitted and the packets
  held back are together exactly those \<open>push\<close> took in; closing the buffer emits all the
  rest.
\<close>

theorem reorder_conserves:
  assumes "run newUdpRtpReorderBuffer evs = Some b"
  shows "mset (emitted b) + mset (map snd (pending b)) = mset (taken newUdpRtpReorderBuffer evs) \<and>
    pending (close b) = [] \<and> mset (emitted (close b)) = mset (taken newUdpRtpReorderBuffer evs)"
proof -
  note r = reachable_ok [OF assms]
  then have c: "pending (close b) = []" "packets (close b) = packets b" using close_spec by blast+
  then have "mset (emitted (close b)) = packets b" by (simp add: packets_def [of "close b"])
  with r c(1) show ?thesis by (simp add: packets_def)
qed

text \<open>
  C28 No packet is stuck. As long as the buffer has not been stopped, whenever packets are
  held back there is a flush timer that is still live or whose callback is about to run;
  and a callback that runs while packets are held back emits at least one.
\<close>

theorem reorder_never_stuck:
  assumes "run newUdpRtpReorderBuffer evs = Some b" and "set evs \<inter> {Stop, Close} = {}"
    and "pending b \<noteq> []"
  shows "(live b \<noteq> [] \<or> inflight b \<noteq> []) \<and>
    length (emitted b) < length (emitted (timerCallback b))"
  using reachable_ok [OF assms(1)] assms(2,3) timerCallback_spec [of b] by (simp add: watched_def)

lemma step_None_iff: "step b ev = None \<longleftrightarrow> (\<exists>p. ev = Push p \<and> length p < 4)"
  by (cases ev) (auto simp: push_def parseRtpSequence_eq Let_def)

text \<open>
  When the buffer panics. A run panics exactly when a datagram shorter than four bytes
  is pushed: nothing before the sequence number is read checks the length.
\<close>

theorem reorder_panics_iff:
  "run b evs = None \<longleftrightarrow> (\<exists>p. Push p \<in> set evs \<and> length p < 4)"
proof (induction evs arbitrary: b)
  case (Cons ev evs)
  show ?case
  proof (cases "step b ev")
    case None
    then show ?thesis using step_None_iff [of b ev] None by (auto simp del: step.simps)
  next
    case (Some c)
    then have "\<not> (\<exists>p. ev = Push p \<and> length p < 4)" using step_None_iff by (metis option.distinct(1))
    with Some Cons show ?thesis by (auto simp del: step.simps)
  qed
qed simp

subsection \<open>A shuffled burst comes out in order\<close>

definition burst :: "reorder \<Rightarrow> u16 \<Rightarrow> byte list list \<Rightarrow> bool" where
  "burst b s qs \<longleftrightarrow> reorder_ok b \<and> packets b = mset qs \<and>
     (\<exists>k. expectedSeq b = Some (s + of_nat k) \<and> map seqOf (emitted b) = map (\<lambda>i. s + of_nat i) [0..<k])"

lemma flushLoop_consecutive:
  "core b e \<Longrightarrow> \<exists>k. expectedSeq (flushLoop b e) = Some (e + of_nat k) \<and>
     map seqOf (emitted (flushLoop b e)) = map seqOf (emitted b) @ map (\<lambda>i. e + of_nat i) [0..<k]"
proof (induction b e rule: flushLoop.induct)
  case (1 b e)
  show ?case
  proof (cases "map_of (pending b) e")
    case None
    then show ?thesis by (intro exI [of _ 0]) (simp add: flushLoop_None)
  next
    case (Some p)
    from 1(1) [OF Some core_emit(1) [OF 1(2) Some]] core_emit(2) [OF 1(2) Some] obtain k where
      "expectedSeq (flushLoop b e) = Some (e + 1 + of_nat k)"
      "map seqOf (emitted (flushLoop b e)) = map seqOf (emitted b) @ e # map (\<lambda>i. e + 1 + of_nat i) [0..<k]"
      by (auto simp: flushLoop_Some [OF Some])
    moreover have "map (\<lambda>i. e + of_nat i) [0..<Suc k] = e # map (\<lambda>i. e + 1 + of_nat i) [0..<k]"
      by (subst upt_conv_Cons, simp) (simp add: map_Suc_upt [symmetric] del: upt_Suc)
    ultimately show ?thesis by (intro exI [of _ "Suc k"]) (simp del: upt_Suc add: add.assoc)
  qed
qed

lemma burst_flush:
  assumes "expectedSeq b = Some (s + of_nat k)" and "core b (s + of_nat k)"
    and "map seqOf (emitted b) = map (\<lambda>i. s + of_nat i) [0..<k]"
    and "length (pending b) \<le> maxPending"
  shows "\<exists>k'. expectedSeq (relieve (flushAvailableLocked b)) = Some (s + of_nat k') \<and>
    map seqOf (emitted (relieve (flushAvailableLocked b))) = map (\<lambda>i. s + of_nat i) [0..<k']"
proof -
  let ?f = "flushAvailableLocked b" and ?l = "flushLoop b (s + of_nat k)"
  have f: "expectedSeq ?f = expectedSeq ?l" "emitted ?f = emitted ?l" "pending ?f = pending ?l"
    using assms(1) by (simp_all add: flushAvailableLocked_def Let_def)
  have "length (pending ?f) \<le> maxPending"
    using f(3) flushLoop_frame [of b "s + of_nat k"] assms(4) by simp
  then have r: "expectedSeq (relieve ?f) = expectedSeq ?f" "emitted (relieve ?f) = emitted ?f"
    by (simp_all add: relieve_def Let_def)
  obtain m where m: "expectedSeq ?l = Some (s + of_nat k + of_nat m)"
    "map seqOf (emitted ?l) = map seqOf (emitted b) @ map (\<lambda>i. s + of_nat k + of_nat i) [0..<m]"
    using flushLoop_consecutive [OF assms(2)] by blast
  have "map (\<lambda>i. s + of_nat i) [0..<k + m] =
      map (\<lambda>i. s + of_nat i) [0..<k] @ map (\<lambda>i. s + of_nat k + of_nat i) [0..<m]"
    by (rule nth_equalityI) (auto simp: nth_append)
  with m f r assms(3) show ?thesis by (intro exI [of _ "k + m"]) (simp add: add.assoc)
qed

lemma packets_set: "set (emitted b) \<union> snd ` set (pending b) = set_mset (packets b)"
  by (simp add: packets_def)

lemma packets_length: "length (emitted b) + length (pending b) = size (packets b)"
  by (simp add: packets_def)

lemma push_Some: "4 \<le> length p \<Longrightarrow> \<exists>b'. push b p = Some b'"
  using step_None_iff [of b "Push p"] by (cases "push b p") auto

lemma burst_first:
  assumes "4 \<le> length p"
  shows "\<exists>b'. push newUdpRtpReorderBuffer p = Some b' \<and> burst b' (seqOf p) [p]"
proof -
  let ?n = newUdpRtpReorderBuffer and ?b = "newUdpRtpReorderBuffer\<lparr>expectedSeq := Some (seqOf p), pending := [(seqOf p, p)]\<rparr>"
  obtain b' where b': "push ?n p = Some b'" using push_Some [OF assms] by blast
  have acc: "accepts ?n p" using assms by (simp add: accepts_def newUdpRtpReorderBuffer_def hasPending_def)
  have new: "expectedSeq ?n = None" "pending ?n = []" "emitted ?n = []" "settled ?n"
    using reorder_ok_new by (simp_all add: newUdpRtpReorderBuffer_def reorder_ok_def)
  have "b' = relieve (flushAvailableLocked ?b)"
    using b' by (cases rule: push_cases) (simp_all add: new hasPending_def)
  moreover have "core ?b (seqOf p + of_nat 0)"
    using insert_core(1) [OF new(4) acc] new by simp
  ultimately have "\<exists>k. expectedSeq b' = Some (seqOf p + of_nat k) \<and> map seqOf (emitted b') = map (\<lambda>i. seqOf p + of_nat i) [0..<k]"
    using burst_flush [of ?b "seqOf p" 0] new by (simp add: maxPending_def)
  moreover have "reorder_ok b' \<and> packets b' = {#p#}"
    using push_spec [OF reorder_ok_new b'] acc new by (simp add: packets_def)
  ultimately show ?thesis using b' by (simp add: burst_def)
qed

lemma burst_push:
  assumes "burst b s qs" and "4 \<le> length p" and "seqOf p \<notin> seqOf ` set qs"
    and "unat (seqOf p - s) \<le> 64" and "length qs \<le> 64"
  shows "\<exists>b'. push b p = Some b' \<and> burst b' s (qs @ [p])"
proof -
  from assms(1) obtain k where ok: "reorder_ok b" "packets b = mset qs"
    and e: "expectedSeq b = Some (s + of_nat k)"
    and out: "map seqOf (emitted b) = map (\<lambda>i. s + of_nat i) [0..<k]"
    unfolding burst_def by blast
  from ok(1) e have st: "settled b" "core b (s + of_nat k)" "emitted b \<noteq> []"
    by (auto simp: reorder_ok_def settled_def)
  have known: "set (emitted b) \<union> snd ` set (pending b) = set qs"
    by (simp add: packets_set ok(2))
  let ?j = "unat (seqOf p - s)"
  have j: "seqOf p = s + of_nat ?j" by simp
  have "k \<le> ?j"
  proof (rule ccontr)
    assume "\<not> k \<le> ?j"
    then have "s + of_nat ?j \<in> (\<lambda>i. s + of_nat i) ` set [0..<k]" by (intro imageI) simp
    then have "s + of_nat ?j \<in> set (map seqOf (emitted b))" unfolding out set_map .
    then show False using assms(3) known j by auto
  qed
  then have "unat (s + of_nat k - s) = k"
    using assms(4) by (simp add: unsigned_of_nat take_bit_nat_eq_self)
  then have near: "unat (seqOf p - (s + of_nat k)) \<le> 0x7fff"
    using dist_sub [of "s + of_nat k" s "seqOf p"] \<open>k \<le> ?j\<close> assms(4) by simp
  have fresh: "\<not> hasPending b (seqOf p)"
  proof
    assume "hasPending b (seqOf p)"
    then obtain q where "(seqOf p, q) \<in> set (pending b)" by (auto simp: hasPending_def dest: map_of_SomeD)
    moreover from this have "snd (seqOf p, q) \<in> snd ` set (pending b)" by (rule imageI)
    then have "q \<in> set qs" using known by auto
    moreover have "\<forall>(s, p) \<in> set (pending b). seqOf p = s" using st(2) by (auto simp: core_def keyed_def)
    ultimately show False using assms(3) by auto
  qed
  have acc: "accepts b p" using assms(2) e near fresh by (simp add: accepts_def)
  obtain b' where b': "push b p = Some b'" using push_Some [OF assms(2)] by blast
  let ?b = "b\<lparr>expectedSeq := Some (s + of_nat k), pending := (seqOf p, p) # pending b\<rparr>"
  have "b' = relieve (flushAvailableLocked ?b)"
    using b' near fresh e by (cases rule: push_cases) (simp_all)
  moreover have "core ?b (s + of_nat k)" using insert_core(1) [OF st(1) acc] e by simp
  moreover have "length (pending ?b) \<le> maxPending"
    using packets_length [of b] ok(2) st(3) assms(5) by (cases "emitted b") (simp_all add: maxPending_def)
  ultimately have "\<exists>k. expectedSeq b' = Some (s + of_nat k) \<and> map seqOf (emitted b') = map (\<lambda>i. s + of_nat i) [0..<k]"
    using burst_flush [of ?b s k] out by simp
  then show ?thesis
    using b' push_spec [OF ok(1) b'] acc ok(2) by (simp add: burst_def)
qed

lemma burst_pushes:
  assumes "burst b s qs" and "\<forall>p \<in> set ps. 4 \<le> length p \<and> unat (seqOf p - s) \<le> 64"
    and "distinct (map seqOf (qs @ ps))" and "length (qs @ ps) \<le> 65"
  shows "\<exists>b'. run b (map Push ps) = Some b' \<and> burst b' s (qs @ ps)"
  using assms
proof (induction ps arbitrary: b qs)
  case (Cons p ps)
  then obtain b1 where b1: "push b p = Some b1" "burst b1 s (qs @ [p])"
    using burst_push [of b s qs p] by auto
  with Cons.IH [OF b1(2)] Cons.prems show ?case by simp
qed simp

lemma shuffled_burst:
  assumes "\<forall>p \<in> set (p # ps). 4 \<le> length p"
    and "length (p # ps) = n" and "n \<le> 65"
    and "seqOf ` set (p # ps) = (\<lambda>i. seqOf p + of_nat i) ` {0..<n}"
  shows "\<exists>b. run newUdpRtpReorderBuffer (map Push (p # ps)) = Some b \<and> pending b = [] \<and>
    mset (emitted b) = mset (p # ps) \<and>
    map seqOf (emitted b) = map (\<lambda>i. seqOf p + of_nat i) [0..<n]"
proof -
  let ?s = "seqOf p"
  have small: "unat (of_nat i :: u16) = i" if "i < n" for i
    using that assms(3) by (simp add: unsigned_of_nat take_bit_nat_eq_self)
  have inj: "inj_on (\<lambda>i. ?s + of_nat i) {0..<n}"
    using small by (intro inj_onI) (metis add_left_cancel atLeastLessThan_iff)
  then have "card (seqOf ` set (p # ps)) = length (map seqOf (p # ps))"
    using assms(2,4) by (simp only: card_image card_atLeastLessThan length_map)
  then have dist: "distinct (map seqOf (p # ps))" by (intro card_distinct) simp
  have near: "unat (seqOf q - ?s) \<le> 64" if "q \<in> set (p # ps)" for q
  proof -
    from that assms(4) have "seqOf q \<in> (\<lambda>i. ?s + of_nat i) ` {0..<n}" by blast
    then obtain i where "i < n" "seqOf q = ?s + of_nat i" by auto
    with small assms(3) show ?thesis by simp
  qed
  obtain b1 where b1: "push newUdpRtpReorderBuffer p = Some b1" "burst b1 ?s [p]"
    using burst_first assms(1) by auto
  obtain b where b: "run b1 (map Push ps) = Some b" "burst b ?s (p # ps)"
    using burst_pushes [OF b1(2), of ps] assms(1-3) near dist by auto
  then obtain k where ok: "reorder_ok b" "packets b = mset (p # ps)"
    and e: "expectedSeq b = Some (?s + of_nat k)"
    and out: "map seqOf (emitted b) = map (\<lambda>i. ?s + of_nat i) [0..<k]"
    unfolding burst_def by blast
  have k: "k = length (emitted b)" using arg_cong [OF out, of length] by simp
  have len: "k + length (pending b) = n" using packets_length [of b] ok(2) assms(2) k by simp
  have "k = n"
  proof (rule ccontr)
    assume "k \<noteq> n"
    with len have kn: "k < n" by simp
    then have "?s + of_nat k \<in> seqOf ` set (p # ps)" unfolding assms(4) by simp
    then obtain q where q: "q \<in> set (p # ps)" "seqOf q = ?s + of_nat k" unfolding image_iff by metis
    have "q \<in> set (emitted b) \<union> snd ` set (pending b)" unfolding packets_set ok(2) using q(1) by simp
    then show False
    proof
      assume "q \<in> set (emitted b)"
      then have "seqOf q \<in> set (map (\<lambda>i. ?s + of_nat i) [0..<k])" unfolding out [symmetric] by simp
      then obtain i where "i < k" "?s + of_nat i = ?s + of_nat k" using q(2) by auto
      with small [of i] small [of k] kn show False by simp
    next
      assume "q \<in> snd ` set (pending b)"
      then have "?s + of_nat k \<in> fst ` set (pending b)"
        using ok(1) q(2) e by (force simp: reorder_ok_def settled_def core_def keyed_def)
      then show False using ok(1) e by (simp add: reorder_ok_def settled_def map_of_eq_None_iff)
    qed
  qed
  with len have "pending b = []" by simp
  with b b1 ok(2) out \<open>k = n\<close> show ?thesis
    by (auto simp: packets_def)
qed

text \<open>
  C25 A shuffled burst comes out in order. If the first packet to arrive opens a burst of
  at most 65 consecutive sequence numbers (which may wrap around) and the others arrive in
  any order, each exactly once, then once all have arrived everything has been emitted, in
  the order of the sequence numbers, without waiting for any timer.
\<close>

theorem reorder_restores_order:
  assumes "\<forall>p \<in> set (p # ps). 4 \<le> length p"
    and "length (p # ps) = n" and "n \<le> 65"
    and "seqOf ` set (p # ps) = (\<lambda>i. seqOf p + of_nat i) ` {0..<n}"
  shows "\<exists>b. run newUdpRtpReorderBuffer (map Push (p # ps)) = Some b \<and> pending b = [] \<and>
    mset (emitted b) = mset (p # ps) \<and>
    map seqOf (emitted b) = map (\<lambda>i. seqOf p + of_nat i) [0..<n]"
  using assms by (rule shuffled_burst)


text \<open>
  Go's map order does not matter. \<open>findNearestPendingSequence\<close> ranges over a map, whose
  iteration order is unspecified; once an expected sequence number is set, every order
  gives the same answer.
\<close>

theorem nearest_order_irrelevant:
  assumes "expectedSeq b = Some e" and "mset xs = mset (pending b)"
  shows "findNearestPendingSequence (b\<lparr>pending := xs\<rparr>) = findNearestPendingSequence b"
proof (cases "pending b = []")
  case True
  with assms(2) have "b\<lparr>pending := xs\<rparr> = b" by simp
  then show ?thesis by (rule arg_cong)
next
  case False
  then have ne: "pending (b\<lparr>pending := xs\<rparr>) \<noteq> []" and e: "expectedSeq (b\<lparr>pending := xs\<rparr>) = Some e"
    and set: "set xs = set (pending b)"
    using assms by (auto dest: mset_eq_setD)
  obtain n where n: "findNearestPendingSequence b = Some n" "n \<in> fst ` set (pending b)"
      "\<And>s. s \<in> fst ` set (pending b) \<Longrightarrow> unat (n - e) \<le> unat (s - e)"
    by (rule findNearest_spec [OF assms(1) False]) blast
  obtain m where m: "findNearestPendingSequence (b\<lparr>pending := xs\<rparr>) = Some m" "m \<in> fst ` set (pending b)"
      "\<And>s. s \<in> fst ` set (pending b) \<Longrightarrow> unat (m - e) \<le> unat (s - e)"
    by (rule findNearest_spec [OF e ne]) (simp add: set)
  have "unat (n - e) = unat (m - e)" using n(2,3) m(2,3) by (meson le_antisym)
  then have "n - e = m - e" by (simp only: word_unat_eq_iff)
  then have "n = m" by simp
  with n(1) m(1) show ?thesis by simp
qed

text \<open>
  Stopping does not wait for a callback in flight. If a flush timer has already expired
  when the buffer is stopped, its callback still runs afterwards and still emits packets:
  the consumer is called after \<open>stop\<close> has returned.
\<close>

theorem stopped_still_emits:
  assumes "run newUdpRtpReorderBuffer evs = Some b" and "t \<in> set (inflight b)" and "pending b \<noteq> []"
  shows "\<exists>b'. run newUdpRtpReorderBuffer (evs @ [Stop, Callback t]) = Some b' \<and>
    length (emitted b) < length (emitted b')"
proof -
  have run_append: "run c (xs @ ys) = Option.bind (run c xs) (\<lambda>c'. run c' ys)" for c xs ys
    by (induction xs arbitrary: c) (auto split: option.splits)
  let ?b = "(stop b)\<lparr>inflight := removeAll t (inflight b)\<rparr>"
  have "timerCallback ?b = timerCallback (?b\<lparr>flushTimer := None\<rparr>)" by (simp add: timerCallback_def)
  moreover have "reorder_ok (?b\<lparr>flushTimer := None\<rparr>)"
    using reachable_ok [OF assms(1)] settled_frame [of "?b\<lparr>flushTimer := None\<rparr>" b]
    by (simp add: reorder_ok_def armed_def stop_def)
  ultimately have "length (emitted b) < length (emitted (timerCallback ?b))"
    using timerCallback_spec [of "?b\<lparr>flushTimer := None\<rparr>"] assms(3) by (simp add: stop_def)
  then show ?thesis using assms(1,2) by (simp add: run_append stop_def)
qed

lemmas reorder_eval = push_def parseRtpSequence_def index_def newUdpRtpReorderBuffer_def
  flushAvailableLocked_def flushLoop.simps relieve_def maxPending_def lacksExpected_def hasPending_def
  armFlushTimerLocked_def without_def isStaleSequence_def sequenceDistance_def cancelTimer_def Let_def

definition example_packet :: "byte \<Rightarrow> byte list" where
  "example_packet n = [0x80, 33, 0, n]"

text \<open>Packets 1 and 3 arrive, 2 does not; the timer expires.\<close>

definition example_events :: "event list" where
  "example_events = [Push (example_packet 1), Push (example_packet 3), Expire 0]"

definition example_buffer :: reorder where
  "example_buffer = \<lparr>expectedSeq = Some 2, pending = [(3, example_packet 3)], flushTimer = Some 0,
     live = [], inflight = [0], next_timer = 1, emitted = [example_packet 1]\<rparr>"

lemma example_run: "run newUdpRtpReorderBuffer example_events = Some example_buffer"
  by (simp add: reorder_eval example_packet_def example_events_def example_buffer_def)

lemma reorder_invariant_witness: "length (pending example_buffer) \<le> 64 \<and> pending example_buffer \<noteq> []"
  using reorder_invariant [OF example_run] by (simp add: example_buffer_def)

lemma reorder_conserves_witness:
  "mset (emitted (close example_buffer)) = {#example_packet 1, example_packet 3#}"
  using reorder_conserves [OF example_run] by (auto simp: example_buffer_def add_mset_commute)

lemma reorder_never_stuck_witness: "inflight example_buffer \<noteq> [] \<and>
    1 < length (emitted (timerCallback example_buffer))"
  using reorder_never_stuck [OF example_run]
  by (simp add: example_events_def) (simp add: example_buffer_def)

lemma stopped_still_emits_witness:
  "\<exists>b'. run newUdpRtpReorderBuffer (example_events @ [Stop, Callback 0]) = Some b' \<and>
     1 < length (emitted b')"
  using stopped_still_emits [OF example_run, of 0] by (simp add: example_buffer_def)

text \<open>A burst that wraps around: 65535, then 1, then 0.\<close>

lemma reorder_restores_order_witness:
  "\<exists>b. run newUdpRtpReorderBuffer (map Push [[0x80, 33, 255, 255], example_packet 1, example_packet 0]) = Some b \<and>
     map seqOf (emitted b) = [0xffff, 0, 1]"
proof -
  let ?ps = "[example_packet 1, example_packet 0]"
  have wrap: "(65536 :: u16) = 0" "(65537 :: u16) = 1" by simp_all
  have "seqOf ` set ([0x80, 33, 255, 255] # ?ps) = (\<lambda>i. seqOf [0x80, 33, 255, 255] + of_nat i) ` {0..<3}"
    by (simp add: seqOf_def be16_def example_packet_def numeral_3_eq_3 atLeast0_lessThan_Suc insert_commute wrap)
  from reorder_restores_order [OF _ _ _ this] show ?thesis
    by (simp add: example_packet_def) (auto simp: seqOf_def be16_def numeral_3_eq_3 wrap)
qed

lemma nearest_order_irrelevant_witness:
  "findNearestPendingSequence \<lparr>expectedSeq = Some 2, pending = [(4, []), (3, [])], flushTimer = None,
     live = [], inflight = [], next_timer = 0, emitted = []\<rparr> =
   findNearestPendingSequence \<lparr>expectedSeq = Some 2, pending = [(3, []), (4, [])], flushTimer = None,
     live = [], inflight = [], next_timer = 0, emitted = []\<rparr>"
  using nearest_order_irrelevant [of "\<lparr>expectedSeq = Some 2, pending = [(3, []), (4, [])], flushTimer = None,
     live = [], inflight = [], next_timer = 0, emitted = []\<rparr>" 2 "[(4, []), (3, [])]"]
  by simp

end
