(* ===== verification/Rtp_Properties.thy ===== *)
theory Rtp_Properties
  imports Rtp Reorder_Properties
begin

text \<open>
  What the relay diagnostics of internal/rtsp/diagnostics.go count: the accounting of
  sequence numbers, the transport-stream counters, and continuity errors PID by PID.
\<close>


text \<open>An extension, one contributing source and four bytes of padding.\<close>

lemma depacketize_encode_witness:
  "depacketizeRtpPayload (rtp_encode (replicate 11 0) [1, 2, 3, 4] (Some ([9, 9], [5, 6, 7, 8])) [0x47, 0] 4) =
     Some (Inr [0x47, 0])"
proof (rule depacketize_encode [where n = 1])
  fix ident ws :: "byte list"
  assume "Some ([9, 9], [5, 6, 7, 8]) = Some (ident, ws)"
  then have "ident = [9, 9]" "ws = [5, 6, 7, 8]" by simp_all
  then have "length ident = 2" "length ws = 4" by simp_all
  then show "length ident = 2 \<and> 4 dvd length ws \<and> length ws < 4 * 65536" by (simp only:) simp
qed simp_all

subsection \<open>Sequence accounting\<close>

lemma recordRtpPacket_eq:
  "recordRtpPacket d p = Some
     (if length p < 4 then d
      else (case lastRtpSeq d of
              None \<Rightarrow> accept_rtp d (seqOf p)
            | Some l \<Rightarrow>
                if isStaleSequence (seqOf p) (l + 1) then d
                else if seqOf p \<noteq> l + 1 then accept_rtp (note_gap d (l + 1) (seqOf p)) (seqOf p)
                else accept_rtp d (seqOf p)))"
  by (simp add: recordRtpPacket_def rtp_constants index_def seqOf_def be16_def Let_def
      split: option.split)

fun recordRtpPackets :: "diagnostics \<Rightarrow> byte list list \<Rightarrow> diagnostics go" where
  "recordRtpPackets d [] = Some d"
| "recordRtpPackets d (p # ps) = Option.bind (recordRtpPacket d p) (\<lambda>d'. recordRtpPackets d' ps)"

text \<open>Received and missing packets make up the span from \<open>f\<close> to the last one accepted.\<close>

definition spans :: "u16 \<Rightarrow> diagnostics \<Rightarrow> bool" where
  "spans f d \<longleftrightarrow>
     (\<exists>l. lastRtpSeq d = Some l \<and> of_nat (rtpPacketCount d + rtpMissingCount d) = l - f + 1) \<and>
     (loggedRtpGap d \<longleftrightarrow> 0 < rtpMissingCount d)"

definition is_gap :: "diagnostic \<Rightarrow> bool" where
  "is_gap m \<longleftrightarrow> (case m of RtpGap a b c \<Rightarrow> True | _ \<Rightarrow> False)"

definition gap_logged_once :: "diagnostics \<Rightarrow> bool" where
  "gap_logged_once d \<longleftrightarrow> length (filter is_gap (logged d)) = (if 0 < rtpMissingCount d then 1 else 0)"

lemma note_gap_frame [simp]:
  "lastRtpSeq (note_gap d e s) = lastRtpSeq d" "rtpPacketCount (note_gap d e s) = rtpPacketCount d"
  "rtpMissingCount (note_gap d e s) = rtpMissingCount d + unat (s - e)"
  by (simp_all add: note_gap_def Let_def sequenceDistance_eq)

lemma recordRtpPacket_cases:
  assumes "recordRtpPacket d p = Some d'" and "lastRtpSeq d = Some l"
  shows "d' = d \<or> d' = accept_rtp d (l + 1) \<or>
      seqOf p \<noteq> l + 1 \<and> d' = accept_rtp (note_gap d (l + 1) (seqOf p)) (seqOf p)"
proof -
  have "d' = (if length p < 4 \<or> isStaleSequence (seqOf p) (l + 1) then d
      else if seqOf p \<noteq> l + 1 then accept_rtp (note_gap d (l + 1) (seqOf p)) (seqOf p)
      else accept_rtp d (seqOf p))"
    using assms(1) unfolding recordRtpPacket_eq assms(2) option.case option.inject by (cases "length p < 4") simp_all
  then show ?thesis by (metis (full_types))
qed

lemma recordRtpPacket_spans:
  assumes "spans f d" and "gap_logged_once d" and "recordRtpPacket d p = Some d'"
  shows "spans f d' \<and> gap_logged_once d'"
proof -
  from assms(1) obtain l where l: "lastRtpSeq d = Some l"
    and span: "of_nat (rtpPacketCount d + rtpMissingCount d) = l - f + 1"
    and lg: "loggedRtpGap d \<longleftrightarrow> 0 < rtpMissingCount d"
    unfolding spans_def by (elim conjE exE)
  have "d' = d \<or> d' = accept_rtp d (l + 1) \<or>
      seqOf p \<noteq> l + 1 \<and> d' = accept_rtp (note_gap d (l + 1) (seqOf p)) (seqOf p)"
    using assms(3) l recordRtpPacket_cases by blast
  then consider "d' = d" | "d' = accept_rtp d (l + 1)"
    | s where "s \<noteq> l + 1" "d' = accept_rtp (note_gap d (l + 1) s) s"
    by blast
  then show ?thesis
  proof cases
    case 1
    with assms show ?thesis by simp
  next
    case 2
    have "of_nat (rtpPacketCount d + 1 + rtpMissingCount d) =
        (of_nat (rtpPacketCount d + rtpMissingCount d) + 1 :: u16)" by simp
    also have "\<dots> = l + 1 - f + 1" unfolding span by (simp only: diff_add_eq)
    finally show ?thesis
      using lg assms(2) unfolding 2 spans_def gap_logged_once_def accept_rtp_def by simp
  next
    case (3 s)
    have pos: "0 < unat (s - (l + 1))" using 3(1) by (simp add: unat_gt_0)
    have "of_nat (rtpPacketCount d + 1 + (rtpMissingCount d + unat (s - (l + 1)))) =
        (of_nat (rtpPacketCount d + rtpMissingCount d) + 1 + (s - (l + 1)) :: u16)"
      by (simp only: of_nat_add of_nat_1 of_nat_unat ucast_id add.assoc add.left_commute add.commute)
    also have "\<dots> = s - f + 1" unfolding span by simp
    finally have "of_nat (rtpPacketCount d + 1 + (rtpMissingCount d + unat (s - (l + 1)))) = s - f + 1" .
    moreover have "loggedRtpGap (note_gap d (l + 1) s)"
      "length (filter is_gap (logged (note_gap d (l + 1) s))) = 1"
      using lg assms(2) by (auto simp: note_gap_def Let_def is_gap_def gap_logged_once_def)
    ultimately show ?thesis
      unfolding 3(2) spans_def gap_logged_once_def using pos by (simp add: accept_rtp_def)
  qed
qed

text \<open>
  Lost and received packets add up. Whatever packets arrive after a first one with a
  sequence number, the diagnostics do not panic, and the packets counted plus the packets
  counted missing are, modulo 2^16, the span from the first sequence number to the last
  accepted one; a gap is reported in the log exactly once if any packet was missing, and
  not at all otherwise.
\<close>

theorem rtp_accounting:
  assumes "4 \<le> length p"
  shows "\<exists>d l. recordRtpPackets createRelayDiagnostics (p # ps) = Some d \<and> lastRtpSeq d = Some l \<and>
    of_nat (rtpPacketCount d + rtpMissingCount d) = l - seqOf p + 1 \<and>
    length (filter is_gap (logged d)) = (if 0 < rtpMissingCount d then 1 else 0)"
proof -
  have rest: "\<exists>d'. recordRtpPackets d ps = Some d' \<and> spans f d' \<and> gap_logged_once d'"
    if "spans f d" "gap_logged_once d" for f d ps
    using that
  proof (induction ps arbitrary: d)
    case (Cons q qs)
    obtain d1 where d1: "recordRtpPacket d q = Some d1" by (simp add: recordRtpPacket_eq)
    from recordRtpPacket_spans [OF Cons.prems d1] Cons.IH [of d1] d1 show ?case by simp
  qed simp
  let ?d = "accept_rtp createRelayDiagnostics (seqOf p)"
  have "spans (seqOf p) ?d" "gap_logged_once ?d"
    by (simp_all add: spans_def gap_logged_once_def accept_rtp_def createRelayDiagnostics_def)
  from rest [OF this, of ps] obtain d' where "recordRtpPackets ?d ps = Some d'" "spans (seqOf p) d'"
    "gap_logged_once d'" by blast
  moreover have "recordRtpPacket createRelayDiagnostics p = Some ?d"
    using assms by (simp add: recordRtpPacket_eq) (simp add: createRelayDiagnostics_def)
  ultimately show ?thesis by (auto simp: spans_def gap_logged_once_def)
qed

subsection \<open>Transport-stream packets\<close>

text \<open>The payload cut into packets of 188 bytes, and each packet's offset.\<close>

fun ts_packets :: "nat \<Rightarrow> byte list \<Rightarrow> (nat \<times> byte list) list" where
  "ts_packets off b =
     (if length b < 188 then [] else (off, take 188 b) # ts_packets (off + 188) (drop 188 b))"

declare ts_packets.simps [simp del]

lemma ts_loop_eq:
  "off \<le> length b \<Longrightarrow>
   ts_loop d b off = Some (foldl (\<lambda>d (k, p). recordTsPacket d k p) d (ts_packets off (drop off b)))"
proof (induction "length b - off" arbitrary: d off rule: less_induct)
  case less
  show ?case
  proof (cases "off + 188 \<le> length b")
    case False
    then show ?thesis
      by (subst ts_loop.simps, subst ts_packets.simps) (simp add: tsPacketSize_def)
  next
    case True
    then have "slice b off (off + 188) = Some (take 188 (drop off b))" by (simp add: slice_def)
    moreover have "ts_loop (recordTsPacket d off (take 188 (drop off b))) b (off + 188) =
      Some (foldl (\<lambda>d (k, p). recordTsPacket d k p) (recordTsPacket d off (take 188 (drop off b)))
        (ts_packets (off + 188) (drop (off + 188) b)))"
      using True less.prems by (intro less.hyps) linarith+
    ultimately show ?thesis
      using True
      by (subst ts_loop.simps, subst ts_packets.simps) (simp add: tsPacketSize_def add.commute)
  qed
qed

lemma ts_packets_length: "length (ts_packets off b) = length b div 188"
proof (induction off b rule: ts_packets.induct)
  case (1 off b)
  then show ?case by (subst ts_packets.simps) (simp add: le_div_geq)
qed

lemma ts_packets_size: "(k, p) \<in> set (ts_packets off b) \<Longrightarrow> length p = 188"
proof (induction off b rule: ts_packets.induct)
  case (1 off b)
  then show ?case by (subst (asm) (2) ts_packets.simps) (auto split: if_splits)
qed

lemma recordTsPayload_eq:
  "recordTsPayload d b = Some (foldl (\<lambda>d (k, p). recordTsPacket d k p)
     (d\<lparr>byteCount := byteCount d + length b\<rparr>) (ts_packets 0 b))"
  using ts_loop_eq [of 0 b] by (simp add: recordTsPayload_def)

lemma recordTsPacket_counts:
  "tsPacketCount (recordTsPacket d k p) = tsPacketCount d + 1"
  "byteCount (recordTsPacket d k p) = byteCount d"
  "tsSyncLossCount (recordTsPacket d k p) = tsSyncLossCount d + (if p ! 0 \<noteq> 0x47 then 1 else 0)"
  "tsContinuityErr (recordTsPacket d k p) \<le> tsContinuityErr d + (if p ! 0 \<noteq> 0x47 then 0 else 1)"
  by (auto simp: recordTsPacket_def Let_def split: option.splits)

lemma ts_fold_counts:
  "tsPacketCount (foldl (\<lambda>d (k, p). recordTsPacket d k p) d ps) = tsPacketCount d + length ps \<and>
   byteCount (foldl (\<lambda>d (k, p). recordTsPacket d k p) d ps) = byteCount d \<and>
   tsSyncLossCount (foldl (\<lambda>d (k, p). recordTsPacket d k p) d ps) =
     tsSyncLossCount d + length (filter (\<lambda>(k, p). p ! 0 \<noteq> 0x47) ps) \<and>
   tsContinuityErr (foldl (\<lambda>d (k, p). recordTsPacket d k p) d ps) \<le>
     tsContinuityErr d + length (filter (\<lambda>(k, p). p ! 0 = 0x47) ps)"
proof (induction ps arbitrary: d)
  case (Cons x ps)
  obtain k p where x: "x = (k, p)" by fastforce
  show ?case
    using Cons.IH [of "recordTsPacket d k p"] recordTsPacket_counts [of d k p]
    by (simp add: x split: if_split_asm)
qed simp

text \<open>
  What the transport-stream counters count. Recording a payload never panics: it adds
  its length to the byte count, one packet for every whole 188 bytes (a trailing part is
  not counted), one loss of sync for every such packet that does not start with the sync
  byte, and at most one continuity error for every packet that does.
\<close>

theorem ts_counters:
  "\<exists>d'. recordTsPayload d b = Some d' \<and>
    byteCount d' = byteCount d + length b \<and>
    tsPacketCount d' = tsPacketCount d + length b div 188 \<and>
    tsSyncLossCount d' = tsSyncLossCount d + length (filter (\<lambda>(k, p). p ! 0 \<noteq> 0x47) (ts_packets 0 b)) \<and>
    tsContinuityErr d' + (tsSyncLossCount d' - tsSyncLossCount d) \<le> tsContinuityErr d + length b div 188"
proof -
  have "length (filter (\<lambda>(k, p). p ! 0 \<noteq> 0x47) (ts_packets 0 b)) +
      length (filter (\<lambda>(k, p). p ! 0 = 0x47) (ts_packets 0 b)) = length b div 188"
    using sum_length_filter_compl [of "\<lambda>(k, p). p ! 0 \<noteq> 0x47" "ts_packets 0 b"]
    by (simp add: ts_packets_length case_prod_unfold)
  then show ?thesis
    using ts_fold_counts [of "d\<lparr>byteCount := byteCount d + length b\<rparr>" "ts_packets 0 b"]
    by (simp add: recordTsPayload_eq ts_packets_length)
qed

subsection \<open>Continuity counters of interleaved streams\<close>

definition carries :: "u16 \<Rightarrow> byte list \<Rightarrow> bool" where
  "carries pid p \<longleftrightarrow> ts_has_payload p \<and> ts_pid p = pid \<and> pid \<noteq> nullPacketPID"

text \<open>The mismatches in one stream of counters, given the counter expected next.\<close>

fun mismatches :: "byte option \<Rightarrow> byte list \<Rightarrow> nat" where
  "mismatches e [] = 0"
| "mismatches e (c # cs) =
     (if e = None \<or> e = Some c then 0 else 1) + mismatches (Some ((c + 1) AND 0x0f)) cs"

definition clean :: "byte list \<Rightarrow> bool" where
  "clean p \<longleftrightarrow> p ! 0 = 0x47 \<and> \<not> ts_discontinuity p"

lemma recordTsPacket_clean:
  assumes "clean p"
  shows "tsContinuityErr (recordTsPacket d k p) = tsContinuityErr d +
      (if \<exists>pid. carries pid p \<and> expectedByPID d pid \<notin> {None, Some (ts_counter p)} then 1 else 0)"
    and "expectedByPID (recordTsPacket d k p) =
      (\<lambda>pid. if carries pid p then Some ((ts_counter p + 1) AND 0x0f) else expectedByPID d pid)"
  using assms
  by (auto simp: recordTsPacket_def clean_def carries_def Let_def fun_eq_iff split: option.splits)

lemma ts_fold_clean:
  "\<forall>(k, p) \<in> set ps. clean p \<Longrightarrow>
   tsContinuityErr (foldl (\<lambda>d (k, p). recordTsPacket d k p) d ps) =
     tsContinuityErr d +
     (\<Sum>pid \<in> UNIV. mismatches (expectedByPID d pid) (map ts_counter (filter (carries pid) (map snd ps))))"
proof (induction ps arbitrary: d)
  case Nil
  then show ?case by simp
next
  case (Cons x ps)
  obtain k p where x: "x = (k, p)" by fastforce
  then have p: "clean p" using Cons.prems by simp
  let ?m = "\<lambda>d pid ps. mismatches (expectedByPID d pid) (map ts_counter (filter (carries pid) (map snd ps)))"
  let ?d = "recordTsPacket d k p"
  have one: "?m d pid (x # ps) = ?m ?d pid ps +
      (if carries pid p \<and> expectedByPID d pid \<notin> {None, Some (ts_counter p)} then 1 else 0)" for pid
    by (auto simp: x recordTsPacket_clean(2) [OF p])
  have "(\<Sum>pid \<in> UNIV. if carries pid p \<and> expectedByPID d pid \<notin> {None, Some (ts_counter p)} then 1 else 0) =
      card {pid. carries pid p \<and> expectedByPID d pid \<notin> {None, Some (ts_counter p)}}"
    by (simp add: sum.If_cases)
  also have "\<dots> = (if \<exists>pid. carries pid p \<and> expectedByPID d pid \<notin> {None, Some (ts_counter p)} then 1 else 0)"
  proof (cases "\<exists>pid. carries pid p \<and> expectedByPID d pid \<notin> {None, Some (ts_counter p)}")
    case True
    then have "{pid. carries pid p \<and> expectedByPID d pid \<notin> {None, Some (ts_counter p)}} = {ts_pid p}"
      by (auto simp: carries_def)
    with True show ?thesis by simp
  next
    case False
    then have "{pid. carries pid p \<and> expectedByPID d pid \<notin> {None, Some (ts_counter p)}} = {}" by blast
    with False show ?thesis by (simp only: if_False card.empty)
  qed
  finally have "(\<Sum>pid \<in> UNIV. ?m d pid (x # ps)) = (\<Sum>pid \<in> UNIV. ?m ?d pid ps) +
      (if \<exists>pid. carries pid p \<and> expectedByPID d pid \<notin> {None, Some (ts_counter p)} then 1 else 0)"
    unfolding one by (simp only: sum.distrib)
  moreover have "\<forall>(k, p) \<in> set ps. clean p" using Cons.prems by simp
  ultimately show ?case
    using Cons.IH [of ?d] recordTsPacket_clean(1) [OF p, of d k] by (simp only: x foldl_Cons prod.case)
qed

lemma rtp_accounting_witness:
  "\<exists>d l. recordRtpPackets createRelayDiagnostics [[0x80, 33, 0, 1], [0x80, 33, 0, 3]] = Some d \<and>
     lastRtpSeq d = Some l \<and> of_nat (rtpPacketCount d + rtpMissingCount d) = l - seqOf [0x80, 33, 0, 1] + 1"
  using rtp_accounting [of "[0x80, 33, 0, 1]" "[[0x80, 33, 0, 3]]"] by (simp del: recordRtpPackets.simps) metis

text \<open>
  Streams are checked independently. For a payload whose packets are in sync and signal
  no discontinuity, the number of continuity errors counted is the sum, over all PIDs, of
  the mismatches in the counters of that PID's payload packets alone, however the packets
  of different PIDs are interleaved (null packets and packets without payload do not count).
\<close>

theorem ts_continuity_per_pid:
  assumes "\<forall>(k, p) \<in> set (ts_packets 0 b). clean p" and "recordTsPayload d b = Some d'"
  shows "tsContinuityErr d' = tsContinuityErr d +
    (\<Sum>pid \<in> UNIV. mismatches (expectedByPID d pid)
       (map ts_counter (filter (carries pid) (map snd (ts_packets 0 b)))))"
  using ts_fold_clean [OF assms(1), of "d\<lparr>byteCount := byteCount d + length b\<rparr>"] assms(2)
  by (simp add: recordTsPayload_eq)

definition example_ts :: "byte list" where
  "example_ts = [0x47, 0x01, 0x00, 0x15] @ replicate 184 0"

lemma example_ts_packets: "ts_packets 0 example_ts = [(0, example_ts)]"
  by (subst ts_packets.simps, simp add: example_ts_def)
    (subst ts_packets.simps, simp add: numeral_eq_Suc)

lemma ts_continuity_per_pid_witness:
  "\<exists>d'. recordTsPayload createRelayDiagnostics example_ts = Some d' \<and> tsContinuityErr d' = 0"
proof -
  obtain d' where d': "recordTsPayload createRelayDiagnostics example_ts = Some d'"
    by (simp add: recordTsPayload_eq)
  have "\<forall>(k, p) \<in> set (ts_packets 0 example_ts). clean p"
    by (simp add: example_ts_packets) (simp add: clean_def ts_discontinuity_def ts_adaptation_def example_ts_def)
  from ts_continuity_per_pid [OF this d'] d' show ?thesis
    by (simp add: example_ts_packets) (simp add: createRelayDiagnostics_def)
qed

end
