(* ===== verification/Sha256.thy ===== *)
theory Sha256
  imports Prelude
begin

text \<open>
  The standard package \<open>crypto/sha256\<close>, as FIPS 180-4 defines it, for the channel ids:
  \<open>Sum256\<close> of a byte slice (of fewer than 2^61 bytes, which every Go slice is).
\<close>

definition sha_k :: "u32 list" where
  "sha_k = [
    1116352408, 1899447441, 3049323471, 3921009573, 961987163, 1508970993,
    2453635748, 2870763221, 3624381080, 310598401, 607225278, 1426881987,
    1925078388, 2162078206, 2614888103, 3248222580, 3835390401, 4022224774,
    264347078, 604807628, 770255983, 1249150122, 1555081692, 1996064986,
    2554220882, 2821834349, 2952996808, 3210313671, 3336571891, 3584528711,
    113926993, 338241895, 666307205, 773529912, 1294757372, 1396182291,
    1695183700, 1986661051, 2177026350, 2456956037, 2730485921, 2820302411,
    3259730800, 3345764771, 3516065817, 3600352804, 4094571909, 275423344,
    430227734, 506948616, 659060556, 883997877, 958139571, 1322822218,
    1537002063, 1747873779, 1955562222, 2024104815, 2227730452, 2361852424,
    2428436474, 2756734187, 3204031479, 3329325298]"

definition sha_init :: "u32 list" where
  "sha_init = [
    1779033703, 3144134277, 1013904242, 2773480762, 1359893119, 2600822924,
    528734635, 1541459225]"

definition sha_pad :: "byte list \<Rightarrow> byte list" where
  "sha_pad msg =
     (let n = length msg;
          zeros = (55 + 64 - n mod 64) mod 64
      in msg @ [0x80] @ replicate zeros 0 @
         map (\<lambda>i. of_nat (8 * n div 256 ^ (7 - i))) [0..<8])"

fun sha_words :: "byte list \<Rightarrow> u32 list" where
  "sha_words (a # b # c # d # r) = be32 a b c d # sha_words r"
| "sha_words _ = []"

definition rotr :: "nat \<Rightarrow> u32 \<Rightarrow> u32" where
  "rotr n w = drop_bit n w OR push_bit (32 - n) w"

definition sha_s0 :: "u32 \<Rightarrow> u32" where
  "sha_s0 x = rotr 7 x XOR rotr 18 x XOR drop_bit 3 x"

definition sha_s1 :: "u32 \<Rightarrow> u32" where
  "sha_s1 x = rotr 17 x XOR rotr 19 x XOR drop_bit 10 x"

text \<open>The message schedule, extended word by word from the sixteen of the block.\<close>

fun sha_extend :: "nat \<Rightarrow> u32 list \<Rightarrow> u32 list" where
  "sha_extend 0 w = w"
| "sha_extend (Suc k) w =
     (let t = length w
      in sha_extend k (w @ [sha_s1 (w ! (t - 2)) + w ! (t - 7) + sha_s0 (w ! (t - 15)) + w ! (t - 16)]))"

definition sha_round :: "u32 list \<Rightarrow> u32 \<times> u32 \<Rightarrow> u32 list" where
  "sha_round st kw =
     (case st of
        [a, b, c, d, e, f, g, h] \<Rightarrow>
          let t1 = h + (rotr 6 e XOR rotr 11 e XOR rotr 25 e) +
                   ((e AND f) XOR (NOT e AND g)) + fst kw + snd kw;
              t2 = (rotr 2 a XOR rotr 13 a XOR rotr 22 a) +
                   ((a AND b) XOR (a AND c) XOR (b AND c))
          in [t1 + t2, a, b, c, d + t1, e, f, g]
      | _ \<Rightarrow> st)"

definition sha_block :: "u32 list \<Rightarrow> u32 list \<Rightarrow> u32 list" where
  "sha_block st block =
     map2 (+) st (foldl sha_round st (zip sha_k (sha_extend 48 block)))"

fun sha_blocks :: "nat \<Rightarrow> u32 list \<Rightarrow> u32 list \<Rightarrow> u32 list" where
  "sha_blocks 0 st ws = st"
| "sha_blocks (Suc n) st ws = sha_blocks n (sha_block st (take 16 ws)) (drop 16 ws)"

definition Sum256 :: "byte list \<Rightarrow> byte list" where
  "Sum256 msg =
     (let ws = sha_words (sha_pad msg)
      in concat (map (\<lambda>w. [byte_at 24 w, byte_at 16 w, byte_at 8 w, byte_at 0 w])
           (sha_blocks (length ws div 16) sha_init ws)))"

subsection \<open>The length of a digest\<close>

lemma sha_round_length: "length (sha_round st kw) = length st"
  by (simp add: sha_round_def Let_def split: list.splits)

lemma sha_rounds_length: "length (foldl sha_round st kws) = length st"
  by (induction kws arbitrary: st) (simp_all add: sha_round_length)

lemma sha_blocks_length: "length (sha_blocks n st ws) = length st"
  by (induction n arbitrary: st ws) (simp_all add: sha_block_def sha_rounds_length)

lemma length_Sum256 [simp]: "length (Sum256 msg) = 32"
  by (simp add: Sum256_def Let_def length_concat comp_def sha_blocks_length sum_list_triv sha_init_def)

end
