(* ===== verification/Channels.thy ===== *)
theory Channels
  imports Net_Url Sha256 "HOL-Library.Multiset"
begin

text \<open>
  internal/channels/identity.go and types.go: the normalised identity of a channel and the
  id derived from it. The lemmas show what a normalised string looks like, that normalising
  twice changes nothing, that the order of query parameters does not matter, and what the
  ids look like.
\<close>

record channel =
  ID :: string
  SourceIndex :: nat
  IdentityKey :: string
  TVGID :: string
  Number :: string
  Name :: string
  LogoURL :: string
  GroupTitle :: string
  StreamURL :: string

subsection \<open>Normalising\<close>

text \<open>
  The class \<open>[a-z0-9]\<close> of \<open>normalizePattern\<close>; the pattern matches maximal runs outside
  it (a byte of a multi-byte rune is outside, as its rune is).
\<close>

definition plain :: "char \<Rightarrow> bool" where
  "plain c \<longleftrightarrow> is_lower c \<or> is_digit c"

function collapse :: "string \<Rightarrow> string" where
  "collapse [] = []"
| "collapse (c # s) =
     (if plain c then c # collapse s else CHR ''-'' # collapse (dropWhile (\<lambda>d. \<not> plain d) s))"
  by pat_completeness auto
termination
  by (relation "measure length") (auto simp: less_Suc_eq_le length_dropWhile_le)

definition normalize :: "unicode \<Rightarrow> string \<Rightarrow> string" where
  "normalize U v = trim_byte (CHR ''-'') (collapse (trim_space (to_lower U v)))"

subsection \<open>Identities\<close>

text \<open>
  The query is a map from keys to lists of contents; ranging over it yields its keys in
  some order, which sorting makes irrelevant.
\<close>

definition query_keys :: "(string \<times> string) list \<Rightarrow> string list" where
  "query_keys q = sort (remdups (map fst q))"

definition query_contents :: "(string \<times> string) list \<Rightarrow> string \<Rightarrow> string list" where
  "query_contents q k = sort (map snd (filter (\<lambda>p. fst p = k) q))"

definition streamPathKey :: "string \<Rightarrow> string" where
  "streamPathKey streamURL =
     (case parse_url streamURL of
        None \<Rightarrow> streamURL
      | Some parsed \<Rightarrow>
          let pathname = (if Path parsed = [] then ''/'' else Path parsed);
              query = url_query parsed;
              encoded = concat (map (\<lambda>k. map (\<lambda>v. query_escape k @ ''='' @ query_escape v)
                (query_contents query k)) (query_keys query))
          in if encoded = [] then pathname else pathname @ ''?'' @ join ''&'' encoded)"

definition hex_encode :: "byte list \<Rightarrow> string" where
  "hex_encode bs = concat (map (\<lambda>b. [hex_lower (unat b div 16), hex_lower (unat b mod 16)]) bs)"

text \<open>The slice expression \<open>[:12]\<close> of 64 hexadecimal digits.\<close>

definition BuildChannelID :: "string \<Rightarrow> string" where
  "BuildChannelID key = take 12 (hex_encode (Sum256 (to_bytes key)))"

definition BuildChannelIdentity :: "unicode \<Rightarrow> string \<Rightarrow> string \<Rightarrow> string \<Rightarrow> string \<Rightarrow> string" where
  "BuildChannelIdentity U tvgID number name streamURL =
     (let normalizedTVGID = normalize U tvgID
      in if normalizedTVGID \<noteq> [] then ''tvg-id:'' @ normalizedTVGID
         else
           let normalizedNumber = normalize U number;
               normalizedName = normalize U name;
               pathKey = streamPathKey streamURL
           in if normalizedNumber \<noteq> [] \<and> normalizedName \<noteq> []
              then ''number-name:'' @ normalizedNumber @ '':'' @ normalizedName
              else if normalizedName \<noteq> [] then ''name-path:'' @ normalizedName @ '':'' @ pathKey
              else if normalizedNumber \<noteq> [] then ''number-path:'' @ normalizedNumber @ '':'' @ pathKey
              else ''path:'' @ pathKey)"

subsection \<open>What normalising gives\<close>

text \<open>Letters and digits, separated by single dashes.\<close>

definition slug :: "string \<Rightarrow> bool" where
  "slug s \<longleftrightarrow> list_all (\<lambda>c. plain c \<or> c = CHR ''-'') s \<and>
     successively (\<lambda>a b. a \<noteq> CHR ''-'' \<or> b \<noteq> CHR ''-'') s \<and>
     (s \<noteq> [] \<longrightarrow> plain (hd s) \<and> plain (last s))"

lemma plain_dash: "\<not> plain (CHR ''-'')"
  by (simp add: plain_def is_lower_def is_digit_def code_def)

lemma collapse_chars: "list_all (\<lambda>c. plain c \<or> c = CHR ''-'') (collapse s)"
  by (induction s rule: collapse.induct) simp_all

lemma collapse_dropWhile_hd:
  "t \<noteq> [] \<Longrightarrow> t = collapse (dropWhile (\<lambda>d. \<not> plain d) s) \<Longrightarrow> plain (hd t)"
  by (cases "dropWhile (\<lambda>d. \<not> plain d) s") (auto dest: hd_dropWhile [of "\<lambda>d. \<not> plain d"] simp: dropWhile_eq_Cons_conv)

lemma collapse_dashes: "successively (\<lambda>a b. a \<noteq> CHR ''-'' \<or> b \<noteq> CHR ''-'') (collapse s)"
proof (induction s rule: collapse.induct)
  case (2 c s)
  show ?case
  proof (cases "plain c")
    case True
    with 2 plain_dash show ?thesis by (auto simp: successively_Cons)
  next
    case False
    let ?t = "collapse (dropWhile (\<lambda>d. \<not> plain d) s)"
    have "?t \<noteq> [] \<Longrightarrow> hd ?t \<noteq> CHR ''-''" using collapse_dropWhile_hd [of ?t s] plain_dash by auto
    with 2 False show ?thesis by (auto simp: successively_Cons)
  qed
qed simp

lemma trim_byte_append: "\<exists>pre suf. s = pre @ trim_byte b s @ suf"
proof -
  let ?d = "dropWhile (\<lambda>c. c = b) s"
  have "s = takeWhile (\<lambda>c. c = b) s @ ?d" by simp
  moreover have "?d = rev (dropWhile (\<lambda>c. c = b) (rev ?d)) @ rev (takeWhile (\<lambda>c. c = b) (rev ?d))"
    by (metis rev_append rev_rev_ident takeWhile_dropWhile_id)
  ultimately show ?thesis unfolding trim_byte_def trim_right_byte_def by metis
qed

lemma trim_byte_ends: "trim_byte b s \<noteq> [] \<Longrightarrow> hd (trim_byte b s) \<noteq> b \<and> last (trim_byte b s) \<noteq> b"
proof -
  assume ne: "trim_byte b s \<noteq> []"
  let ?d = "dropWhile (\<lambda>c. c = b) s"
  have l: "last (trim_byte b s) \<noteq> b"
    using ne hd_dropWhile [of "\<lambda>c. c = b" "rev ?d"]
    by (simp add: trim_byte_def trim_right_byte_def last_rev)
  obtain suf where "?d = trim_byte b s @ suf"
    unfolding trim_byte_def trim_right_byte_def by (metis rev_append rev_rev_ident takeWhile_dropWhile_id)
  with ne have "hd (trim_byte b s) = hd ?d" "?d \<noteq> []" by auto
  with l show ?thesis using hd_dropWhile [of "\<lambda>c. c = b" s] by simp
qed

lemma normalize_slug: "slug (normalize U v)"
proof -
  let ?c = "collapse (trim_space (to_lower U v))"
  obtain pre suf where s: "?c = pre @ normalize U v @ suf"
    unfolding normalize_def using trim_byte_append by blast
  have "list_all (\<lambda>c. plain c \<or> c = CHR ''-'') (pre @ normalize U v @ suf)"
    unfolding s [symmetric] by (rule collapse_chars)
  then have chars: "list_all (\<lambda>c. plain c \<or> c = CHR ''-'') (normalize U v)" by simp
  have "successively (\<lambda>a b. a \<noteq> CHR ''-'' \<or> b \<noteq> CHR ''-'') (pre @ normalize U v @ suf)"
    unfolding s [symmetric] by (rule collapse_dashes)
  then have dashes: "successively (\<lambda>a b. a \<noteq> CHR ''-'' \<or> b \<noteq> CHR ''-'') (normalize U v)"
    by (simp add: successively_append_iff)
  have "plain (hd (normalize U v)) \<and> plain (last (normalize U v))" if ne: "normalize U v \<noteq> []"
  proof -
    have "hd (normalize U v) \<noteq> CHR ''-'' \<and> last (normalize U v) \<noteq> CHR ''-''"
      using ne unfolding normalize_def by (rule trim_byte_ends)
    moreover have "hd (normalize U v) \<in> set (normalize U v)" "last (normalize U v) \<in> set (normalize U v)"
      using ne by simp_all
    ultimately show ?thesis using chars by (auto simp: list_all_iff)
  qed
  with chars dashes show ?thesis by (simp add: slug_def)
qed

lemma collapse_slug:
  "list_all (\<lambda>c. plain c \<or> c = CHR ''-'') s \<Longrightarrow>
   successively (\<lambda>a b. a \<noteq> CHR ''-'' \<or> b \<noteq> CHR ''-'') s \<Longrightarrow> collapse s = s"
proof (induction s)
  case (Cons c s)
  show ?case
  proof (cases "plain c")
    case False
    then have "c = CHR ''-''" using Cons.prems(1) by simp
    moreover have "dropWhile (\<lambda>d. \<not> plain d) s = s"
      using Cons.prems calculation by (cases s) auto
    ultimately show ?thesis using Cons False by (auto simp: successively_Cons)
  qed (use Cons in \<open>auto simp: successively_Cons\<close>)
qed simp

lemma space_runes_ends: "list_all (\<lambda>w. w \<noteq> [] \<and> \<not> plain (hd w) \<and> \<not> plain (last w)) space_runes"
  by code_simp

lemma strip_plain:
  assumes "s \<noteq> [] \<Longrightarrow> plain (hd s)" and "list_all (\<lambda>w. w \<noteq> [] \<and> \<not> plain (hd w)) ws"
  shows "strip ws s = s"
proof -
  have "leading ws s = None"
  proof (rule ccontr)
    assume "leading ws s \<noteq> None"
    then obtain w where w: "w \<in> set ws" "w \<noteq> []" "has_prefix w s" by (auto dest: leading_Some)
    then obtain r where "s = w @ r" by (auto simp: has_prefix_iff)
    with w assms show False by (auto simp: list_all_iff)
  qed
  then show ?thesis by (simp add: strip.simps)
qed

lemma trim_space_plain: "(s \<noteq> [] \<Longrightarrow> plain (hd s) \<and> plain (last s)) \<Longrightarrow> trim_space s = s"
  using space_runes_ends strip_plain [of s space_runes] strip_plain [of "rev s" "map rev space_runes"]
  by (auto simp: trim_space_def list_all_iff hd_rev)

lemma to_lower_slug: "list_all (\<lambda>c. plain c \<or> c = CHR ''-'') s \<Longrightarrow> to_lower U s = s"
proof -
  assume s: "list_all (\<lambda>c. plain c \<or> c = CHR ''-'') s"
  have "is_ascii c \<and> lower_char c = c" if "plain c \<or> c = CHR ''-''" for c
    using that by (auto simp: plain_def is_ascii_def lower_char_def is_lower_def is_upper_def is_digit_def code_def)
  with s have "list_all is_ascii s" "map lower_char s = s"
    by (auto simp: list_all_iff intro: map_idI)
  then show ?thesis by (simp add: to_lower_def)
qed

lemma trim_byte_slug: "s \<noteq> [] \<Longrightarrow> hd s \<noteq> b \<Longrightarrow> last s \<noteq> b \<Longrightarrow> trim_byte b s = s"
proof -
  assume s: "s \<noteq> []" "hd s \<noteq> b" "last s \<noteq> b"
  have id: "dropWhile (\<lambda>c. c = b) t = t" if "t \<noteq> [] \<Longrightarrow> hd t \<noteq> b" for t
    using that by (cases t) simp_all
  show ?thesis using s id [of s] id [of "rev s"] by (simp add: trim_byte_def trim_right_byte_def hd_rev)
qed

lemma normalize_id: "slug s \<Longrightarrow> normalize U s = s"
proof -
  assume s: "slug s"
  show ?thesis
  proof (cases "s = []")
    case True
    then show ?thesis
      using trim_space_plain [of "[]"] to_lower_slug [of "[]" U]
      by (simp add: normalize_def trim_byte_def trim_right_byte_def)
  next
    case False
    with s have "plain (hd s)" "plain (last s)" by (auto simp: slug_def)
    moreover from this have "hd s \<noteq> CHR ''-''" "last s \<noteq> CHR ''-''" using plain_dash by auto
    ultimately show ?thesis
      using s False
      by (simp add: normalize_def slug_def to_lower_slug trim_space_plain collapse_slug trim_byte_slug)
  qed
qed

text \<open>
  Normalising gives a canonical form. Whatever the input, and whatever the case tables,
  the result is made of lower-case letters and digits separated by single dashes, without a
  dash at either end, and normalising it again changes nothing.
\<close>

theorem normalize_canonical:
  "slug (normalize U v) \<and> normalize U' (normalize U v) = normalize U v"
  using normalize_slug normalize_id by blast

subsection \<open>The order of query parameters\<close>

lemma query_keys_mset: "mset q = mset q' \<Longrightarrow> query_keys q = query_keys q'"
proof -
  assume q: "mset q = mset q'"
  then have "mset (map fst q) = mset (map fst q')" by (simp only: mset_map)
  then have "set (map fst q) = set (map fst q')" by (rule mset_eq_setD)
  then show ?thesis
    unfolding query_keys_def
    by (intro properties_for_sort [symmetric] sorted_sort) (simp add: set_eq_iff_mset_remdups_eq [symmetric])
qed

lemma query_contents_mset: "mset q = mset q' \<Longrightarrow> query_contents q k = query_contents q' k"
proof -
  assume q: "mset q = mset q'"
  then have "mset (map snd (filter (\<lambda>p. fst p = k) q)) = mset (map snd (filter (\<lambda>p. fst p = k) q'))"
    by (simp only: mset_map mset_filter)
  then show ?thesis
    unfolding query_contents_def by (intro properties_for_sort [symmetric] sorted_sort) simp
qed

text \<open>
  The key of a stream path does not depend on the order of the query parameters. Two
  addresses with the same path whose queries hold the same parameters, in whatever order,
  have the same key.
\<close>

theorem streamPathKey_order:
  assumes "parse_url a = Some u" and "parse_url b = Some v" and "Path u = Path v"
    and "mset (url_query u) = mset (url_query v)"
  shows "streamPathKey a = streamPathKey b"
  unfolding streamPathKey_def assms(1-3) option.case Let_def
    query_keys_mset [OF assms(4)] query_contents_mset [OF assms(4)] ..

lemma streamPathKey_order_witness:
  "streamPathKey ''http://h/s?b=2&a=1'' = streamPathKey ''http://other/s?a=1&b=2''"
proof -
  have "parse_url ''http://h/s?b=2&a=1'' = Some (the (parse_url ''http://h/s?b=2&a=1''))"
    "parse_url ''http://other/s?a=1&b=2'' = Some (the (parse_url ''http://other/s?a=1&b=2''))"
    "Path (the (parse_url ''http://h/s?b=2&a=1'')) = Path (the (parse_url ''http://other/s?a=1&b=2''))"
    "url_query (the (parse_url ''http://h/s?b=2&a=1'')) = [(''b'', ''2''), (''a'', ''1'')]"
    "url_query (the (parse_url ''http://other/s?a=1&b=2'')) = [(''a'', ''1''), (''b'', ''2'')]"
    by code_simp+
  note facts = this
  have "mset (url_query (the (parse_url ''http://h/s?b=2&a=1''))) =
      mset (url_query (the (parse_url ''http://other/s?a=1&b=2'')))"
    unfolding facts(4,5) by (simp add: add_mset_commute)
  with facts(1-3) show ?thesis by (rule streamPathKey_order)
qed

subsection \<open>Channel ids\<close>

lemma hex_encode_length: "length (hex_encode bs) = 2 * length bs"
  by (simp add: hex_encode_def length_concat comp_def sum_list_triv)

lemma hex_encode_chars: "list_all (\<lambda>c. is_digit c \<or> (97 \<le> code c \<and> code c \<le> 102)) (hex_encode bs)"
proof -
  have "is_digit (hex_lower n) \<or> (97 \<le> code (hex_lower n) \<and> code (hex_lower n) \<le> 102)" if "n < 16" for n
    using that by (simp add: hex_lower_def is_digit_def)
  moreover have "unat b div 16 < 16" for b :: byte using unat_byte_lt [of b] by (simp del: unat_byte_lt)
  ultimately show ?thesis by (auto simp: hex_encode_def list_all_iff)
qed

text \<open>
  The shape of a channel id. The slice of the digest never panics: every id is exactly
  twelve lower-case hexadecimal digits.
\<close>

theorem channel_id_shape:
  "12 \<le> length (hex_encode (Sum256 (to_bytes key))) \<and> length (BuildChannelID key) = 12 \<and>
   list_all (\<lambda>c. is_digit c \<or> (97 \<le> code c \<and> code c \<le> 102)) (BuildChannelID key)"
  using hex_encode_chars [of "Sum256 (to_bytes key)"]
  by (auto simp: BuildChannelID_def hex_encode_length list_all_iff dest: in_set_takeD)

end
