(* ===== verification/Go_Sort.thy ===== *)
theory Go_Sort
  imports Main "HOL-Library.Multiset" "HOL-Library.Product_Lexorder"
begin

text \<open>
  The standard function \<open>sort.Slice\<close> as an interface: a permutation, sorted when the
  comparison is a strict weak order, not stable. The insertion sort that package sort runs
  on short slices is an interpretation.
\<close>

subsection \<open>The contract of sort.Slice\<close>

definition strict_weak :: "('a \<Rightarrow> 'a \<Rightarrow> bool) \<Rightarrow> bool" where
  "strict_weak lt \<longleftrightarrow> (\<forall>a. \<not> lt a a) \<and> (\<forall>a b c. lt a b \<longrightarrow> lt b c \<longrightarrow> lt a c) \<and>
     (\<forall>a b c. lt a c \<longrightarrow> lt a b \<or> lt b c)"

locale slice_sorter =
  fixes srt :: "('a \<Rightarrow> 'a \<Rightarrow> bool) \<Rightarrow> 'a list \<Rightarrow> 'a list"
  assumes mset_srt: "mset (srt lt xs) = mset xs"
    and sorted_srt: "strict_weak lt \<Longrightarrow> sorted_wrt (\<lambda>a b. \<not> lt b a) (srt lt xs)"
begin

lemma set_srt: "set (srt lt xs) = set xs"
  using mset_srt by (rule mset_eq_setD)

text \<open>Sorting by a key that is injective on the elements has one result only.\<close>

lemma srt_unique:
  fixes key :: "'a \<Rightarrow> 'k::linorder"
  assumes "distinct (map key xs)" and "mset ys = mset xs" and "sorted (map key ys)"
  shows "srt (\<lambda>a b. key a < key b) xs = ys"
proof -
  have "strict_weak (\<lambda>a b. key a < key b)" by (auto simp: strict_weak_def)
  then have "sorted_wrt (\<lambda>a b. key a \<le> key b) (srt (\<lambda>a b. key a < key b) xs)"
    using sorted_srt [of "\<lambda>a b. key a < key b" xs] by (simp add: not_less)
  then have "sorted (map key (srt (\<lambda>a b. key a < key b) xs))" by (simp add: sorted_map)
  moreover have "mset (map key (srt (\<lambda>a b. key a < key b) xs)) = mset (map key xs)"
    "mset (map key ys) = mset (map key xs)"
    using mset_srt [of "\<lambda>a b. key a < key b" xs] assms(2) by simp_all
  ultimately have "map key (srt (\<lambda>a b. key a < key b) xs) = map key ys"
    using assms(3) properties_for_sort by metis
  moreover have "set (srt (\<lambda>a b. key a < key b) xs) \<union> set ys = set xs"
    using set_srt mset_eq_setD [OF assms(2)] by simp
  ultimately show ?thesis
    using assms(1) by (simp add: distinct_map map_inj_on)
qed

end

text \<open>
  \<open>insertionSort_func\<close> of package sort, which \<open>sort.Slice\<close> runs on at most twelve
  elements: each element sinks towards the front while it is less than its neighbour. The
  accumulator is the sorted part, last element first.
\<close>

fun sink :: "('a \<Rightarrow> 'a \<Rightarrow> bool) \<Rightarrow> 'a \<Rightarrow> 'a list \<Rightarrow> 'a list" where
  "sink lt x [] = [x]"
| "sink lt x (y # ys) = (if lt x y then y # sink lt x ys else x # y # ys)"

definition insertion_sort :: "('a \<Rightarrow> 'a \<Rightarrow> bool) \<Rightarrow> 'a list \<Rightarrow> 'a list" where
  "insertion_sort lt xs = rev (foldl (\<lambda>acc x. sink lt x acc) [] xs)"

lemma mset_sink: "mset (sink lt x ys) = add_mset x (mset ys)"
  by (induction ys) simp_all

lemma sorted_sink:
  "strict_weak lt \<Longrightarrow> sorted_wrt (\<lambda>a b. \<not> lt a b) ys \<Longrightarrow> sorted_wrt (\<lambda>a b. \<not> lt a b) (sink lt x ys)"
proof (induction ys)
  case (Cons y ys)
  have elems: "set (sink lt x ys) = insert x (set ys)"
    using arg_cong [OF mset_sink [of lt x ys], of set_mset] by simp
  show ?case
  proof (cases "lt x y")
    case True
    then have "\<not> lt y x" using Cons.prems(1) unfolding strict_weak_def by blast
    with True Cons elems show ?thesis by simp
  next
    case False
    have "\<not> lt x z" if "z \<in> set ys" for z
    proof -
      have "\<not> lt y z" using that Cons.prems(2) by simp
      moreover have "lt x z \<longrightarrow> lt x y \<or> lt y z" using Cons.prems(1) by (simp add: strict_weak_def)
      ultimately show ?thesis using False by simp
    qed
    with False Cons.prems(2) show ?thesis by simp
  qed
qed simp

interpretation ins: slice_sorter insertion_sort
proof unfold_locales
  fix lt :: "'a \<Rightarrow> 'a \<Rightarrow> bool" and xs :: "'a list"
  have "mset (foldl (\<lambda>acc x. sink lt x acc) acc xs) = mset acc + mset xs" for acc
    by (induction xs arbitrary: acc) (simp_all add: mset_sink)
  then show "mset (insertion_sort lt xs) = mset xs" by (simp add: insertion_sort_def)
  assume lt: "strict_weak lt"
  have "sorted_wrt (\<lambda>a b. \<not> lt a b) acc \<Longrightarrow>
      sorted_wrt (\<lambda>a b. \<not> lt a b) (foldl (\<lambda>acc x. sink lt x acc) acc xs)" for acc
    by (induction xs arbitrary: acc) (simp_all add: sorted_sink [OF lt])
  then show "sorted_wrt (\<lambda>a b. \<not> lt b a) (insertion_sort lt xs)"
    by (simp add: insertion_sort_def sorted_wrt_rev)
qed

text \<open>Another function that meets the contract: elements that compare equal swap places.\<close>

definition insertion_sort_rev :: "('a \<Rightarrow> 'a \<Rightarrow> bool) \<Rightarrow> 'a list \<Rightarrow> 'a list" where
  "insertion_sort_rev lt xs = insertion_sort lt (rev xs)"

interpretation ins_rev: slice_sorter insertion_sort_rev
  by unfold_locales (simp_all add: insertion_sort_rev_def ins.mset_srt ins.sorted_srt)

end
