(* ===== verification/M3u.thy ===== *)
theory M3u
  imports Channels Go_Sort
begin

text \<open>
  internal/channels/m3u.go and store.go: the playlist parser and the store of channels. A
  scan over the lines carries the entry that waits for its address; the channels found are
  sorted and then deduplicated by identity. \<open>sort.Slice\<close> is the argument \<open>srt\<close>,
  under the contract \<open>slice_sorter\<close>.
\<close>

subsection \<open>Metadata lines\<close>

definition dquote :: char where
  "dquote = CHR 0x22"

record parsedExtInf =
  x_TVGID :: string
  x_Number :: string
  x_Name :: string
  x_LogoURL :: string
  x_GroupTitle :: string

text \<open>All leftmost matches of the pattern \<open>([A-Za-z0-9_-]+)="([^"]*)"\<close>.\<close>

definition attr_char :: "char \<Rightarrow> bool" where
  "attr_char c \<longleftrightarrow> is_alnum c \<or> c = CHR ''_'' \<or> c = CHR ''-''"

lemma attr_rest_shorter:
  assumes "dropWhile (\<lambda>c. \<not> attr_char c) s = c # t"
  shows "length (dropWhile attr_char (c # t)) < length s"
proof -
  have "attr_char c" using assms by (simp add: dropWhile_eq_Cons_conv)
  then have "length (dropWhile attr_char (c # t)) \<le> length t"
    using length_dropWhile_le [of attr_char t] by simp
  moreover have "length (c # t) \<le> length s"
    unfolding assms [symmetric] by (rule length_dropWhile_le)
  ultimately show ?thesis by simp
qed

function find_attributes :: "string \<Rightarrow> (string \<times> string) list" where
  "find_attributes s =
     (case dropWhile (\<lambda>c. \<not> attr_char c) s of
        [] \<Rightarrow> []
      | c # t \<Rightarrow>
          let rest = dropWhile attr_char (c # t);
              body = drop 2 rest
          in if has_prefix [CHR ''='', dquote] rest \<and> dquote \<in> set body
             then (takeWhile attr_char (c # t), takeWhile (\<lambda>c. c \<noteq> dquote) body) #
                  find_attributes (drop 1 (dropWhile (\<lambda>c. c \<noteq> dquote) body))
             else find_attributes rest)"
  by pat_completeness auto
termination
proof (relation "measure length", simp, goal_cases)
  case (1 s c t rest body)
  then have "length body < length s" using attr_rest_shorter [of s c t] by simp
  moreover have "length (drop 1 (dropWhile (\<lambda>c. c \<noteq> dquote) body)) \<le> length body"
    using length_dropWhile_le [of "\<lambda>c. c \<noteq> dquote" body] by simp
  ultimately show ?case by simp
next
  case (2 s c t rest body)
  then show ?case using attr_rest_shorter [of s c t] by simp
qed

definition attribute :: "unicode \<Rightarrow> (string \<times> string) list \<Rightarrow> string \<Rightarrow> string" where
  "attribute U matches k =
     (case map_of (rev (map (\<lambda>(n, v). (to_lower U n, v)) matches)) k of None \<Rightarrow> [] | Some v \<Rightarrow> v)"

text \<open>The loop of \<open>findExtInfSeparator\<close> from position \<open>i\<close> on; \<open>None\<close> is -1.\<close>

fun sep_scan :: "bool \<Rightarrow> nat \<Rightarrow> string \<Rightarrow> nat option" where
  "sep_scan inQuotes i [] = None"
| "sep_scan inQuotes i (c # s) =
     (if c = dquote then sep_scan (\<not> inQuotes) (Suc i) s
      else if c = CHR '','' \<and> \<not> inQuotes then Some i
      else sep_scan inQuotes (Suc i) s)"

definition extinf :: string where
  "extinf = ''#EXTINF:''"

definition findExtInfSeparator :: "string \<Rightarrow> nat option" where
  "findExtInfSeparator line = sep_scan False (length extinf) (drop (length extinf) line)"

definition parseExtInf :: "unicode \<Rightarrow> string \<Rightarrow> parsedExtInf option" where
  "parseExtInf U line =
     (if \<not> has_prefix extinf line then None
      else case findExtInfSeparator line of
        None \<Rightarrow> None
      | Some separatorIndex \<Rightarrow>
          let header = take separatorIndex line;
              name = trim_space (drop (separatorIndex + 1) line);
              attributes = find_attributes header
          in if name = [] then None
             else Some \<lparr>x_TVGID = attribute U attributes ''tvg-id'',
                        x_Number = attribute U attributes ''tvg-chno'', x_Name = name,
                        x_LogoURL = attribute U attributes ''tvg-logo'',
                        x_GroupTitle = attribute U attributes ''group-title''\<rparr>)"

definition allowedSchemes :: "string list" where
  "allowedSchemes = [''http'', ''https'', ''rtsp'', ''rtsps'']"

definition isAllowedStreamURL :: "string \<Rightarrow> bool" where
  "isAllowedStreamURL s =
     (case parse_url s of
        None \<Rightarrow> False
      | Some parsed \<Rightarrow> Scheme parsed \<noteq> [] \<and> Scheme parsed \<in> set allowedSchemes)"

subsection \<open>The order of channels\<close>

definition numericGuideNumber :: "string \<Rightarrow> bool" where
  "numericGuideNumber s \<longleftrightarrow> s \<noteq> [] \<and> list_all is_digit s"

definition compareChannels :: "unicode \<Rightarrow> channel \<Rightarrow> channel \<Rightarrow> int" where
  "compareChannels U left right =
     (let leftHasNumber = numericGuideNumber (Number left);
          rightHasNumber = numericGuideNumber (Number right);
          leftNumber = fst (atoi (Number left));
          rightNumber = fst (atoi (Number right))
      in if leftHasNumber \<and> rightHasNumber \<and> leftNumber \<noteq> rightNumber
         then (if leftNumber < rightNumber then -1 else 1)
         else if leftHasNumber \<noteq> rightHasNumber then (if leftHasNumber then -1 else 1)
         else
           let leftName = to_lower U (Name left);
               rightName = to_lower U (Name right)
           in if leftName \<noteq> rightName then (if leftName < rightName then -1 else 1)
              else if IdentityKey left < IdentityKey right then -1
              else if IdentityKey right < IdentityKey left then 1
              else 0)"

definition channel_less :: "unicode \<Rightarrow> channel \<Rightarrow> channel \<Rightarrow> bool" where
  "channel_less U a b \<longleftrightarrow> compareChannels U a b < 0"

subsection \<open>The scan\<close>

text \<open>The variables of \<open>ParseM3U\<close>; an entry waits with the number of its line.\<close>

record scan =
  found :: "channel list"
  pending :: "(parsedExtInf \<times> nat) option"
  sourceIndex :: nat
  warned :: "string list"

definition initial_scan :: scan where
  "initial_scan = \<lparr>found = [], pending = None, sourceIndex = 0, warned = []\<rparr>"

definition warn_line :: "nat \<Rightarrow> string \<Rightarrow> scan \<Rightarrow> scan" where
  "warn_line n reason st =
     st\<lparr>warned := warned st @ [''dropped invalid channel at line '' @ itoa (int n) @ '': '' @ reason]\<rparr>"

definition dropPending :: "string \<Rightarrow> scan \<Rightarrow> scan" where
  "dropPending reason st =
     (case pending st of
        None \<Rightarrow> st
      | Some (_, n) \<Rightarrow> (warn_line n reason st)\<lparr>pending := None\<rparr>)"

definition build_channel :: "unicode \<Rightarrow> nat \<Rightarrow> parsedExtInf \<Rightarrow> string \<Rightarrow> channel" where
  "build_channel U k p streamURL =
     (let identity = BuildChannelIdentity U (x_TVGID p) (x_Number p) (x_Name p) streamURL
      in \<lparr>ID = BuildChannelID identity, SourceIndex = k, IdentityKey = identity,
          TVGID = x_TVGID p, Number = x_Number p, Name = x_Name p, LogoURL = x_LogoURL p,
          GroupTitle = x_GroupTitle p, StreamURL = streamURL\<rparr>)"

definition finalizePending :: "unicode \<Rightarrow> string \<Rightarrow> scan \<Rightarrow> scan" where
  "finalizePending U streamURL st =
     (case pending st of
        None \<Rightarrow> st
      | Some (p, _) \<Rightarrow>
          st\<lparr>found := found st @ [build_channel U (sourceIndex st) p streamURL],
             sourceIndex := sourceIndex st + 1, pending := None\<rparr>)"

definition scan_line :: "unicode \<Rightarrow> nat \<Rightarrow> string \<Rightarrow> scan \<Rightarrow> scan" where
  "scan_line U lineNumber rawLine st =
     (let line = trim_space rawLine
      in if line = [] \<or> line = ''#EXTM3U'' then st
         else case parseExtInf U line of
           Some p \<Rightarrow> (dropPending ''missing stream url'' st)\<lparr>pending := Some (p, lineNumber)\<rparr>
         | None \<Rightarrow>
             if has_prefix extinf line then warn_line lineNumber ''malformed metadata'' st
             else if has_prefix ''#'' line then st
             else if \<not> isAllowedStreamURL rawLine then
               (if pending st \<noteq> None then dropPending ''unsupported or invalid stream url'' st
                else warn_line lineNumber ''unexpected stream url'' st)
             else if pending st = None then
               warn_line lineNumber ''stream url without metadata'' st
             else finalizePending U rawLine st)"

fun scan_lines :: "unicode \<Rightarrow> nat \<Rightarrow> string list \<Rightarrow> scan \<Rightarrow> scan" where
  "scan_lines U n [] st = dropPending ''missing stream url'' st"
| "scan_lines U n (l # ls) st = scan_lines U (Suc n) ls (scan_line U n l st)"

definition nl :: string where
  "nl = [CHR 0x0A]"

definition scan_playlist :: "unicode \<Rightarrow> string \<Rightarrow> scan" where
  "scan_playlist U playlist = scan_lines U 1 (split_on nl playlist) initial_scan"

subsection \<open>Deduplication and the parser\<close>

fun dedupe :: "string set \<Rightarrow> channel list \<Rightarrow> channel list \<times> string list" where
  "dedupe seen [] = ([], [])"
| "dedupe seen (c # cs) =
     (if IdentityKey c \<in> seen then
        (case dedupe seen cs of (ordered, ws) \<Rightarrow>
           (ordered, (''dropped duplicate channel: '' @ IdentityKey c) # ws))
      else
        (case dedupe (insert (IdentityKey c) seen) cs of (ordered, ws) \<Rightarrow> (c # ordered, ws)))"

type_synonym sorter = "(channel \<Rightarrow> channel \<Rightarrow> bool) \<Rightarrow> channel list \<Rightarrow> channel list"

text \<open>The channels and the warnings logged.\<close>

definition ParseM3U :: "unicode \<Rightarrow> sorter \<Rightarrow> string \<Rightarrow> channel list \<times> string list" where
  "ParseM3U U srt playlist =
     (let st = scan_playlist U playlist;
          (ordered, duplicates) = dedupe {} (srt (channel_less U) (found st))
      in (ordered, warned st @ duplicates))"

subsection \<open>The store\<close>

datatype refresh_error = FetchError string | ZeroValidChannels

text \<open>
  The store is the list of channels; each critical section of the mutex is one function.
  \<open>Refresh\<close> parses outside the lock and then replaces the list; \<open>GetChannels\<close> copies.
\<close>

record store =
  channels :: "channel list"
  store_log :: "string list"

definition NewStore :: store where
  "NewStore = \<lparr>channels = [], store_log = []\<rparr>"

definition GetChannels :: "store \<Rightarrow> channel list" where
  "GetChannels s = channels s"

definition ReplaceFromRaw :: "unicode \<Rightarrow> sorter \<Rightarrow> string \<Rightarrow> store \<Rightarrow> channel list \<times> store" where
  "ReplaceFromRaw U srt playlist s =
     (let (cs, ws) = ParseM3U U srt playlist;
          s' = s\<lparr>channels := cs, store_log := store_log s @ ws\<rparr>
      in (GetChannels s', s'))"

text \<open>
  The \<open>GetChannels\<close> at the end of \<open>Refresh\<close> is a critical section of its own. Between the two
  nobody writes the store: its only writer, once the program runs, is the refresh loop, which
  waits for \<open>Refresh\<close>. So they are one step here.
\<close>

definition Refresh ::
  "unicode \<Rightarrow> sorter \<Rightarrow> string + string \<Rightarrow> store \<Rightarrow> (refresh_error + channel list) \<times> store" where
  "Refresh U srt fetched s =
     (case fetched of
        Inl e \<Rightarrow> (Inl (FetchError e), s)
      | Inr playlist \<Rightarrow>
          let (cs, ws) = ParseM3U U srt playlist;
              logged = s\<lparr>store_log := store_log s @ ws\<rparr>
          in if cs = [] then (Inl ZeroValidChannels, logged)
             else let s' = logged\<lparr>channels := cs\<rparr> in (Inr (GetChannels s'), s'))"

end
