(* ===== verification/M3u_Render.thy ===== *)
theory M3u_Render
  imports M3u
begin

text \<open>
  Playlists as they are written: the text of an entry, and the lemmas that the scan of a
  written playlist finds its entries (attributes, separator, trimming, the two line forms).
\<close>

subsection \<open>Attributes and the separator\<close>

lemma find_attributes_skip:
  "\<not> attr_char c \<Longrightarrow> find_attributes (c # s) = find_attributes s"
  by (subst (1 2) find_attributes.simps) simp

lemma takeWhile_word: "list_all P w \<Longrightarrow> s = [] \<or> \<not> P (hd s) \<Longrightarrow> takeWhile P (w @ s) = w"
  by (cases s) (auto simp: list_all_iff takeWhile_append)

lemma dropWhile_word: "list_all P w \<Longrightarrow> s = [] \<or> \<not> P (hd s) \<Longrightarrow> dropWhile P (w @ s) = s"
  by (cases s) (auto simp: list_all_iff dropWhile_append)

lemma find_attributes_word:
  assumes w: "list_all attr_char w" "w \<noteq> []"
    and s: "s = [] \<or> \<not> attr_char (hd s)" "\<not> has_prefix [CHR ''='', dquote] s"
  shows "find_attributes (w @ s) = find_attributes s"
proof -
  obtain c t where ct: "w @ s = c # t" "attr_char c" using w by (cases w) auto
  then have "dropWhile (\<lambda>c. \<not> attr_char c) (w @ s) = w @ s" by simp
  then show ?thesis
    using s dropWhile_word [OF w(1) s(1)] ct
    by (subst find_attributes.simps) (simp add: Let_def)
qed

lemma find_attributes_pair:
  assumes k: "list_all attr_char k" "k \<noteq> []" and v: "dquote \<notin> set v"
  shows "find_attributes (k @ ''='' @ dquote # v @ dquote # s) = (k, v) # find_attributes s"
proof -
  let ?r = "''='' @ dquote # v @ dquote # s"
  obtain c t where ct: "k @ ?r = c # t" "attr_char c" using k by (cases k) auto
  have hd: "?r = [] \<or> \<not> attr_char (hd ?r)" by (simp add: attr_char_def is_alnum_def is_lower_def is_upper_def is_digit_def code_def)
  have "dropWhile (\<lambda>c. \<not> attr_char c) (k @ ?r) = k @ ?r" using ct by simp
  moreover have "takeWhile (\<lambda>c. c \<noteq> dquote) (v @ dquote # s) = v"
    "dropWhile (\<lambda>c. c \<noteq> dquote) (v @ dquote # s) = dquote # s"
    using v by (auto simp: takeWhile_append dropWhile_append)
  ultimately show ?thesis
    using takeWhile_word [OF k(1) hd] dropWhile_word [OF k(1) hd] ct
    by (subst find_attributes.simps) (simp add: Let_def has_prefix_def)
qed

lemma sep_scan_plain:
  "list_all (\<lambda>c. c \<noteq> dquote \<and> c \<noteq> CHR '','') w \<Longrightarrow> sep_scan False i (w @ s) = sep_scan False (i + length w) s"
  by (induction w arbitrary: i) auto

lemma sep_scan_quoted:
  "dquote \<notin> set v \<Longrightarrow> sep_scan True i (v @ dquote # s) = sep_scan False (i + length v + 1) s"
  by (induction v arbitrary: i) auto

subsection \<open>Metadata lines\<close>

definition render_attr :: "string \<Rightarrow> string \<Rightarrow> string" where
  "render_attr n v = '' '' @ n @ ''='' @ dquote # v @ [dquote]"

definition render_header :: "parsedExtInf \<Rightarrow> string" where
  "render_header p = extinf @ ''-1'' @ render_attr ''tvg-id'' (x_TVGID p) @
     render_attr ''tvg-chno'' (x_Number p) @ render_attr ''tvg-logo'' (x_LogoURL p) @
     render_attr ''group-title'' (x_GroupTitle p)"

definition render_extinf :: "parsedExtInf \<Rightarrow> string" where
  "render_extinf p = render_header p @ '','' @ x_Name p"

definition attr_text :: "string \<Rightarrow> bool" where
  "attr_text v \<longleftrightarrow> dquote \<notin> set v \<and> CHR 0x0A \<notin> set v"

definition entry_ok :: "parsedExtInf \<Rightarrow> bool" where
  "entry_ok p \<longleftrightarrow> attr_text (x_TVGID p) \<and> attr_text (x_Number p) \<and> attr_text (x_LogoURL p) \<and>
     attr_text (x_GroupTitle p) \<and> x_Name p \<noteq> [] \<and> trim_space (x_Name p) = x_Name p \<and> CHR 0x0A \<notin> set (x_Name p)"

declare find_attributes.simps [simp del]

lemma comma_dquote: "CHR '','' \<noteq> dquote"
  by (simp add: dquote_def)

lemmas char_facts = is_alnum_def is_lower_def is_upper_def is_digit_def code_def

lemma find_attributes_render:
  "dquote \<notin> set v \<Longrightarrow> list_all attr_char n \<Longrightarrow> n \<noteq> [] \<Longrightarrow>
   find_attributes (render_attr n v @ s) = (n, v) # find_attributes s"
  using find_attributes_pair [of n v s]
  by (simp add: render_attr_def find_attributes_skip attr_char_def char_facts)

lemma find_attributes_Nil [simp]: "find_attributes [] = []"
  by (subst find_attributes.simps) simp

lemma find_attributes_header:
  assumes "entry_ok p"
  shows "find_attributes (render_header p) =
    [(''tvg-id'', x_TVGID p), (''tvg-chno'', x_Number p), (''tvg-logo'', x_LogoURL p),
     (''group-title'', x_GroupTitle p)]"
proof -
  let ?t = "render_attr ''tvg-id'' (x_TVGID p) @ render_attr ''tvg-chno'' (x_Number p) @
    render_attr ''tvg-logo'' (x_LogoURL p) @ render_attr ''group-title'' (x_GroupTitle p)"
  have names: "list_all attr_char ''tvg-id''" "list_all attr_char ''tvg-chno''"
    "list_all attr_char ''tvg-logo''" "list_all attr_char ''group-title''"
    by (simp_all add: attr_char_def char_facts)
  have "render_header p = CHR ''#'' # ''EXTINF'' @ CHR '':'' # ''-1'' @ ?t"
    by (simp add: render_header_def extinf_def)
  moreover have "find_attributes (CHR ''#'' # ''EXTINF'' @ CHR '':'' # ''-1'' @ ?t) = find_attributes (''EXTINF'' @ CHR '':'' # ''-1'' @ ?t)"
    by (rule find_attributes_skip) (simp add: attr_char_def char_facts)
  moreover have "find_attributes (''EXTINF'' @ CHR '':'' # ''-1'' @ ?t) = find_attributes (CHR '':'' # ''-1'' @ ?t)"
    by (rule find_attributes_word) (simp_all add: attr_char_def char_facts has_prefix_def)
  moreover have "find_attributes (CHR '':'' # ''-1'' @ ?t) = find_attributes (''-1'' @ ?t)"
    by (rule find_attributes_skip) (simp add: attr_char_def char_facts)
  moreover have "find_attributes (''-1'' @ ?t) = find_attributes ?t"
    by (rule find_attributes_word) (simp_all add: render_attr_def attr_char_def char_facts has_prefix_def)
  moreover have "find_attributes (render_attr ''group-title'' (x_GroupTitle p)) = [(''group-title'', x_GroupTitle p)]"
    using find_attributes_render [of "x_GroupTitle p" "''group-title''" "[]"] assms names
    by (simp add: entry_ok_def attr_text_def)
  ultimately show ?thesis
    using assms names by (simp add: entry_ok_def attr_text_def find_attributes_render)
qed

lemma sep_scan_attr:
  assumes "list_all (\<lambda>c. c \<noteq> dquote \<and> c \<noteq> CHR '','') n" and "dquote \<notin> set v"
  shows "sep_scan False i (render_attr n v @ s) = sep_scan False (i + length (render_attr n v)) s"
proof -
  have "list_all (\<lambda>c. c \<noteq> dquote \<and> c \<noteq> CHR '','') ('' '' @ n @ ''='')"
    using assms(1) by (simp add: dquote_def)
  from sep_scan_plain [OF this, of i "dquote # v @ dquote # s"]
  have "sep_scan False i (render_attr n v @ s) =
      sep_scan False (i + length ('' '' @ n @ ''='')) (dquote # v @ dquote # s)"
    by (simp only: render_attr_def append.assoc append_Cons append_Nil)
  also have "\<dots> = sep_scan False (i + length ('' '' @ n @ ''='') + 1 + length v + 1) s"
    using sep_scan_quoted [OF assms(2)] by simp
  finally show ?thesis by (simp add: render_attr_def ac_simps)
qed

lemma parseExtInf_render:
  assumes "entry_ok p"
  shows "parseExtInf U (render_extinf p) = Some p"
proof -
  have names: "list_all (\<lambda>c. c \<noteq> dquote \<and> c \<noteq> CHR '','') ''tvg-id''"
    "list_all (\<lambda>c. c \<noteq> dquote \<and> c \<noteq> CHR '','') ''tvg-chno''"
    "list_all (\<lambda>c. c \<noteq> dquote \<and> c \<noteq> CHR '','') ''tvg-logo''"
    "list_all (\<lambda>c. c \<noteq> dquote \<and> c \<noteq> CHR '','') ''group-title''"
    "list_all (\<lambda>c. c \<noteq> dquote \<and> c \<noteq> CHR '','') ''-1''"
    by (simp_all add: dquote_def)
  have "findExtInfSeparator (render_extinf p) = Some (length (render_header p))"
    using assms sep_scan_plain [OF names(5), of "length extinf"]
    by (simp add: findExtInfSeparator_def render_extinf_def render_header_def comma_dquote ac_simps
        sep_scan_attr [OF names(1)] sep_scan_attr [OF names(2)] sep_scan_attr [OF names(3)]
        sep_scan_attr [OF names(4)] entry_ok_def attr_text_def)
  moreover have "has_prefix extinf (render_extinf p)"
    by (simp add: render_extinf_def render_header_def)
  moreover have "drop (length (render_header p) + 1) (render_extinf p) = x_Name p"
    "take (length (render_header p)) (render_extinf p) = render_header p"
    by (simp_all add: render_extinf_def)
  moreover have "attribute U (find_attributes (render_header p)) ''tvg-id'' = x_TVGID p"
    "attribute U (find_attributes (render_header p)) ''tvg-chno'' = x_Number p"
    "attribute U (find_attributes (render_header p)) ''tvg-logo'' = x_LogoURL p"
    "attribute U (find_attributes (render_header p)) ''group-title'' = x_GroupTitle p"
    unfolding find_attributes_header [OF assms] attribute_def
    by (simp_all add: to_lower_def is_ascii_def lower_char_def char_facts)
  ultimately show ?thesis using assms by (simp add: parseExtInf_def Let_def entry_ok_def)
qed

subsection \<open>Address lines and whole playlists\<close>

lemma set_path_Scheme: "set_path u p = Some v \<Longrightarrow> Scheme v = Scheme u"
  by (auto simp: set_path_def)

lemma parse_rest_Scheme: "parse_rest u rest = Some v \<Longrightarrow> Scheme v = Scheme u"
  by (auto simp: parse_rest_def Let_def dest: set_path_Scheme split: if_splits option.splits prod.splits)

lemma scheme_scan_letter:
  "scheme_scan raw 0 s = Some (scheme, rest) \<Longrightarrow> scheme \<noteq> [] \<Longrightarrow> raw = s \<Longrightarrow>
   \<exists>c t. s = c # t \<and> (is_lower c \<or> is_upper c)"
  by (cases s) (auto split: if_splits)

lemma parse_no_fragment_letter:
  assumes "parse_no_fragment s = Some u" and "Scheme u \<noteq> []"
  shows "\<exists>c t. s = c # t \<and> (is_lower c \<or> is_upper c)"
proof -
  obtain scheme rest where sc: "scheme_scan s 0 s = Some (scheme, rest)"
    using assms by (auto simp: parse_no_fragment_def empty_url_def split: if_splits option.splits)
  with assms have "Scheme u = map lower_char scheme"
    by (auto simp: parse_no_fragment_def Let_def empty_url_def dest!: parse_rest_Scheme
        split: if_splits prod.splits)
  with assms(2) have "scheme \<noteq> []" by simp
  with scheme_scan_letter [OF sc] show ?thesis by simp
qed

lemma parse_url_front:
  assumes "parse_url s = Some u"
  shows "\<exists>v. parse_no_fragment (fst (cut (CHR ''#'') s)) = Some v \<and> Scheme v = Scheme u"
  using assms by (auto simp: parse_url_def set_fragment_def split: prod.splits option.splits if_splits)

lemma allowed_letter:
  assumes "isAllowedStreamURL s"
  shows "\<exists>c t. s = c # t \<and> (is_lower c \<or> is_upper c)"
proof -
  obtain u where u: "parse_url s = Some u" "Scheme u \<noteq> []"
    using assms by (auto simp: isAllowedStreamURL_def split: option.splits)
  then obtain v where "parse_no_fragment (fst (cut (CHR ''#'') s)) = Some v" "Scheme v \<noteq> []"
    using parse_url_front by force
  from parse_no_fragment_letter [OF this] obtain c t
    where "fst (cut (CHR ''#'') s) = c # t" "is_lower c \<or> is_upper c" by blast
  then show ?thesis by (cases s) (auto simp: cut_def split: option.splits if_splits)
qed

lemma letter_facts:
  assumes "is_lower c \<or> is_upper c"
  shows "never_space c" and "c \<noteq> CHR ''#''"
  using assms by (auto simp: char_facts intro!: never_space_ascii)

lemma scan_line_url:
  assumes "isAllowedStreamURL u" and "pending st = Some q"
  shows "scan_line U n u st = finalizePending U u st"
proof -
  obtain c t where c: "u = c # t" "is_lower c \<or> is_upper c" using allowed_letter [OF assms(1)] by blast
  then obtain r where r: "trim_space u = c # r" using trim_space_Cons letter_facts by blast
  then have "parseExtInf U (trim_space u) = None" "\<not> has_prefix extinf (trim_space u)"
    "\<not> has_prefix ''#'' (trim_space u)" "trim_space u \<noteq> ''#EXTM3U''"
    using letter_facts [OF c(2)] by (auto simp: parseExtInf_def has_prefix_def extinf_def)
  then show ?thesis using assms r letter_facts(2) [OF c(2)] by (simp add: scan_line_def Let_def)
qed

lemma scan_line_extinf:
  assumes "entry_ok p"
  shows "scan_line U n (render_extinf p) st =
    (dropPending ''missing stream url'' st)\<lparr>pending := Some (p, n)\<rparr>"
proof -
  obtain x where x: "render_extinf p = CHR ''#'' # x @ CHR '','' # x_Name p"
    by (simp add: render_extinf_def render_header_def extinf_def)
  have "never_space (CHR ''#'')" "never_space (CHR '','')"
    by (simp_all add: never_space_ascii code_def)
  with assms have trim: "trim_space (render_extinf p) = render_extinf p"
    unfolding x by (simp add: trim_space_middle entry_ok_def)
  have "render_extinf p \<noteq> ''#EXTM3U''" "render_extinf p \<noteq> []"
    by (simp_all add: render_extinf_def render_header_def extinf_def)
  then show ?thesis
    using parseExtInf_render [OF assms] by (simp add: scan_line_def Let_def trim)
qed

text \<open>A playlist: each entry as a metadata line and an address line.\<close>

fun entry_lines :: "(parsedExtInf \<times> string) list \<Rightarrow> string list" where
  "entry_lines [] = []"
| "entry_lines ((p, u) # es) = render_extinf p # u # entry_lines es"

definition render_playlist :: "(parsedExtInf \<times> string) list \<Rightarrow> string" where
  "render_playlist es = join nl (''#EXTM3U'' # entry_lines es)"

definition entries_ok :: "(parsedExtInf \<times> string) list \<Rightarrow> bool" where
  "entries_ok es \<longleftrightarrow>
     list_all (\<lambda>(p, u). entry_ok p \<and> isAllowedStreamURL u \<and> CHR 0x0A \<notin> set u) es"

fun build_channels :: "unicode \<Rightarrow> nat \<Rightarrow> (parsedExtInf \<times> string) list \<Rightarrow> channel list" where
  "build_channels U k [] = []"
| "build_channels U k ((p, u) # es) = build_channel U k p u # build_channels U (Suc k) es"

lemma scan_entries:
  "entries_ok es \<Longrightarrow> pending st = None \<Longrightarrow>
   scan_lines U n (entry_lines es) st =
     st\<lparr>found := found st @ build_channels U (sourceIndex st) es,
        sourceIndex := sourceIndex st + length es\<rparr>"
proof (induction es arbitrary: n st rule: entry_lines.induct)
  case 1
  then show ?case by (simp add: dropPending_def)
next
  case (2 p u es)
  then show ?case
    by (simp add: entries_ok_def scan_line_extinf scan_line_url dropPending_def finalizePending_def)
qed

lemma entry_lines_no_newline:
  "entries_ok es \<Longrightarrow> list_all (\<lambda>l. CHR 0x0A \<notin> set l) (entry_lines es)"
  by (induction es rule: entry_lines.induct)
    (auto simp: entries_ok_def entry_ok_def attr_text_def render_extinf_def render_header_def
      render_attr_def extinf_def dquote_def)

lemma scan_rendered:
  assumes "entries_ok es"
  shows "found (scan_playlist U (render_playlist es)) = build_channels U 0 es \<and>
    warned (scan_playlist U (render_playlist es)) = []"
proof -
  have "list_all (\<lambda>l. CHR 0x0A \<notin> set l) (''#EXTM3U'' # entry_lines es)"
    using entry_lines_no_newline [OF assms] by simp
  from split_on_join [OF this] have "split_on nl (render_playlist es) = ''#EXTM3U'' # entry_lines es"
    by (simp add: render_playlist_def nl_def)
  moreover have "trim_space ''#EXTM3U'' = ''#EXTM3U''" by code_simp
  ultimately show ?thesis
    using scan_entries [OF assms, of initial_scan U "Suc 1"]
    by (simp add: scan_playlist_def scan_line_def initial_scan_def)
qed

end
