(* ===== verification/M3u_Properties.thy ===== *)
theory M3u_Properties
  imports M3u_Render
begin

text \<open>
  What the playlist parser promises: the order and the uniqueness of the channels, that the
  unstable sort leaves no choice when identities are distinct, that a rendered playlist is
  read back, what happens to playlists with carriage returns, and what the store serves.
\<close>

subsection \<open>The order is lexicographic on a key\<close>

text \<open>Numbered channels first, by number; then by name; then by identity.\<close>

definition rank :: "unicode \<Rightarrow> channel \<Rightarrow> bool \<times> int \<times> string \<times> string" where
  "rank U c =
     (let numeric = numericGuideNumber (Number c)
      in (\<not> numeric, if numeric then fst (atoi (Number c)) else 0, to_lower U (Name c), IdentityKey c))"

lemma rank_key: "rank U a = rank U b \<Longrightarrow> IdentityKey a = IdentityKey b"
  by (simp add: rank_def Let_def)

lemma compareChannels_rank:
  "compareChannels U a b = (if rank U a < rank U b then -1 else if rank U b < rank U a then 1 else 0)"
  unfolding compareChannels_def rank_def Let_def less_prod_def less_eq_prod_def
  by (auto simp: less_le_not_le [symmetric] not_less)

lemma channel_less_rank: "channel_less U a b \<longleftrightarrow> rank U a < rank U b"
  by (simp add: channel_less_def compareChannels_rank)

lemma channel_less_eq: "channel_less U = (\<lambda>a b. rank U a < rank U b)"
  by (intro ext) (simp add: channel_less_rank)

lemma strict_weak_channel_less: "strict_weak (channel_less U)"
  unfolding strict_weak_def channel_less_rank by (auto simp: not_less)

subsection \<open>Deduplication\<close>

lemma dedupe_fst [simp]:
  "fst (dedupe seen (c # cs)) =
     (if IdentityKey c \<in> seen then fst (dedupe seen cs)
      else c # fst (dedupe (insert (IdentityKey c) seen) cs))"
  by (simp split: prod.splits)

lemma dedupe_keys: "IdentityKey ` set (fst (dedupe seen cs)) = IdentityKey ` set cs - seen"
  by (induction cs arbitrary: seen) (auto simp del: dedupe.simps(2))

lemma dedupe_distinct: "distinct (map IdentityKey (fst (dedupe seen cs)))"
  by (induction cs arbitrary: seen) (simp_all add: dedupe_keys del: dedupe.simps(2))

lemma dedupe_subset: "set (fst (dedupe seen cs)) \<subseteq> set cs"
proof (induction cs arbitrary: seen)
  case (Cons c cs)
  show ?case using Cons [of seen] Cons [of "insert (IdentityKey c) seen"]
    by (auto simp del: dedupe.simps(2))
qed simp

lemma dedupe_sorted: "sorted_wrt P cs \<Longrightarrow> sorted_wrt P (fst (dedupe seen cs))"
  by (induction cs arbitrary: seen) (use dedupe_subset in \<open>fastforce simp del: dedupe.simps(2)\<close>)+

lemma dedupe_distinct_id:
  "distinct (map IdentityKey cs) \<Longrightarrow> IdentityKey ` set cs \<inter> seen = {} \<Longrightarrow> dedupe seen cs = (cs, [])"
  by (induction cs arbitrary: seen) auto

text \<open>The survivor of a key comes before every other channel with that key.\<close>

lemma dedupe_first:
  "sorted_wrt P cs \<Longrightarrow> c \<in> set cs \<Longrightarrow> IdentityKey c \<notin> seen \<Longrightarrow>
   \<exists>d \<in> set (fst (dedupe seen cs)). IdentityKey d = IdentityKey c \<and> (d = c \<or> P d c)"
proof (induction cs arbitrary: seen)
  case (Cons b cs)
  show ?case
  proof (cases "IdentityKey b = IdentityKey c")
    case True
    with Cons.prems have "b \<in> set (fst (dedupe seen (b # cs)))" "b = c \<or> P b c"
      by (auto simp del: dedupe.simps(2))
    with True show ?thesis by blast
  next
    case False
    with Cons show ?thesis by (auto simp del: dedupe.simps(2))
  qed
qed simp

lemma sorted_strict:
  "sorted_wrt (\<lambda>a b. rank U a \<le> rank U b) cs \<Longrightarrow> distinct (map IdentityKey cs) \<Longrightarrow>
   sorted_wrt (\<lambda>a b. rank U a < rank U b) cs"
  by (induction cs) (fastforce simp: less_le dest: rank_key)+

subsection \<open>Order and uniqueness of the result\<close>

lemma ParseM3U_fst:
  "fst (ParseM3U U srt p) = fst (dedupe {} (srt (channel_less U) (found (scan_playlist U p))))"
  by (simp add: ParseM3U_def Let_def split_beta)

text \<open>
  C31 The channels of a playlist are in order and unique. Whatever the playlist and whatever
  sorting function meets the contract of sort.Slice, the result is strictly increasing in
  the rank (numbered channels first, by number, then lower-cased name, then identity), no
  identity occurs twice, every identity found in the playlist occurs, and the channel kept
  for an identity is one of least rank among those found with it.
\<close>

theorem playlist_order:
  assumes srt: "slice_sorter srt"
  shows "sorted_wrt (\<lambda>a b. rank U a < rank U b) (fst (ParseM3U U srt p)) \<and>
     distinct (map IdentityKey (fst (ParseM3U U srt p))) \<and>
     IdentityKey ` set (fst (ParseM3U U srt p)) = IdentityKey ` set (found (scan_playlist U p)) \<and>
     (\<forall>c \<in> set (found (scan_playlist U p)). \<exists>d \<in> set (fst (ParseM3U U srt p)).
        d \<in> set (found (scan_playlist U p)) \<and> IdentityKey d = IdentityKey c \<and> rank U d \<le> rank U c)"
proof -
  let ?f = "found (scan_playlist U p)" and ?s = "srt (channel_less U) (found (scan_playlist U p))"
  let ?r = "fst (ParseM3U U srt p)"
  have set_s: "set ?s = set ?f" by (rule slice_sorter.set_srt [OF srt])
  have sorted: "sorted_wrt (\<lambda>a b. rank U a \<le> rank U b) ?s"
    using slice_sorter.sorted_srt [OF srt strict_weak_channel_less, of U ?f]
    by (simp add: channel_less_rank not_less)
  have sub: "set ?r \<subseteq> set ?f"
    using dedupe_subset [of "{}" ?s] by (simp add: ParseM3U_fst set_s)
  have least: "\<exists>d \<in> set ?r. d \<in> set ?f \<and> IdentityKey d = IdentityKey c \<and> rank U d \<le> rank U c"
    if "c \<in> set ?f" for c
    using dedupe_first [OF sorted, of c "{}"] that sub
    by (auto simp: ParseM3U_fst set_s)
  show ?thesis
    using least sorted_strict [OF dedupe_sorted [OF sorted] dedupe_distinct]
      dedupe_distinct [of "{}" ?s] dedupe_keys [of "{}" ?s]
    by (auto simp: ParseM3U_fst set_s)
qed

subsection \<open>No freedom for the sort when identities are distinct\<close>

lemma ParseM3U_distinct:
  assumes srt: "slice_sorter srt" and keys: "distinct (map IdentityKey (found (scan_playlist U p)))"
  shows "ParseM3U U srt p =
    (sort_key (rank U) (found (scan_playlist U p)), warned (scan_playlist U p))"
proof -
  let ?f = "found (scan_playlist U p)"
  have "inj_on (rank U) (set ?f)"
    using keys by (auto simp: distinct_map inj_on_def dest: rank_key)
  then have "distinct (map (rank U) ?f)" using keys by (simp add: distinct_map)
  then have eq: "srt (channel_less U) ?f = sort_key (rank U) ?f"
    unfolding channel_less_eq by (rule slice_sorter.srt_unique [OF srt]) simp_all
  have "mset (map IdentityKey (sort_key (rank U) ?f)) = mset (map IdentityKey ?f)" by simp
  then have "distinct (map IdentityKey (sort_key (rank U) ?f))"
    using keys mset_eq_imp_distinct_iff by blast
  then show ?thesis by (simp add: ParseM3U_def eq dedupe_distinct_id Let_def)
qed

text \<open>
  C32 A written playlist is read back. Write any entries (attributes without quotes and line
  breaks, a trimmed non-empty name, an address the parser allows) as an M3U file. If their
  identities are distinct, parsing the file with any function that meets the contract of
  sort.Slice returns one channel per entry with exactly the written fields, ordered by
  rank, and logs no warning.
\<close>

theorem playlist_roundtrip:
  assumes "slice_sorter srt" and "entries_ok es"
    and "distinct (map IdentityKey (build_channels U 0 es))"
  shows "ParseM3U U srt (render_playlist es) = (sort_key (rank U) (build_channels U 0 es), [])"
  using ParseM3U_distinct [OF assms(1), of U "render_playlist es"] scan_rendered [OF assms(2), of U]
    assms(3) by simp

text \<open>
  The unstable sort leaves no choice between distinct channels. If no two channels found
  in a playlist have the same identity, any two functions that meet the contract of
  sort.Slice give the same channels and the same warnings.
\<close>

theorem sorter_irrelevant:
  assumes "slice_sorter srt1" and "slice_sorter srt2"
    and "distinct (map IdentityKey (found (scan_playlist U p)))"
  shows "ParseM3U U srt1 p = ParseM3U U srt2 p"
  using ParseM3U_distinct [OF assms(1,3)] ParseM3U_distinct [OF assms(2,3)] by simp

subsection \<open>Every channel is well formed\<close>

definition entry_parsed :: "parsedExtInf \<Rightarrow> bool" where
  "entry_parsed p \<longleftrightarrow> x_Name p \<noteq> []"

definition channel_ok :: "unicode \<Rightarrow> channel \<Rightarrow> bool" where
  "channel_ok U c \<longleftrightarrow> isAllowedStreamURL (StreamURL c) \<and> Name c \<noteq> [] \<and>
     IdentityKey c = BuildChannelIdentity U (TVGID c) (Number c) (Name c) (StreamURL c) \<and>
     ID c = BuildChannelID (IdentityKey c)"

definition scan_ok :: "unicode \<Rightarrow> scan \<Rightarrow> bool" where
  "scan_ok U st \<longleftrightarrow> list_all (channel_ok U) (found st) \<and>
     map SourceIndex (found st) = [0..<sourceIndex st] \<and>
     (case pending st of None \<Rightarrow> True | Some (p, _) \<Rightarrow> entry_parsed p)"

lemma parseExtInf_parsed: "parseExtInf U l = Some p \<Longrightarrow> entry_parsed p"
  by (auto simp: parseExtInf_def Let_def entry_parsed_def split: if_splits option.splits)

lemma scan_ok_warn [simp]: "scan_ok U (warn_line n r st) = scan_ok U st"
  by (simp add: scan_ok_def warn_line_def)

lemma scan_ok_drop: "scan_ok U st \<Longrightarrow> scan_ok U (dropPending r st)"
  by (auto simp: dropPending_def scan_ok_def warn_line_def split: option.splits prod.splits)

lemma scan_ok_finalize: "scan_ok U st \<Longrightarrow> isAllowedStreamURL u \<Longrightarrow> scan_ok U (finalizePending U u st)"
  by (auto simp: finalizePending_def scan_ok_def build_channel_def channel_ok_def entry_parsed_def
      Let_def split: option.splits prod.splits)

lemma scan_ok_pending: "scan_ok U st \<Longrightarrow> entry_parsed p \<Longrightarrow> scan_ok U (st\<lparr>pending := Some (p, n)\<rparr>)"
  by (simp add: scan_ok_def)

lemma scan_ok_line: "scan_ok U st \<Longrightarrow> scan_ok U (scan_line U n l st)"
  unfolding scan_line_def Let_def
  by (auto split: option.splits intro!: scan_ok_drop scan_ok_finalize scan_ok_pending parseExtInf_parsed)

lemma scan_ok_lines: "scan_ok U st \<Longrightarrow> scan_ok U (scan_lines U n ls st)"
  by (induction ls arbitrary: n st) (simp_all add: scan_ok_drop scan_ok_line)

lemma scan_ok_playlist: "scan_ok U (scan_playlist U p)"
  unfolding scan_playlist_def
  by (rule scan_ok_lines) (simp add: scan_ok_def initial_scan_def)

lemma ParseM3U_subset:
  "slice_sorter srt \<Longrightarrow> set (fst (ParseM3U U srt p)) \<subseteq> set (found (scan_playlist U p))"
  using dedupe_subset slice_sorter.set_srt by (simp add: ParseM3U_fst) blast

lemma ParseM3U_channel_ok: "slice_sorter srt \<Longrightarrow> list_all (channel_ok U) (fst (ParseM3U U srt p))"
  using ParseM3U_subset [of srt U p] scan_ok_playlist [of U p] by (auto simp: scan_ok_def list_all_iff)

text \<open>
  C33 Every channel is well formed. Whatever the playlist, each channel returned has an
  address of an allowed scheme, a name, the identity and the id computed from its own
  fields, and a source index that no other channel of the result has.
\<close>

theorem channels_well_formed:
  assumes "slice_sorter srt"
  shows "list_all (channel_ok U) (fst (ParseM3U U srt p)) \<and>
    distinct (map SourceIndex (fst (ParseM3U U srt p)))"
proof -
  let ?f = "found (scan_playlist U p)" and ?r = "fst (ParseM3U U srt p)"
  have "distinct (map SourceIndex ?f)" using scan_ok_playlist [of U p] by (simp add: scan_ok_def)
  moreover have "distinct ?r"
    using dedupe_distinct by (metis ParseM3U_fst distinct_map)
  ultimately show ?thesis
    using ParseM3U_subset [OF assms, of U p] ParseM3U_channel_ok [OF assms]
    by (auto simp: distinct_map intro: inj_on_subset)
qed

subsection \<open>Two behaviours of damaged playlists\<close>

text \<open>
  A malformed entry hands its address to the entry before it. If an entry waiting for
  its address is followed by a metadata line that does not parse and then by an address,
  the scan warns about the malformed line and builds the waiting entry's channel with the
  malformed entry's address.
\<close>

theorem malformed_entry_steals_address:
  assumes "entry_ok p" and "trim_space l = l" and "has_prefix extinf l" and "parseExtInf U l = None"
    and "isAllowedStreamURL u" and "\<forall>s \<in> {l, u}. CHR 0x0A \<notin> set s"
  shows "found (scan_playlist U (join nl [render_extinf p, l, u])) = [build_channel U 0 p u]"
proof -
  have "list_all (\<lambda>s. CHR 0x0A \<notin> set s) [render_extinf p, l, u]"
    using assms(1,6) by (auto simp: entry_ok_def attr_text_def render_extinf_def render_header_def
        render_attr_def extinf_def dquote_def)
  from split_on_join [OF this]
  have lines: "split_on nl (join nl [render_extinf p, l, u]) = [render_extinf p, l, u]"
    by (simp add: nl_def)
  have "l \<noteq> []" "l \<noteq> ''#EXTM3U''" using assms(3) by (auto simp: has_prefix_def extinf_def)
  then have "scan_line U n l st = warn_line n ''malformed metadata'' st" for n st
    using assms by (simp add: scan_line_def Let_def)
  then show ?thesis
    using assms(1,5) unfolding scan_playlist_def lines
    by (simp add: scan_line_extinf scan_line_url initial_scan_def dropPending_def warn_line_def
        finalizePending_def)
qed

lemma ctl_not_allowed:
  assumes "CHR ''#'' \<notin> set l"
  shows "\<not> isAllowedStreamURL (l @ [CHR 0x0D])"
proof -
  have "cut (CHR ''#'') (l @ [CHR 0x0D]) = (l @ [CHR 0x0D], [], False)"
    using assms by (simp add: cut_def index_byte_None [THEN iffD2])
  then show ?thesis
    by (simp add: isAllowedStreamURL_def parse_url_def parse_no_fragment_def has_ctl_byte_def code_def)
qed

lemma scan_line_no_url:
  "has_prefix ''#'' (trim_space l) \<or> \<not> isAllowedStreamURL l \<Longrightarrow> found (scan_line U n l st) = found st"
  by (auto simp: scan_line_def Let_def warn_line_def dropPending_def has_prefix_def extinf_def
      split: option.splits prod.splits)

lemma scan_lines_no_url:
  "list_all (\<lambda>l. has_prefix ''#'' (trim_space l) \<or> \<not> isAllowedStreamURL l) ls \<Longrightarrow>
   found (scan_lines U n ls st) = found st"
  by (induction ls arbitrary: n st)
    (auto simp: scan_line_no_url dropPending_def warn_line_def split: option.splits prod.splits)

text \<open>
  Playlists with carriage returns have no channels. If every line of a playlist ends with
  a carriage return before the line feed, and no line but the metadata and comment lines
  has a number sign, every address is rejected: the result is empty whatever the entries.
\<close>

theorem crlf_playlist_empty:
  assumes "slice_sorter srt"
    and "list_all (\<lambda>l. CHR 0x0A \<notin> set l \<and> (has_prefix ''#'' (trim_space (l @ [CHR 0x0D])) \<or> CHR ''#'' \<notin> set l)) ls"
    and "ls \<noteq> []"
  shows "fst (ParseM3U U srt (join nl (map (\<lambda>l. l @ [CHR 0x0D]) ls))) = []"
proof -
  let ?ls = "map (\<lambda>l. l @ [CHR 0x0D]) ls"
  have "list_all (\<lambda>l. CHR 0x0A \<notin> set l) ?ls" using assms(2) by (auto simp: list_all_iff)
  from split_on_join [OF this] assms(3) have "split_on nl (join nl ?ls) = ?ls" by (simp add: nl_def)
  moreover have "list_all (\<lambda>l. has_prefix ''#'' (trim_space l) \<or> \<not> isAllowedStreamURL l) ?ls"
    using assms(2) ctl_not_allowed by (auto simp: list_all_iff)
  ultimately have "found (scan_playlist U (join nl ?ls)) = []"
    by (simp add: scan_playlist_def scan_lines_no_url initial_scan_def)
  then have "set (srt (channel_less U) (found (scan_playlist U (join nl ?ls)))) = {}"
    using slice_sorter.set_srt [OF assms(1)] by simp
  then show ?thesis by (simp add: ParseM3U_fst)
qed

subsection \<open>The store\<close>

datatype store_op = Replace string | Fetched "string + string"

fun store_step :: "unicode \<Rightarrow> sorter \<Rightarrow> store_op \<Rightarrow> store \<Rightarrow> store" where
  "store_step U srt (Replace p) s = snd (ReplaceFromRaw U srt p s)"
| "store_step U srt (Fetched r) s = snd (Refresh U srt r s)"

text \<open>What a client of the store is promised: the last list that was accepted.\<close>

fun accepted :: "unicode \<Rightarrow> sorter \<Rightarrow> store_op \<Rightarrow> channel list option" where
  "accepted U srt (Replace p) = Some (fst (ParseM3U U srt p))"
| "accepted U srt (Fetched (Inl e)) = None"
| "accepted U srt (Fetched (Inr p)) =
     (if fst (ParseM3U U srt p) = [] then None else Some (fst (ParseM3U U srt p)))"

lemma store_step_channels:
  "channels (store_step U srt op s) = (case accepted U srt op of None \<Rightarrow> channels s | Some cs \<Rightarrow> cs)"
  by (cases "(U, srt, op)" rule: accepted.cases)
    (simp_all add: ReplaceFromRaw_def Refresh_def Let_def split_beta)

text \<open>
  C35 The store serves the last good playlist. After any sequence of replacements and
  refreshes, GetChannels returns the channels of the last operation that was accepted (a
  refresh is accepted when the fetch succeeds and the playlist has at least one channel),
  and a refresh reports an error exactly when it is not accepted.
\<close>

theorem store_last_good:
  "GetChannels (fold (store_step U srt) ops NewStore) =
     (case List.map_filter (accepted U srt) (rev ops) of [] \<Rightarrow> [] | cs # _ \<Rightarrow> cs) \<and>
   ((\<exists>e. fst (Refresh U srt r s) = Inl e) = (accepted U srt (Fetched r) = None))"
proof
  show "GetChannels (fold (store_step U srt) ops NewStore) =
     (case List.map_filter (accepted U srt) (rev ops) of [] \<Rightarrow> [] | cs # _ \<Rightarrow> cs)"
  proof (induction ops rule: rev_induct)
    case Nil
    then show ?case by (simp add: GetChannels_def NewStore_def map_filter_simps)
  next
    case (snoc op ops)
    then show ?case
      by (simp add: GetChannels_def store_step_channels map_filter_simps split: option.splits)
  qed
  show "(\<exists>e. fst (Refresh U srt r s) = Inl e) = (accepted U srt (Fetched r) = None)"
    by (cases r) (simp_all add: Refresh_def Let_def split_beta)
qed

subsection \<open>Concrete playlists\<close>

definition example_entry :: "string \<Rightarrow> string \<Rightarrow> parsedExtInf" where
  "example_entry n name =
     \<lparr>x_TVGID = [], x_Number = n, x_Name = name, x_LogoURL = [], x_GroupTitle = ''tv''\<rparr>"

definition example_entries :: "(parsedExtInf \<times> string) list" where
  "example_entries = [(example_entry ''10'' ''Beta'', ''http://a/b?x=1''),
                      (example_entry ''9'' ''Alpha'', ''rtsp://a:554/c'')]"

lemma example_trim: "trim_space ''Beta'' = ''Beta''" "trim_space ''Alpha'' = ''Alpha''"
  by code_simp+

lemma example_allowed: "isAllowedStreamURL ''http://a/b?x=1''" "isAllowedStreamURL ''rtsp://a:554/c''"
  by code_simp+

lemma example_entry_ok: "name = ''Beta'' \<or> name = ''Alpha'' \<Longrightarrow> attr_text n \<Longrightarrow> entry_ok (example_entry n name)"
  by (auto simp: entry_ok_def example_entry_def attr_text_def dquote_def example_trim)

lemma example_entries_ok: "entries_ok example_entries"
  using example_entry_ok example_allowed
  by (auto simp: entries_ok_def example_entries_def attr_text_def dquote_def)

lemma example_identity:
  "BuildChannelIdentity ascii_only [] ''10'' ''Beta'' ''http://a/b?x=1'' = ''number-name:10:beta''"
  "BuildChannelIdentity ascii_only [] ''9'' ''Alpha'' ''rtsp://a:554/c'' = ''number-name:9:alpha''"
  by code_simp+

lemma example_keys:
  "map IdentityKey (build_channels ascii_only 0 example_entries) = [''number-name:10:beta'', ''number-name:9:alpha'']"
  using example_identity
  by (simp add: example_entries_def build_channel_def example_entry_def Let_def)

lemma example_found:
  "found (scan_playlist ascii_only (render_playlist example_entries)) = build_channels ascii_only 0 example_entries"
  using scan_rendered [OF example_entries_ok] by simp

theorem playlist_roundtrip_witness:
  "ParseM3U ascii_only insertion_sort (render_playlist example_entries) =
     (sort_key (rank ascii_only) (build_channels ascii_only 0 example_entries), [])"
  by (rule playlist_roundtrip [OF ins.slice_sorter_axioms example_entries_ok]) (simp add: example_keys)

theorem playlist_order_witness:
  "IdentityKey ` set (fst (ParseM3U ascii_only insertion_sort (render_playlist example_entries))) =
     {''number-name:10:beta'', ''number-name:9:alpha''}"
proof -
  have "IdentityKey ` set (build_channels ascii_only 0 example_entries) = {''number-name:10:beta'', ''number-name:9:alpha''}"
    using example_keys by (metis list.set_map list.simps(15) empty_set)
  then show ?thesis
    using playlist_order [OF ins.slice_sorter_axioms, of ascii_only "render_playlist example_entries"]
    by (simp add: example_found)
qed

theorem sorter_irrelevant_witness:
  "ParseM3U ascii_only insertion_sort (render_playlist example_entries) =
   ParseM3U ascii_only insertion_sort_rev (render_playlist example_entries)"
  by (rule sorter_irrelevant [OF ins.slice_sorter_axioms ins_rev.slice_sorter_axioms])
    (simp add: example_found example_keys)

theorem channels_well_formed_witness:
  "list_all (channel_ok ascii_only) (fst (ParseM3U ascii_only insertion_sort (render_playlist example_entries)))"
  using channels_well_formed [OF ins.slice_sorter_axioms] by blast

theorem malformed_entry_steals_address_witness:
  "found (scan_playlist ascii_only
     (join nl [render_extinf (example_entry ''10'' ''Beta''), ''#EXTINF:-1'', ''rtsp://a:554/c''])) =
   [build_channel ascii_only 0 (example_entry ''10'' ''Beta'') ''rtsp://a:554/c'']"
proof (rule malformed_entry_steals_address)
  show "entry_ok (example_entry ''10'' ''Beta'')" by (simp add: example_entry_ok attr_text_def dquote_def)
  show "trim_space ''#EXTINF:-1'' = ''#EXTINF:-1''" by code_simp
  show "has_prefix extinf ''#EXTINF:-1''" by code_simp
  show "parseExtInf ascii_only ''#EXTINF:-1'' = None" by code_simp
qed (simp_all add: example_allowed)

theorem crlf_playlist_empty_witness:
  "fst (ParseM3U ascii_only insertion_sort
     (join nl (map (\<lambda>l. l @ [CHR 0x0D]) [''#EXTINF:-1,Beta'', ''http://a/b?x=1'']))) = []"
proof (rule crlf_playlist_empty [OF ins.slice_sorter_axioms])
  have "has_prefix ''#'' (trim_space (''#EXTINF:-1,Beta'' @ [CHR 0x0D]))" by code_simp
  then show "list_all (\<lambda>l. CHR 0x0A \<notin> set l \<and>
      (has_prefix ''#'' (trim_space (l @ [CHR 0x0D])) \<or> CHR ''#'' \<notin> set l)) [''#EXTINF:-1,Beta'', ''http://a/b?x=1'']"
    by simp
qed simp

end
