(* ===== verification/Rtsp_Messages.thy ===== *)
theory Rtsp_Messages
  imports Net_Url Rtp
begin

text \<open>
  internal/rtsp/relay.go, the texts of the RTSP dialogue: status line and headers of a
  response, the transport and session headers, the session description, and control URLs.
\<close>

subsection \<open>Errors\<close>

datatype net_error = EOF | NetClosed | NetTimeout | NetOther string

text \<open>\<open>Canceled\<close> is \<open>ctx.Err()\<close>, whichever of its two errors it is.\<close>

datatype relay_error =
    Canceled
  | UrlError
  | Net net_error
  | Msg string
  | AtoiError string
  | Rtp rtp_error
  | StatusError string int
  | UnsupportedScheme string
  | UnsupportedTransport string
  | UnsupportedNegotiated string

subsection \<open>Responses\<close>

type_synonym headers = "string \<rightharpoonup> string"

record rtspResponse =
  statusCode :: int
  headers :: headers
  body :: "byte list"

definition header_value :: "headers \<Rightarrow> string \<Rightarrow> string" where
  "header_value h k = (case h k of None \<Rightarrow> [] | Some v \<Rightarrow> v)"

definition add_header :: "unicode \<Rightarrow> headers \<Rightarrow> string \<Rightarrow> headers" where
  "add_header U h line =
     (case index_byte (CHR '':'') line of
        None \<Rightarrow> h
      | Some idx \<Rightarrow>
          if 0 < idx
          then h(to_lower U (trim_space (take idx line)) \<mapsto> trim_space (drop (idx + 1) line))
          else h)"

text \<open>
  The text before the blank line. \<open>strings.Split\<close> never returns an empty slice, so the first
  error return of the code has no counterpart.
\<close>

definition parse_head :: "unicode \<Rightarrow> string \<Rightarrow> relay_error + int \<times> headers" where
  "parse_head U headerText =
     (let lines = split_on crlf headerText;
          statusFields = Fields (hd lines)
      in if length statusFields < 2
         then Inl (Msg ''rtsp relay received an invalid RTSP status line'')
         else case atoi (statusFields ! 1) of
           (status, True) \<Rightarrow> Inl (AtoiError (statusFields ! 1))
         | (status, False) \<Rightarrow> Inr (status, foldl (add_header U) Map.empty (tl lines)))"

definition content_length :: "headers \<Rightarrow> int" where
  "content_length h =
     (let raw = header_value h ''content-length''
      in if raw = [] then 0 else fst (atoi raw))"

subsection \<open>Transport and session\<close>

datatype transport_kind = TCP | UDP

definition tcpTransportCandidates :: "string list" where
  "tcpTransportCandidates =
     [''RTP/AVP/TCP;unicast;interleaved=0-1'', ''RTP/AVP/TCP;interleaved=0-1'']"

definition parseNegotiatedTransport :: "unicode \<Rightarrow> rtspResponse \<Rightarrow> relay_error + transport_kind" where
  "parseNegotiatedTransport U resp =
     (let transportHeader = to_lower U (trim_space (header_value (headers resp) ''transport''))
      in if transportHeader = [] then Inl (Msg ''rtsp setup response missing transport header'')
         else if contains transportHeader ''rtp/avp/tcp'' then Inr TCP
         else if \<not> contains transportHeader ''rtp/avp'' \<or> \<not> contains transportHeader ''unicast''
         then Inl (UnsupportedNegotiated (header_value (headers resp) ''transport''))
         else Inr UDP)"

definition parseSessionID :: "rtspResponse \<Rightarrow> relay_error + string" where
  "parseSessionID resp =
     (let session = header_value (headers resp) ''session''
      in if session = [] then Inl (Msg ''rtsp setup response missing session header'')
         else Inr (hd (split_on '';'' session)))"

subsection \<open>Control URLs\<close>

definition resolveControlURL :: "string \<Rightarrow> url \<Rightarrow> url" where
  "resolveControlURL control baseURL =
     (if control = ''*'' then baseURL
      else
        let resolved = parse_url control
        in if resolved \<noteq> None \<and> Scheme (the resolved) \<noteq> [] then the resolved
           else
             let derived = resolve_reference baseURL (empty_url\<lparr>Path := control\<rparr>)
             in if RawQuery derived = [] \<and> RawQuery baseURL \<noteq> []
                then derived\<lparr>RawQuery := RawQuery baseURL\<rparr> else derived)"

subsection \<open>The session description\<close>

record mediaSection =
  payloadTypes :: "int list"
  control :: string
  rtpmap :: "int \<rightharpoonup> string"

record mediaTrack =
  setupURL :: url
  playURL :: url

text \<open>The aggregate control and the sections so far; \<open>current\<close> is nil as long as there are none.\<close>

type_synonym sdp = "string \<times> mediaSection list"

definition update_last :: "(mediaSection \<Rightarrow> mediaSection) \<Rightarrow> mediaSection list \<Rightarrow> mediaSection list" where
  "update_last f sections = butlast sections @ [f (last sections)]"

definition payload_numbers :: "string list \<Rightarrow> int list" where
  "payload_numbers parts = List.map_filter (\<lambda>p. case atoi p of (n, e) \<Rightarrow> if e then None else Some n) parts"

text \<open>\<open>parts[3:]\<close> panics on a media line of fewer than three fields.\<close>

definition sdp_line :: "unicode \<Rightarrow> sdp \<Rightarrow> string \<Rightarrow> sdp go" where
  "sdp_line U st raw =
     (case st of (aggregate, sections) \<Rightarrow>
       let line = trim_space raw
       in if line = [] then Some st
          else if has_prefix ''m='' line then do {
            let parts = Fields (drop 2 line);
            rest \<leftarrow> slice parts 3 (length parts);
            Some (aggregate, sections @
              [\<lparr>payloadTypes = payload_numbers rest, control = [], rtpmap = Map.empty\<rparr>])
          }
          else if has_prefix ''a=control:'' line then
            (let ctl = trim_prefix ''a=control:'' line
             in if sections \<noteq> [] then Some (aggregate, update_last (\<lambda>s. s\<lparr>control := ctl\<rparr>) sections)
                else Some (ctl, sections))
          else if has_prefix ''a=rtpmap:'' line \<and> sections \<noteq> [] then
            (let fs = Fields (trim_prefix ''a=rtpmap:'' line)
             in if length fs < 2 then Some st
                else case atoi (fs ! 0) of
                  (n, True) \<Rightarrow> Some st
                | (n, False) \<Rightarrow>
                    Some (aggregate, update_last (\<lambda>s. s\<lparr>rtpmap := (rtpmap s)(n \<mapsto> to_upper U (fs ! 1))\<rparr>) sections))
          else Some st)"

fun sdp_lines :: "unicode \<Rightarrow> sdp \<Rightarrow> string list \<Rightarrow> sdp go" where
  "sdp_lines U st [] = Some st"
| "sdp_lines U st (l # ls) = (case sdp_line U st l of None \<Rightarrow> None | Some st' \<Rightarrow> sdp_lines U st' ls)"

definition is_mpegts :: "mediaSection \<Rightarrow> bool" where
  "is_mpegts s \<longleftrightarrow> 33 \<in> set (payloadTypes s) \<or>
     list_ex (\<lambda>n. has_prefix ''MP2T/'' (case rtpmap s n of None \<Rightarrow> [] | Some v \<Rightarrow> v)) (payloadTypes s)"

definition firstNonEmpty :: "string list \<Rightarrow> string" where
  "firstNonEmpty contents = (case filter (\<lambda>v. v \<noteq> []) contents of [] \<Rightarrow> [] | v # _ \<Rightarrow> v)"

definition select_track :: "url \<Rightarrow> sdp \<Rightarrow> relay_error + mediaTrack" where
  "select_track streamURL st =
     (case st of (aggregate, sections) \<Rightarrow>
       (case find is_mpegts sections of
         None \<Rightarrow> Inl (Msg ''rtsp relay requires an MPEG-TS media track with a control URL'')
       | Some matched \<Rightarrow>
           if control matched = []
           then Inl (Msg ''rtsp relay requires an MPEG-TS media track with a control URL'')
           else Inr \<lparr>setupURL = resolveControlURL (control matched) streamURL,
                     playURL = resolveControlURL (firstNonEmpty [aggregate, control matched]) streamURL\<rparr>))"

definition parseSdpTrack :: "unicode \<Rightarrow> string \<Rightarrow> url \<Rightarrow> (relay_error + mediaTrack) go" where
  "parseSdpTrack U text streamURL =
     map_option (select_track streamURL) (sdp_lines U ([], []) (split_on [CHR 0x0A] text))"

end
