(* ===== verification/Rtsp_Connection.thy ===== *)
theory Rtsp_Connection
  imports Rtsp_Messages
begin

text \<open>
  internal/rtsp/relay.go, \<open>rtspConnection\<close>: requests, responses and the reader of
  interleaved frames. The network is a script, the results the coming calls of
  \<open>conn.Read\<close> will have; a script that has run out is a closed connection. The context is
  the number of times it will still be found alive before it is found done. Hence every
  loop over the connection ends, and its termination is proved here for every script.
\<close>

record rtspConnection =
  buffer :: "byte list"
  cseq :: int
  reads :: "(byte list \<times> net_error option) list"
  ctx :: "nat option"
  sent :: "string list"

definition newRtspConnection :: "(byte list \<times> net_error option) list \<Rightarrow> nat option \<Rightarrow> rtspConnection" where
  "newRtspConnection script alive =
     \<lparr>buffer = [], cseq = 1, reads = script, ctx = alive, sent = []\<rparr>"

text \<open>Looking at the context once: whether it is done.\<close>

definition ctx_done :: "rtspConnection \<Rightarrow> bool" where
  "ctx_done c \<longleftrightarrow> ctx c = Some 0"

definition ctx_tick :: "rtspConnection \<Rightarrow> rtspConnection" where
  "ctx_tick c = c\<lparr>ctx := map_option (\<lambda>n. n - 1) (ctx c)\<rparr>"

subsection \<open>Reading\<close>

text \<open>
  \<open>readMore\<close>: with the request's context (\<open>aware\<close>) or with \<open>context.Background()\<close>, which
  is never done. What was read is kept also when the read reports an error. When the context
  is done first, the goroutine that reads is left behind: what it gets is never seen, and the
  only request that can still follow is the TEARDOWN, whose answer the relay does not look at.
\<close>

definition readMore :: "bool \<Rightarrow> rtspConnection \<Rightarrow> relay_error option \<times> rtspConnection" where
  "readMore aware c =
     (if aware \<and> ctx_done c then (Some Canceled, c)
      else
        let c' = (if aware then ctx_tick c else c)
        in case reads c of
             [] \<Rightarrow> (Some (Net EOF), c')
           | (bs, e) # rs \<Rightarrow> (map_option Net e, c'\<lparr>buffer := buffer c @ bs, reads := rs\<rparr>))"

lemma readMore_ok: "readMore aware c = (None, c') \<Longrightarrow> length (reads c') < length (reads c)"
  by (auto simp: readMore_def Let_def split: list.splits if_splits prod.splits)

lemma readMore_reads: "readMore aware c = (e, c') \<Longrightarrow> length (reads c') \<le> length (reads c)"
  by (auto simp: readMore_def Let_def ctx_tick_def split: list.splits if_splits prod.splits)

text \<open>Read until the buffer is ready; both loops of \<open>readResponse\<close> have this form.\<close>

function read_until ::
  "(byte list \<Rightarrow> bool) \<Rightarrow> rtspConnection \<Rightarrow> relay_error option \<times> rtspConnection" where
  "read_until ready c =
     (if ready (buffer c) then (None, c)
      else case readMore False c of
        (Some e, c') \<Rightarrow> (Some e, c')
      | (None, c') \<Rightarrow> read_until ready c')"
  by pat_completeness auto
termination
  by (relation "measure (\<lambda>(r, c). length (reads c))") (auto dest: readMore_ok [OF sym])

declare read_until.simps [simp del]

subsection \<open>Responses\<close>

definition blank_line :: string where
  "blank_line = crlf @ crlf"

definition header_end :: "byte list \<Rightarrow> nat option" where
  "header_end b = str_index blank_line (of_bytes b)"

text \<open>The sum of two Go \<open>int\<close>s, and \<open>make([]byte, n)\<close>, which panics when out of range.\<close>

definition wrap64 :: "int \<Rightarrow> int" where
  "wrap64 n = (n + 2 ^ 63) mod 2 ^ 64 - 2 ^ 63"

definition max_alloc :: int where
  "max_alloc = 2 ^ 48"

definition make_bytes :: "int \<Rightarrow> byte list go" where
  "make_bytes n = (if 0 \<le> n \<and> n \<le> max_alloc then Some (replicate (nat n) 0) else None)"

definition body_ready :: "int \<Rightarrow> byte list \<Rightarrow> bool" where
  "body_ready bodyEnd b \<longleftrightarrow> \<not> int (length b) < bodyEnd"

text \<open>The part of \<open>readResponse\<close> after the headers have been parsed.\<close>

definition read_body ::
  "nat \<Rightarrow> int \<Rightarrow> headers \<Rightarrow> rtspConnection \<Rightarrow> ((relay_error + rtspResponse) \<times> rtspConnection) go" where
  "read_body bodyStart status hs c =
     (let contentLength = content_length hs;
          bodyEnd = wrap64 (int bodyStart + contentLength)
      in case read_until (body_ready bodyEnd) c of
           (Some e, c') \<Rightarrow> Some (Inl e, c')
         | (None, c') \<Rightarrow>
             if make_bytes contentLength = None \<or> bodyEnd < 0 then None
             else do {
               b \<leftarrow> slice (buffer c') bodyStart (nat bodyEnd);
               rest \<leftarrow> slice (buffer c') (nat bodyEnd) (length (buffer c'));
               Some (Inr \<lparr>statusCode = status, headers = hs, body = b\<rparr>, c'\<lparr>buffer := rest\<rparr>)
             })"

definition readResponse ::
  "unicode \<Rightarrow> rtspConnection \<Rightarrow> ((relay_error + rtspResponse) \<times> rtspConnection) go" where
  "readResponse U c =
     (case read_until (\<lambda>b. header_end b \<noteq> None) c of
        (Some e, c') \<Rightarrow> Some (Inl e, c')
      | (None, c') \<Rightarrow>
          let headerEnd = the (header_end (buffer c'))
          in case parse_head U (take headerEnd (of_bytes (buffer c'))) of
               Inl e \<Rightarrow> Some (Inl e, c')
             | Inr (status, hs) \<Rightarrow> read_body (headerEnd + 4) status hs c')"

subsection \<open>Requests\<close>

text \<open>
  Every call site passes a map of one header. Whether the write fails is the network's
  choice \<open>wr\<close>, given what was sent before and the new request.
\<close>

type_synonym request_net = "string list \<Rightarrow> string \<Rightarrow> net_error option"

definition request_text :: "int \<Rightarrow> string \<Rightarrow> url \<Rightarrow> string \<times> string \<Rightarrow> string" where
  "request_text n meth u header =
     meth @ '' '' @ url_string u @ '' RTSP/1.0'' @ crlf @
     ''CSeq: '' @ itoa n @ crlf @
     ''User-Agent: plex-octotuner'' @ crlf @
     fst header @ '': '' @ snd header @ crlf @ crlf"

definition request ::
  "unicode \<Rightarrow> request_net \<Rightarrow> string \<Rightarrow> url \<Rightarrow> string \<times> string \<Rightarrow> rtspConnection \<Rightarrow>
   ((relay_error + rtspResponse) \<times> rtspConnection) go" where
  "request U wr meth u header c =
     (let msg = request_text (cseq c) meth u header;
          c1 = c\<lparr>cseq := cseq c + 1\<rparr>
      in case wr (sent c) msg of
           Some e \<Rightarrow> Some (Inl (Net e), c1)
         | None \<Rightarrow>
             (case readResponse U (c1\<lparr>sent := sent c @ [msg]\<rparr>) of
                None \<Rightarrow> None
              | Some (Inl e, c2) \<Rightarrow> Some (Inl e, c2)
              | Some (Inr resp, c2) \<Rightarrow>
                  if statusCode resp < 200 \<or> statusCode resp \<ge> 300
                  then Some (Inl (StatusError meth (statusCode resp)), c2)
                  else Some (Inr resp, c2)))"

subsection \<open>Progress\<close>

lemma read_until_reads:
  "read_until ready c = (e, c') \<Longrightarrow> length (reads c') \<le> length (reads c)"
proof (induction ready c rule: read_until.induct)
  case (1 ready c)
  show ?case
  proof (cases "ready (buffer c)")
    case True
    with 1 show ?thesis by (simp add: read_until.simps [of ready c])
  next
    case False
    obtain e1 c1 where r: "readMore False c = (e1, c1)" by fastforce
    with 1 False show ?thesis
      by (cases e1) (fastforce simp: read_until.simps [of ready c] dest: readMore_reads)+
  qed
qed

lemma read_until_same:
  "read_until ready c = (None, c') \<Longrightarrow> length (reads c') = length (reads c) \<Longrightarrow> c' = c"
proof (induction ready c rule: read_until.induct)
  case (1 ready c)
  show ?case
  proof (cases "ready (buffer c)")
    case True
    with 1 show ?thesis by (simp add: read_until.simps [of ready c])
  next
    case False
    obtain e1 c1 where r: "readMore False c = (e1, c1)" by fastforce
    with 1 False show ?thesis
      by (cases e1)
        (fastforce simp: read_until.simps [of ready c] dest: readMore_ok read_until_reads)+
  qed
qed

lemma read_until_ready: "read_until ready c = (None, c') \<Longrightarrow> ready (buffer c')"
proof (induction ready c rule: read_until.induct)
  case (1 ready c)
  then show ?case
    by (cases "ready (buffer c)") (auto simp: read_until.simps [of ready c] split: prod.splits option.splits)
qed

text \<open>A response takes something off the buffer, or a read off the script.\<close>

lemma readResponse_progress:
  assumes "readResponse U c = Some (Inr resp, c')"
  shows "length (reads c') < length (reads c) \<or>
    length (reads c') = length (reads c) \<and> length (buffer c') < length (buffer c)"
proof -
  obtain c1 where c1: "read_until (\<lambda>b. header_end b \<noteq> None) c = (None, c1)"
    and "length (reads c1) \<le> length (reads c)"
    using assms by (auto simp: readResponse_def split: prod.splits option.splits dest: read_until_reads)
  obtain status hs where b: "read_body (the (header_end (buffer c1)) + 4) status hs c1 = Some (Inr resp, c')"
    using assms c1 by (auto simp: readResponse_def Let_def split: sum.splits prod.splits)
  define start where "start = the (header_end (buffer c1)) + 4"
  obtain c2 where c2: "read_until (body_ready (wrap64 (int start + content_length hs))) c1 = (None, c2)"
    using b by (auto simp: read_body_def Let_def start_def split: prod.splits option.splits)
  obtain x rest where "slice (buffer c2) start (nat (wrap64 (int start + content_length hs))) = Some x"
    and "slice (buffer c2) (nat (wrap64 (int start + content_length hs))) (length (buffer c2)) = Some rest"
    and "c' = c2\<lparr>buffer := rest\<rparr>"
    using b c2 by (auto simp: read_body_def Let_def start_def bind_eq_Some_conv split: if_splits)
  then have "length (buffer c') < length (buffer c2)" "reads c' = reads c2"
    by (auto simp: slice_def start_def split: if_splits)
  moreover have "length (reads c2) \<le> length (reads c1)" using c2 by (rule read_until_reads)
  moreover have "length (reads c2) = length (reads c1) \<Longrightarrow> c2 = c1" using c2 by (rule read_until_same)
  moreover have "length (reads c1) = length (reads c) \<Longrightarrow> c1 = c" using c1 by (rule read_until_same)
  ultimately show ?thesis using \<open>length (reads c1) \<le> length (reads c)\<close> by fastforce
qed

end
