(* ===== verification/Rtsp_Interleaved.thy ===== *)
theory Rtsp_Interleaved
  imports Rtsp_Connection
begin

text \<open>
  internal/rtsp/relay.go, \<open>pumpInterleaved\<close>: frames and late responses are taken off the
  buffer one by one and the payloads of even channels handed to the consumer. The theory
  shows that the loop ends on every script, never panics on frames, and that how the
  network cuts the stream does not matter (an interpretation of \<open>stream_consumer\<close>).
\<close>

type_synonym 's consumer = "'s \<Rightarrow> byte list \<Rightarrow> ('s \<times> relay_error option) go"

text \<open>What the body of the loop finds at the front of the buffer.\<close>

datatype item = NeedMore | ResponseItem | FrameItem byte "byte list" nat

definition interleaved_item :: "byte list \<Rightarrow> item go" where
  "interleaved_item b =
     (if b = [] then Some NeedMore
      else if has_prefix ''RTSP/1.0'' (of_bytes b) then Some ResponseItem
      else do {
        m \<leftarrow> index b 0;
        if m \<noteq> interleavedFrameMarker then Some NeedMore
        else if length b < 4 then Some NeedMore
        else do {
          hi \<leftarrow> index b 2;
          lo \<leftarrow> index b 3;
          let frameLength = push_bit 8 (unat hi) OR unat lo;
          let frameEnd = 4 + frameLength;
          if length b < frameEnd then Some NeedMore
          else do {
            channel \<leftarrow> index b 1;
            packet \<leftarrow> slice b 4 frameEnd;
            Some (FrameItem channel packet frameEnd)
          }
        }
      })"

lemma interleaved_item_frame:
  "interleaved_item b = Some (FrameItem ch p n) \<Longrightarrow> 4 \<le> n \<and> n \<le> length b"
  by (auto simp: interleaved_item_def bind_eq_Some_conv Let_def slice_def split: if_splits)

function pumpInterleaved ::
  "unicode \<Rightarrow> 's consumer \<Rightarrow> 's \<Rightarrow> rtspConnection \<Rightarrow> ('s \<times> relay_error \<times> rtspConnection) go" where
  "pumpInterleaved U handle s c0 =
     (if ctx_done c0 then Some (s, Canceled, c0)
      else
        let c = ctx_tick c0
        in case interleaved_item (buffer c) of
             None \<Rightarrow> None
           | Some NeedMore \<Rightarrow>
               (case readMore True c of
                  (Some e, c') \<Rightarrow> Some (s, e, c')
                | (None, c') \<Rightarrow> pumpInterleaved U handle s c')
           | Some ResponseItem \<Rightarrow>
               (case readResponse U c of
                  None \<Rightarrow> None
                | Some (Inl e, c') \<Rightarrow> Some (s, e, c')
                | Some (Inr resp, c') \<Rightarrow> pumpInterleaved U handle s c')
           | Some (FrameItem channel packet n) \<Rightarrow>
               (let c' = c\<lparr>buffer := drop n (buffer c)\<rparr>
                in if odd (unat channel) then pumpInterleaved U handle s c'
                   else (case handle s packet of
                           None \<Rightarrow> None
                         | Some (s', Some e) \<Rightarrow> Some (s', e, c')
                         | Some (s', None) \<Rightarrow> pumpInterleaved U handle s' c')))"
  by pat_completeness auto
termination
proof (relation "measures [\<lambda>(U, h, s, c). length (reads c), \<lambda>(U, h, s, c). length (buffer c)]", goal_cases)
  case 1
  then show ?case by simp
next
  case (2 U handle s c0 c x2 r c')
  then show ?case by (auto simp: ctx_tick_def dest!: readMore_ok [OF sym])
next
  case (3 U handle s c0 c x2 x2a x y r)
  then show ?case by (auto simp: ctx_tick_def dest!: readResponse_progress)
next
  case (4 U handle s c0 c x2 ch packet n c')
  then show ?case by (auto simp: ctx_tick_def dest!: interleaved_item_frame)
next
  case (5 U handle s c0 c x2 ch packet n c')
  then show ?case by (auto simp: ctx_tick_def dest!: interleaved_item_frame)
qed

declare pumpInterleaved.simps [simp del]

subsection \<open>Units of the stream\<close>

text \<open>
  What the loop takes off the front as soon as it is complete. A response that does not
  parse ends the loop, and so does the panic of \<open>make\<close> on an impossible content length.
\<close>

datatype unit_read = IFrame byte "byte list" | IResponse rtspResponse | IBad relay_error | IPanic

definition response_parts ::
  "nat \<Rightarrow> int \<Rightarrow> headers \<Rightarrow> byte list \<Rightarrow> (rtspResponse \<times> nat) go" where
  "response_parts bodyStart status hs b =
     (let bodyEnd = wrap64 (int bodyStart + content_length hs)
      in if make_bytes (content_length hs) = None then None
         else do {
           x \<leftarrow> slice b bodyStart (nat bodyEnd);
           Some (\<lparr>statusCode = status, headers = hs, body = x\<rparr>, nat bodyEnd)
         })"

definition response_unit :: "unicode \<Rightarrow> byte list \<Rightarrow> (unit_read \<times> nat) option" where
  "response_unit U b =
     (case header_end b of
        None \<Rightarrow> None
      | Some i \<Rightarrow>
          (case parse_head U (take i (of_bytes b)) of
             Inl e \<Rightarrow> Some (IBad e, 1)
           | Inr (status, hs) \<Rightarrow>
               if body_ready (wrap64 (int (i + 4) + content_length hs)) b
               then Some (case response_parts (i + 4) status hs b of
                            None \<Rightarrow> (IPanic, 1) | Some (resp, n) \<Rightarrow> (IResponse resp, n))
               else None))"

definition interleaved_unit :: "unicode \<Rightarrow> byte list \<Rightarrow> (unit_read \<times> nat) option" where
  "interleaved_unit U b =
     (case interleaved_item b of
        Some (FrameItem channel packet n) \<Rightarrow> Some (IFrame channel packet, n)
      | Some ResponseItem \<Rightarrow> response_unit U b
      | _ \<Rightarrow> None)"

datatype outcome = Running | Ended relay_error | Panicked

definition take_unit :: "'s consumer \<Rightarrow> 's \<times> outcome \<Rightarrow> unit_read \<Rightarrow> 's \<times> outcome" where
  "take_unit handle st u =
     (case u of
        IFrame channel packet \<Rightarrow>
          if odd (unat channel) then st
          else (case handle (fst st) packet of
                  None \<Rightarrow> (fst st, Panicked)
                | Some (s', Some e) \<Rightarrow> (s', Ended e)
                | Some (s', None) \<Rightarrow> (s', snd st))
      | IResponse resp \<Rightarrow> st
      | IBad e \<Rightarrow> (fst st, Ended e)
      | IPanic \<Rightarrow> (fst st, Panicked))"

subsection \<open>A complete unit stays what it is\<close>

lemma str_index_append: "str_index p s = Some i \<Longrightarrow> str_index p (s @ t) = Some i"
proof (induction s arbitrary: i)
  case Nil
  then show ?case by (cases t) (auto split: if_splits)
next
  case (Cons c s)
  show ?case
  proof (cases "has_prefix p (c # s)")
    case True
    then obtain r where "c # s = p @ r" by (auto simp: has_prefix_iff)
    then have "c # s @ t = p @ r @ t" by (metis append.assoc append_Cons)
    then have "has_prefix p (c # s @ t)" unfolding has_prefix_iff by blast
    with True Cons.prems show ?thesis by simp
  next
    case False
    with Cons.prems obtain j where j: "str_index p s = Some j" "i = Suc j" by auto
    then have len: "j + length p \<le> length s" by (auto dest: str_index_Some)
    have "\<not> has_prefix p (c # s @ t)"
      using False len take_append [of "length p" "c # s" t] by (simp add: has_prefix_def)
    with j Cons.IH show ?thesis by simp
  qed
qed

lemma header_end_append: "header_end b = Some i \<Longrightarrow> header_end (b @ c) = Some i"
  unfolding header_end_def by (simp add: str_index_append)

lemma header_end_bound: "header_end b = Some i \<Longrightarrow> i + 4 \<le> length b"
  unfolding header_end_def by (auto dest!: str_index_Some simp: blank_line_def crlf_def)

lemma head_append:
  "header_end b = Some i \<Longrightarrow> take i (of_bytes (b @ c)) = take i (of_bytes b)"
  using header_end_bound [of b i] by simp

lemma body_ready_append: "body_ready n b \<Longrightarrow> body_ready n (b @ c)"
  by (auto simp: body_ready_def)

lemma response_parts_append:
  assumes "body_ready (wrap64 (int k + content_length hs)) b"
  shows "response_parts k status hs (b @ c) = response_parts k status hs b"
  using assms by (auto simp: response_parts_def Let_def slice_def body_ready_def)

lemma response_unit_append: "response_unit U b = Some (u, n) \<Longrightarrow> response_unit U (b @ c) = Some (u, n)"
  using head_append [of b _ c] header_end_append [of b _ c]
  by (auto simp: response_unit_def response_parts_append body_ready_append simp del: of_bytes_append
      split: option.splits sum.splits prod.splits if_splits)

lemma response_unit_bounds: "response_unit U b = Some (u, n) \<Longrightarrow> 0 < n \<and> n \<le> length b"
  by (auto simp: response_unit_def response_parts_def Let_def bind_eq_Some_conv slice_def
      dest: header_end_bound split: option.splits sum.splits prod.splits if_splits)

definition frame_size :: "byte list \<Rightarrow> nat" where
  "frame_size b = 4 + (push_bit 8 (unat (b ! 2)) OR unat (b ! 3))"

lemma interleaved_item_eq:
  "interleaved_item b = Some
     (if b = [] then NeedMore
      else if has_prefix ''RTSP/1.0'' (of_bytes b) then ResponseItem
      else if b ! 0 \<noteq> interleavedFrameMarker \<or> length b < 4 \<or> length b < frame_size b then NeedMore
      else FrameItem (b ! 1) (take (frame_size b - 4) (drop 4 b)) (frame_size b))"
  by (auto simp: interleaved_item_def index_def slice_def frame_size_def Let_def)

lemma frame_size_append: "4 \<le> length b \<Longrightarrow> frame_size (b @ c) = frame_size b"
  by (simp add: frame_size_def nth_append)

lemma has_prefix_extend: "has_prefix p s \<Longrightarrow> has_prefix p (s @ t)"
  by (auto simp: has_prefix_iff)

lemma has_prefix_head: "has_prefix (x # p) (of_bytes b) \<Longrightarrow> b \<noteq> [] \<and> char_of (unat (b ! 0)) = x"
  by (cases b) (auto simp: has_prefix_Cons of_bytes_def)

lemma marker_not_R: "b ! 0 = interleavedFrameMarker \<Longrightarrow> \<not> has_prefix ''RTSP/1.0'' (of_bytes b)"
  by (auto dest!: has_prefix_head simp: interleavedFrameMarker_def char_of_def)

lemma interleaved_item_append:
  "interleaved_item b = Some (FrameItem ch p n) \<Longrightarrow> interleaved_item (b @ c) = Some (FrameItem ch p n)"
  "interleaved_item b = Some ResponseItem \<Longrightarrow> interleaved_item (b @ c) = Some ResponseItem"
proof -
  assume "interleaved_item b = Some (FrameItem ch p n)"
  then have f: "b ! 0 = interleavedFrameMarker" "4 \<le> length b" "frame_size b \<le> length b" "b \<noteq> []"
    "ch = b ! 1" "p = take (frame_size b - 4) (drop 4 b)" "n = frame_size b"
    by (auto simp: interleaved_item_eq split: if_splits)
  then have "(b @ c) ! 0 = interleavedFrameMarker" "(b @ c) ! 1 = b ! 1"
    by (auto simp: nth_append)
  with f marker_not_R [of "b @ c"] show "interleaved_item (b @ c) = Some (FrameItem ch p n)"
    by (simp add: interleaved_item_eq frame_size_append)
next
  assume "interleaved_item b = Some ResponseItem"
  then show "interleaved_item (b @ c) = Some ResponseItem"
    by (auto simp: interleaved_item_eq has_prefix_extend split: if_splits)
qed

lemma interleaved_unit_append:
  "interleaved_unit U b = Some (u, n) \<Longrightarrow> interleaved_unit U (b @ c) = Some (u, n)"
  by (auto simp: interleaved_unit_def interleaved_item_append response_unit_append
      split: option.splits item.splits)

lemma interleaved_unit_bounds: "interleaved_unit U b = Some (u, n) \<Longrightarrow> 0 < n \<and> n \<le> length b"
  by (auto simp: interleaved_unit_def dest: interleaved_item_frame response_unit_bounds
      split: option.splits item.splits)

subsection \<open>The loop as a stream consumer\<close>

function interleaved_drain ::
  "unicode \<Rightarrow> 's consumer \<Rightarrow> 's \<times> outcome \<Rightarrow> byte list \<Rightarrow> ('s \<times> outcome) \<times> byte list" where
  "interleaved_drain U handle st b =
     (if snd st = Running
      then (case interleaved_unit U b of
              None \<Rightarrow> (st, b)
            | Some (u, n) \<Rightarrow> interleaved_drain U handle (take_unit handle st u) (drop n b))
      else (st, []))"
  by pat_completeness auto
termination
  by (relation "measure (\<lambda>(U, h, s, b). length b)") (auto dest!: interleaved_unit_bounds)

declare interleaved_drain.simps [simp del]

interpretation il: stream_consumer "interleaved_unit U" "take_unit handle" "\<lambda>st. snd st = Running"
    "interleaved_drain U handle" for U and handle :: "'s consumer"
  by unfold_locales
    (auto dest: interleaved_unit_bounds interleaved_unit_append
      simp: interleaved_drain.simps [of U handle])

text \<open>What the code does is to drain after every read.\<close>

lemma read_until_wait:
  "\<not> ready (buffer c) \<Longrightarrow> read_until ready c =
     (case readMore False c of (Some e, c') \<Rightarrow> (Some e, c') | (None, c') \<Rightarrow> read_until ready c')"
  by (subst read_until.simps) simp

lemma read_until_go: "ready (buffer c) \<Longrightarrow> read_until ready c = (None, c)"
  by (subst read_until.simps) simp

lemma readMore_buffer: "readMore aware c = (None, c') \<Longrightarrow> \<exists>bs. buffer c' = buffer c @ bs"
  by (auto simp: readMore_def Let_def ctx_tick_def split: list.splits if_splits prod.splits)

lemma readResponse_unit:
  assumes "response_unit U (buffer c) = Some (u, n)"
  shows "readResponse U c =
    (case u of
       IResponse resp \<Rightarrow> Some (Inr resp, c\<lparr>buffer := drop n (buffer c)\<rparr>)
     | IBad e \<Rightarrow> Some (Inl e, c)
     | _ \<Rightarrow> None)"
proof -
  obtain i where i: "header_end (buffer c) = Some i"
    using assms by (auto simp: response_unit_def split: option.splits)
  then have r: "read_until (\<lambda>b. header_end b \<noteq> None) c = (None, c)" by (simp add: read_until_go)
  show ?thesis
  proof (cases "parse_head U (take i (of_bytes (buffer c)))")
    case (Inl e)
    with assms i r show ?thesis by (auto simp: response_unit_def readResponse_def)
  next
    case (Inr p)
    obtain status hs where p: "p = (status, hs)" by (cases p)
    let ?n = "wrap64 (int (i + 4) + content_length hs)"
    have ready: "body_ready ?n (buffer c)"
      using assms i Inr p by (auto simp: response_unit_def split: if_splits)
    then have "nat ?n \<le> length (buffer c)" by (auto simp: body_ready_def)
    with assms i r Inr p ready show ?thesis
      by (auto simp: response_unit_def readResponse_def read_body_def response_parts_def Let_def
          read_until_go slice_def split: option.splits if_splits)
  qed
qed

lemma readResponse_wait:
  assumes "response_unit U (buffer c) = None"
  shows "readResponse U c =
    (case readMore False c of (Some e, c') \<Rightarrow> Some (Inl e, c') | (None, c') \<Rightarrow> readResponse U c')"
proof (cases "header_end (buffer c)")
  case None
  then show ?thesis
    by (cases "readMore False c"; cases "fst (readMore False c)")
      (auto simp: readResponse_def [of U c] readResponse_def read_until_wait split: prod.splits option.splits)
next
  case (Some i)
  then have r: "read_until (\<lambda>b. header_end b \<noteq> None) c = (None, c)" by (simp add: read_until_go)
  obtain status hs where p: "parse_head U (take i (of_bytes (buffer c))) = Inr (status, hs)"
    and nr: "\<not> body_ready (wrap64 (int (i + 4) + content_length hs)) (buffer c)"
    using assms Some by (auto simp: response_unit_def split: sum.splits prod.splits if_splits)
  show ?thesis
  proof (cases "readMore False c")
    case (Pair e c')
    show ?thesis
    proof (cases e)
      case (Some x)
      with Pair r p nr \<open>header_end (buffer c) = Some i\<close> show ?thesis
        by (simp add: readResponse_def read_body_def Let_def read_until_wait)
    next
      case None
      then obtain bs where bs: "buffer c' = buffer c @ bs" using readMore_buffer Pair by blast
      have h: "header_end (buffer c') = Some i" using Some by (simp add: bs header_end_append)
      then have r': "read_until (\<lambda>b. header_end b \<noteq> None) c' = (None, c')" by (simp add: read_until_go)
      have "take i (of_bytes (buffer c')) = take i (of_bytes (buffer c))"
        unfolding bs by (rule head_append [OF Some])
      with Pair None r r' p nr h Some show ?thesis
        by (simp add: readResponse_def read_body_def Let_def read_until_wait)
    qed
  qed
qed

lemma pump_wait:
  assumes "ctx c = None" and "interleaved_unit U (buffer c) = None"
  shows "pumpInterleaved U handle s c =
    (case readMore False c of
       (Some e, c') \<Rightarrow> Some (s, e, c')
     | (None, c') \<Rightarrow> pumpInterleaved U handle s c')"
proof -
  have live: "\<not> ctx_done c" "ctx_tick c = c" "readMore True c = readMore False c"
    using assms(1) by (cases c, simp add: ctx_done_def ctx_tick_def readMore_def Let_def)+
  show ?thesis
  proof (cases "interleaved_item (buffer c) = Some ResponseItem")
    case False
    with assms(2) have "interleaved_item (buffer c) = Some NeedMore"
      by (auto simp: interleaved_unit_def interleaved_item_eq split: if_splits)
    with live show ?thesis by (simp add: pumpInterleaved.simps [of U handle s c])
  next
    case True
    with assms(2) have "response_unit U (buffer c) = None" by (simp add: interleaved_unit_def)
    from readResponse_wait [OF this] live True
    have eq: "pumpInterleaved U handle s c =
        (case (case readMore False c of (Some e, c') \<Rightarrow> Some (Inl e, c') | (None, c') \<Rightarrow> readResponse U c') of
           None \<Rightarrow> None
         | Some (Inl e, c') \<Rightarrow> Some (s, e, c')
         | Some (Inr resp, c') \<Rightarrow> pumpInterleaved U handle s c')"
      by (simp add: pumpInterleaved.simps [of U handle s c])
    obtain e c' where r: "readMore False c = (e, c')" by fastforce
    show ?thesis
    proof (cases e)
      case (Some x)
      with eq r show ?thesis by simp
    next
      case None
      then obtain bs where bs: "buffer c' = buffer c @ bs" using readMore_buffer r by blast
      have "ctx c' = None" using r assms(1) by (auto simp: readMore_def split: list.splits prod.splits)
      then have live': "\<not> ctx_done c'" "ctx_tick c' = c'" by (simp_all add: ctx_done_def ctx_tick_def)
      have "interleaved_item (buffer c') = Some ResponseItem"
        unfolding bs using True by (rule interleaved_item_append)
      with eq r None live' show ?thesis by (simp add: pumpInterleaved.simps [of U handle s c'])
    qed
  qed
qed

lemma pump_take:
  assumes "ctx c = None" and "interleaved_unit U (buffer c) = Some (u, n)"
  shows "map_option (\<lambda>(s, e, _). (s, e)) (pumpInterleaved U handle s c) =
    (case take_unit handle (s, Running) u of
       (s', Running) \<Rightarrow>
         map_option (\<lambda>(s, e, _). (s, e)) (pumpInterleaved U handle s' (c\<lparr>buffer := drop n (buffer c)\<rparr>))
     | (s', Ended e) \<Rightarrow> Some (s', e)
     | (s', Panicked) \<Rightarrow> None)"
proof -
  have live: "\<not> ctx_done c" "ctx_tick c = c"
    using assms(1) by (simp_all add: ctx_done_def ctx_tick_def)
  show ?thesis
  proof (cases "interleaved_item (buffer c) = Some ResponseItem")
    case True
    with assms(2) have r: "response_unit U (buffer c) = Some (u, n)" by (simp add: interleaved_unit_def)
    have "\<And>ch p. u \<noteq> IFrame ch p"
      using r by (auto simp: response_unit_def split: option.splits sum.splits prod.splits if_splits)
    with readResponse_unit [OF r] True live show ?thesis
      by (cases u) (auto simp: pumpInterleaved.simps [of U handle s c] take_unit_def)
  next
    case False
    with assms(2) obtain ch p where "interleaved_item (buffer c) = Some (FrameItem ch p n)" "u = IFrame ch p"
      by (auto simp: interleaved_unit_def split: option.splits item.splits)
    with live show ?thesis
      by (auto simp: pumpInterleaved.simps [of U handle s c] take_unit_def Let_def split: option.splits)
  qed
qed

text \<open>The outcome of the loop, given what draining the stream left.\<close>

definition pump_end :: "('s \<times> outcome) \<times> byte list \<Rightarrow> ('s \<times> relay_error) go" where
  "pump_end r =
     (case r of
        ((s, Running), _) \<Rightarrow> Some (s, Net EOF)
      | ((s, Ended e), _) \<Rightarrow> Some (s, e)
      | ((s, Panicked), _) \<Rightarrow> None)"

lemma pump_drain:
  assumes "ctx c = None" and "reads c = map (\<lambda>b. (b, None)) chunks"
  shows "map_option (\<lambda>(s, e, _). (s, e)) (pumpInterleaved U handle s c) =
    pump_end (interleaved_drain U handle (s, Running) (buffer c @ concat chunks))"
  using assms
proof (induction "length chunks + length (buffer c @ concat chunks)" arbitrary: s c chunks rule: less_induct)
  case less
  show ?case
  proof (cases "interleaved_unit U (buffer c)")
    case None
    note wait = pump_wait [OF less.prems(1) None, of handle s]
    show ?thesis
    proof (cases chunks)
      case Nil
      with less.prems have "readMore False c = (Some (Net EOF), c)" by (simp add: readMore_def)
      with wait None Nil show ?thesis by (simp add: il.drain_wait pump_end_def)
    next
      case (Cons b bs)
      let ?c = "c\<lparr>buffer := buffer c @ b, reads := map (\<lambda>b. (b, None)) bs\<rparr>"
      have "readMore False c = (None, ?c)" using less.prems Cons by (simp add: readMore_def)
      moreover have "map_option (\<lambda>(s, e, _). (s, e)) (pumpInterleaved U handle s ?c) =
          pump_end (interleaved_drain U handle (s, Running) (buffer ?c @ concat bs))"
        using less.prems Cons by (intro less.hyps) simp_all
      ultimately show ?thesis using wait Cons by simp
    qed
  next
    case (Some un)
    then obtain u n where un: "interleaved_unit U (buffer c) = Some (u, n)" by (cases un) auto
    then have n: "0 < n" "n \<le> length (buffer c)" using interleaved_unit_bounds by auto
    have drain: "interleaved_drain U handle (s, Running) (buffer c @ concat chunks) =
        interleaved_drain U handle (take_unit handle (s, Running) u) (drop n (buffer c) @ concat chunks)"
      using il.drain_take [OF _ interleaved_unit_append [OF un], of "(s, Running)" handle "concat chunks"] n
      by simp
    obtain s' st where t: "take_unit handle (s, Running) u = (s', st)" by fastforce
    show ?thesis
    proof (cases st)
      case Running
      let ?c = "c\<lparr>buffer := drop n (buffer c)\<rparr>"
      have "map_option (\<lambda>(s, e, _). (s, e)) (pumpInterleaved U handle s' ?c) =
          pump_end (interleaved_drain U handle (s', Running) (buffer ?c @ concat chunks))"
        using less.prems n by (intro less.hyps) simp_all
      with pump_take [OF less.prems(1) un, of handle s] t Running drain show ?thesis by simp
    qed (use pump_take [OF less.prems(1) un, of handle s] t drain in
        \<open>simp_all add: il.drain_dead pump_end_def\<close>)
  qed
qed

text \<open>
  How the network cuts an interleaved stream does not matter. For every consumer of
  packets, state of the buffer and sequence of chunks (before the connection ends, with the
  context alive), the state the consumer is left in, the error \<open>pumpInterleaved\<close> returns,
  or its panic, are those for the same bytes arriving in one chunk.
\<close>

theorem interleaved_chunking:
  assumes "ctx c = None"
  shows "map_option (\<lambda>(s, e, _). (s, e))
      (pumpInterleaved U handle s (c\<lparr>reads := map (\<lambda>b. (b, None)) chunks\<rparr>)) =
    map_option (\<lambda>(s, e, _). (s, e))
      (pumpInterleaved U handle s (c\<lparr>reads := [(concat chunks, None)]\<rparr>))"
  using pump_drain [of "c\<lparr>reads := map (\<lambda>b. (b, None)) chunks\<rparr>" chunks U handle s]
    pump_drain [of "c\<lparr>reads := [(concat chunks, None)]\<rparr>" "[concat chunks]" U handle s] assms
  by simp

end
