(* ===== verification/Rtsp_Relay.thy ===== *)
theory Rtsp_Relay
  imports Rtsp_Interleaved
begin

text \<open>
  internal/rtsp/relay.go, the relay: the consumer that writes payloads to the HTTP client,
  the two pumps' results, the negotiation of a transport, and \<open>Relay\<close> itself with its
  deferred clean-up. What the sockets do is the environment's choice; the sockets opened
  and closed are recorded in order.
\<close>

subsection \<open>The consumer\<close>

datatype relay_log =
    Negotiated transport_kind string
  | MediaStarted transport_kind string
  | RelayFailed relay_error

record relay =
  diag :: diagnostics
  started :: bool
  written :: "byte list list"
  response_headers :: "(string \<times> string) list"
  relay_logged :: "relay_log list"

definition new_relay :: "relay_log list \<Rightarrow> relay" where
  "new_relay l = \<lparr>diag = createRelayDiagnostics, started = False, written = [],
     response_headers = [], relay_logged = l\<rparr>"

definition emitStart :: "transport_kind \<Rightarrow> string \<Rightarrow> relay \<Rightarrow> relay" where
  "emitStart kind streamURL r =
     (if started r then r
      else r\<lparr>started := True,
             response_headers := [(''Cache-Control'', ''no-store''), (''Content-Type'', ''video/mp2t'')],
             relay_logged := relay_logged r @ [MediaStarted kind streamURL]\<rparr>)"

text \<open>Whether \<open>w.Write\<close> fails is the client's choice, given what was written before.\<close>

type_synonym client_net = "byte list list \<Rightarrow> byte list \<Rightarrow> net_error option"

definition handle_packet :: "transport_kind \<Rightarrow> string \<Rightarrow> client_net \<Rightarrow> relay consumer" where
  "handle_packet kind streamURL cw r packet = do {
     d \<leftarrow> recordRtpPacket (diag r) packet;
     p \<leftarrow> depacketizeRtpPayload packet;
     (case p of
        Inl e \<Rightarrow> Some (r\<lparr>diag := d\<rparr>, Some (Rtp e))
      | Inr media \<Rightarrow>
          if media = [] then Some (r\<lparr>diag := d\<rparr>, None)
          else do {
            d' \<leftarrow> recordTsPayload d media;
            let r' = emitStart kind streamURL (r\<lparr>diag := d'\<rparr>);
            (case cw (written r') media of
               Some e \<Rightarrow> Some (r', Some (Net e))
             | None \<Rightarrow> Some (r'\<lparr>written := written r' @ [media]\<rparr>, None))
          })
   }"

subsection \<open>The UDP pump\<close>

text \<open>
  What happens while \<open>pumpUdp\<close> waits in \<open>ReadFromUDP\<close>: a datagram, an error of the read
  (its deadline, or the socket closed by the goroutine that watches the context), or the
  flush timer of the reorder buffer, whose callback runs the consumer on its own goroutine.
  A datagram is cut to the 2048 bytes of the read buffer.
\<close>

datatype udp_event = Datagram "byte list" | ReadError net_error | TimerExpire nat | TimerCallback nat

record 's udp =
  u_buf :: reorder
  u_state :: 's
  u_err :: "relay_error option"
  u_started :: bool
  u_ctx :: "nat option"
  u_watch_closed :: bool    \<comment> \<open>the goroutine that watches the context has closed the RTP socket\<close>

text \<open>The packets a step of the buffer emitted, through the consumer; the channel
  \<open>handlerErrCh\<close> keeps the first error only.\<close>

fun deliver :: "'s consumer \<Rightarrow> byte list list \<Rightarrow> 's \<times> relay_error option \<Rightarrow> ('s \<times> relay_error option) go" where
  "deliver handle [] st = Some st"
| "deliver handle (p # ps) st =
     (case handle (fst st) p of
        None \<Rightarrow> None
      | Some (s', e) \<Rightarrow> deliver handle ps (s', case snd st of None \<Rightarrow> e | Some x \<Rightarrow> Some x))"

definition buffer_step :: "'s consumer \<Rightarrow> event \<Rightarrow> 's udp \<Rightarrow> 's udp go" where
  "buffer_step handle ev st = do {
     b \<leftarrow> step (u_buf st) ev;
     (s, e) \<leftarrow> deliver handle (drop (length (emitted (u_buf st))) (emitted b)) (u_state st, u_err st);
     Some (st\<lparr>u_buf := b, u_state := s, u_err := e\<rparr>)
   }"

definition u_look :: "'s udp \<Rightarrow> bool" where
  "u_look st \<longleftrightarrow> u_ctx st = Some 0"

definition u_tick :: "'s udp \<Rightarrow> 's udp" where
  "u_tick st = st\<lparr>u_ctx := map_option (\<lambda>n. n - 1) (u_ctx st)\<rparr>"

text \<open>\<open>None\<close> as a result: still waiting when the events have run out.\<close>

type_synonym 's udp_result = "('s udp \<times> relay_error option option) go"

definition udp_read_error :: "'s consumer \<Rightarrow> 's udp \<Rightarrow> net_error \<Rightarrow> 's udp_result" where
  "udp_read_error handle st x =
     (case u_err st of
        Some e \<Rightarrow> Some (st\<lparr>u_err := None\<rparr>, Some (Some e))
      | None \<Rightarrow>
          if u_look st then Some (st, Some (Some Canceled))
          else
            let st' = u_tick st
            in if x \<noteq> NetTimeout then Some (st', Some (Some (Net x)))
               else if \<not> u_started st'
               then Some (st', Some (Some (Msg ''rtsp relay timed out waiting for the first RTP packet'')))
               else map_option (\<lambda>st''. (st'', Some None)) (buffer_step handle Close st'))"

text \<open>The loop from its top: \<open>looked\<close> says whether the checks before the read have been made.\<close>

fun udp_loop :: "'s consumer \<Rightarrow> bool \<Rightarrow> 's udp \<Rightarrow> udp_event list \<Rightarrow> 's udp_result" where
  "udp_loop handle looked st [] =
     (if looked then Some (st, None)
      else if u_look st then Some (st, Some (Some Canceled))
      else case u_err st of
        Some e \<Rightarrow> Some ((u_tick st)\<lparr>u_err := None\<rparr>, Some (Some e))
      | None \<Rightarrow> Some (u_tick st, None))"
| "udp_loop handle looked st0 (ev # evs) =
     (if \<not> looked \<and> u_look st0 then Some (st0, Some (Some Canceled))
      else
        let st = (if looked then st0 else u_tick st0)
        in if \<not> looked \<and> u_err st \<noteq> None then Some (st\<lparr>u_err := None\<rparr>, Some (u_err st))
           else
             (case ev of
                Datagram bs \<Rightarrow>
                  (case buffer_step handle (Push (take 2048 bs)) (st\<lparr>u_started := True\<rparr>) of
                     None \<Rightarrow> None
                   | Some st' \<Rightarrow>
                       (case u_err st' of
                          Some e \<Rightarrow> Some (st'\<lparr>u_err := None\<rparr>, Some (Some e))
                        | None \<Rightarrow> udp_loop handle False st' evs))
              | ReadError x \<Rightarrow> udp_read_error handle st x
              | TimerExpire t \<Rightarrow>
                  (case buffer_step handle (Expire t) st of
                     None \<Rightarrow> None | Some st' \<Rightarrow> udp_loop handle True st' evs)
              | TimerCallback t \<Rightarrow>
                  (case buffer_step handle (Callback t) st of
                     None \<Rightarrow> None | Some st' \<Rightarrow> udp_loop handle True st' evs)))"

text \<open>
  The deferred \<open>close(stopRead)\<close> and \<open>reorder.stop()\<close> run when the loop has returned. The
  goroutine that watches the context closes the RTP socket when the context is done before
  \<open>stopRead\<close> is closed and it is the first of the two channels it sees: \<open>watch\<close> is its choice.
\<close>

definition pumpUdp :: "bool \<Rightarrow> 's consumer \<Rightarrow> 's \<Rightarrow> nat option \<Rightarrow> udp_event list \<Rightarrow> 's udp_result" where
  "pumpUdp watch handle s alive evs =
     (case udp_loop handle False
             \<lparr>u_buf = newUdpRtpReorderBuffer, u_state = s, u_err = None, u_started = False, u_ctx = alive,
              u_watch_closed = False\<rparr> evs of
        None \<Rightarrow> None
      | Some (st, None) \<Rightarrow> Some (st, None)
      | Some (st, Some e) \<Rightarrow>
          Some (st\<lparr>u_buf := stop (u_buf st), u_watch_closed := watch \<and> u_look st\<rparr>, Some e))"

subsection \<open>Flush timers after the pump\<close>

text \<open>
  \<open>stop\<close> cannot recall a timer that has fired: a callback that waits for the mutex, or one of a
  timer the buffer has lost sight of, still runs when the pump has returned, and emits packets
  through the same consumer while \<open>streamMedia\<close>, \<open>Relay\<close> and the HTTP handler go on. Nobody
  reads the errors it reports. What the timers do then is the environment's choice.
\<close>

datatype timer_event = Fires nat | Runs nat

fun timer_step :: "timer_event \<Rightarrow> event" where
  "timer_step (Fires t) = Expire t"
| "timer_step (Runs t) = Callback t"

definition late_packets :: "reorder \<Rightarrow> timer_event list \<Rightarrow> byte list list go" where
  "late_packets b evs =
     map_option (\<lambda>b'. drop (length (emitted b)) (emitted b')) (run b (map timer_step evs))"

definition late_deliver :: "'s consumer \<Rightarrow> byte list list \<Rightarrow> 's \<Rightarrow> 's go" where
  "late_deliver handle ps s = map_option fst (deliver handle ps (s, None))"

subsection \<open>Sockets and the environment\<close>

datatype socket_op = OpenTcp | CloseTcp | OpenUdp int | CloseUdp int

text \<open>
  The environment of one relay: the dial (whether over TLS, address, server name), which
  yields an error or the script of the connection's reads; the context; the writes; the
  port \<open>ListenUDP\<close> gives in each attempt and whether the next port is free; the events
  on the RTP socket and the choice of the goroutine that watches the context; the flush timers
  after the pump, until the HTTP handler returns, and how many of the packets they emit are
  handled before \<open>diagnostics.finish\<close>, then before \<open>streamMedia\<close> looks at \<open>started\<close>, then
  before \<open>Relay\<close> returns. Handling a packet is one step.
\<close>

record relay_env =
  dial :: "bool \<Rightarrow> string \<Rightarrow> string \<Rightarrow> net_error + (byte list \<times> net_error option) list"
  alive :: "nat option"
  wr :: request_net
  cw :: client_net
  rtp_port :: "nat \<Rightarrow> int option"
  rtcp_free :: "nat \<Rightarrow> bool"
  udp_events :: "udp_event list"
  watcher :: bool
  late_timers :: "timer_event list"
  late_finish :: nat
  late_started :: nat
  late_return :: nat

subsection \<open>Streaming\<close>

text \<open>
  The end of \<open>streamMedia\<close>, common to both transports: whether the media had started, and
  the error that remains. \<open>over\<close> is whether the context is then found done.
\<close>

definition finish_relay :: "relay \<Rightarrow> relay" where
  "finish_relay r = r\<lparr>diag := finish (diag r)\<rparr>"

definition stream_end :: "relay \<Rightarrow> relay_error option \<Rightarrow> bool \<Rightarrow> bool \<times> relay_error option" where
  "stream_end r e over =
     (case e of
        None \<Rightarrow> (started r, None)
      | Some err \<Rightarrow>
          if \<not> started r then (False, Some err)
          else if over \<or> err = Net NetClosed \<or> err = Net EOF then (True, None)
          else (True, Some err))"

record transport =
  kind :: transport_kind
  clientRtpPort :: int
  clientRtcpPort :: int

definition tcp_transport :: transport where
  "tcp_transport = \<lparr>kind = TCP, clientRtpPort = 0, clientRtcpPort = 0\<rparr>"

text \<open>
  What \<open>streamMedia\<close> leaves: the state of the response, its two results, the connection, the
  sockets closed meanwhile, and the packets flush timers will emit after it has looked at
  \<open>started\<close>.
\<close>

record streamed =
  m_relay :: relay
  m_started :: bool
  m_error :: "relay_error option"
  m_conn :: rtspConnection
  m_ops :: "socket_op list"
  m_late :: "byte list list"

text \<open>
  \<open>streamMedia\<close>. \<open>None\<close> inside the result: a UDP relay still waiting for events. On UDP the
  connection is not touched; the context is then looked at where the pump left it.
\<close>

definition udp_streamed ::
  "relay_env \<Rightarrow> transport \<Rightarrow> string \<Rightarrow> rtspConnection \<Rightarrow> relay udp \<Rightarrow> relay_error option \<Rightarrow> streamed go" where
  "udp_streamed env t streamURL c st e = do {
     ps \<leftarrow> late_packets (u_buf st) (late_timers env);
     r \<leftarrow> late_deliver (handle_packet UDP streamURL (cw env)) (take (late_finish env) ps) (u_state st);
     let qs = drop (late_finish env) ps;
     r' \<leftarrow> late_deliver (handle_packet UDP streamURL (cw env)) (take (late_started env) qs) (finish_relay r);
     let res = stream_end r' e (u_look st);
     Some \<lparr>m_relay = r', m_started = fst res, m_error = snd res, m_conn = c\<lparr>ctx := u_ctx (u_tick st)\<rparr>,
       m_ops = (if u_watch_closed st then [CloseUdp (clientRtpPort t)] else []),
       m_late = drop (late_started env) qs\<rparr>
   }"

definition streamMedia ::
  "unicode \<Rightarrow> relay_env \<Rightarrow> transport \<Rightarrow> string \<Rightarrow> relay \<Rightarrow> rtspConnection \<Rightarrow> streamed option go" where
  "streamMedia U env t streamURL r c =
     (case kind t of
        TCP \<Rightarrow>
          (case pumpInterleaved U (handle_packet TCP streamURL (cw env)) r c of
             None \<Rightarrow> None
           | Some (r', e, c') \<Rightarrow>
               let r'' = finish_relay r'; res = stream_end r'' (Some e) (ctx_done c')
               in Some (Some \<lparr>m_relay = r'', m_started = fst res, m_error = snd res, m_conn = ctx_tick c',
                    m_ops = [], m_late = []\<rparr>))
      | UDP \<Rightarrow>
          (case pumpUdp (watcher env) (handle_packet UDP streamURL (cw env)) r (ctx c) (udp_events env) of
             None \<Rightarrow> None
           | Some (st, None) \<Rightarrow> Some None
           | Some (st, Some e) \<Rightarrow> map_option Some (udp_streamed env t streamURL c st e)))"

subsection \<open>Opening and closing\<close>

text \<open>The loop of \<open>createUdpTransport\<close>, with the attempts left.\<close>

fun udp_attempts :: "relay_env \<Rightarrow> nat \<Rightarrow> nat \<Rightarrow> transport option \<times> socket_op list" where
  "udp_attempts env attempt 0 = (None, [])"
| "udp_attempts env attempt (Suc left) =
     (let again = udp_attempts env (Suc attempt) left
      in case rtp_port env attempt of
           None \<Rightarrow> again
         | Some p \<Rightarrow>
             if odd p \<or> \<not> rtcp_free env attempt
             then (fst again, [OpenUdp p, CloseUdp p] @ snd again)
             else (Some \<lparr>kind = UDP, clientRtpPort = p, clientRtcpPort = p + 1\<rparr>, [OpenUdp p, OpenUdp (p + 1)]))"

definition createUdpTransport :: "relay_env \<Rightarrow> (relay_error + transport) \<times> socket_op list" where
  "createUdpTransport env =
     (case udp_attempts env 0 10 of
        (None, ops) \<Rightarrow> (Inl (Msg ''rtsp relay failed to reserve a SAT>IP UDP port pair''), ops)
      | (Some t, ops) \<Rightarrow> (Inr t, ops))"

text \<open>\<open>relayTransport.close\<close>; a TCP transport has no sockets of its own.\<close>

definition close_transport :: "transport \<Rightarrow> socket_op list" where
  "close_transport t =
     (case kind t of TCP \<Rightarrow> [] | UDP \<Rightarrow> [CloseUdp (clientRtpPort t), CloseUdp (clientRtcpPort t)])"

definition join_host_port :: "string \<Rightarrow> string \<Rightarrow> string" where
  "join_host_port host port =
     (if CHR '':'' \<in> set host then ''['' @ host @ '']:'' @ port else host @ '':'' @ port)"

definition connectRtspSocket ::
  "relay_env \<Rightarrow> url \<Rightarrow> (net_error + (byte list \<times> net_error option) list) \<times> socket_op list" where
  "connectRtspSocket env streamURL =
     (let tls = (Scheme streamURL = ''rtsps'');
          port = (if url_port streamURL \<noteq> [] then url_port streamURL else if tls then ''322'' else ''554'');
          r = dial env tls (join_host_port (url_hostname streamURL) port) (url_hostname streamURL)
      in (r, case r of Inl _ \<Rightarrow> [] | Inr _ \<Rightarrow> [OpenTcp]))"

subsection \<open>Negotiating a transport\<close>

fun try_tcp ::
  "unicode \<Rightarrow> relay_env \<Rightarrow> url \<Rightarrow> string list \<Rightarrow> rtspConnection \<Rightarrow> (rtspResponse option \<times> rtspConnection) go" where
  "try_tcp U env u [] c = Some (None, c)"
| "try_tcp U env u (candidate # rest) c =
     (case request U (wr env) ''SETUP'' u (''Transport'', candidate) c of
        None \<Rightarrow> None
      | Some (Inl e, c') \<Rightarrow> try_tcp U env u rest c'
      | Some (Inr resp, c') \<Rightarrow>
          if parseNegotiatedTransport U resp = Inr TCP then Some (Some resp, c')
          else try_tcp U env u rest c')"

definition udp_transport_header :: "transport \<Rightarrow> string" where
  "udp_transport_header t =
     ''RTP/AVP;unicast;client_port='' @ itoa (clientRtpPort t) @ ''-'' @ itoa (clientRtcpPort t)"

record negotiation =
  n_result :: "relay_error + rtspResponse \<times> transport"
  n_conn :: rtspConnection
  n_ops :: "socket_op list"
  n_logged :: "relay_log list"

text \<open>The SETUP over UDP, with the sockets already open.\<close>

definition setup_udp ::
  "unicode \<Rightarrow> relay_env \<Rightarrow> url \<Rightarrow> transport \<Rightarrow> rtspConnection \<Rightarrow> negotiation go" where
  "setup_udp U env u t c =
     (case request U (wr env) ''SETUP'' u (''Transport'', udp_transport_header t) c of
        None \<Rightarrow> None
      | Some (Inl e, c') \<Rightarrow>
          Some \<lparr>n_result = Inl e, n_conn = c', n_ops = close_transport t, n_logged = []\<rparr>
      | Some (Inr resp, c') \<Rightarrow>
          Some (case parseNegotiatedTransport U resp of
             Inl e \<Rightarrow> \<lparr>n_result = Inl e, n_conn = c', n_ops = close_transport t, n_logged = []\<rparr>
           | Inr TCP \<Rightarrow> \<lparr>n_result = Inr (resp, tcp_transport), n_conn = c', n_ops = close_transport t,
               n_logged = [Negotiated TCP (url_string u)]\<rparr>
           | Inr UDP \<Rightarrow> \<lparr>n_result = Inr (resp, t), n_conn = c', n_ops = [],
               n_logged = [Negotiated UDP (url_string u)]\<rparr>))"

definition negotiateTransport :: "unicode \<Rightarrow> relay_env \<Rightarrow> url \<Rightarrow> rtspConnection \<Rightarrow> negotiation go" where
  "negotiateTransport U env u c =
     (case try_tcp U env u tcpTransportCandidates c of
        None \<Rightarrow> None
      | Some (Some resp, c') \<Rightarrow>
          Some \<lparr>n_result = Inr (resp, tcp_transport), n_conn = c', n_ops = [],
                n_logged = [Negotiated TCP (url_string u)]\<rparr>
      | Some (None, c') \<Rightarrow>
          (case createUdpTransport env of
             (Inl e, ops) \<Rightarrow> Some \<lparr>n_result = Inl e, n_conn = c', n_ops = ops, n_logged = []\<rparr>
           | (Inr t, ops) \<Rightarrow> map_option (\<lambda>n. n\<lparr>n_ops := ops @ n_ops n\<rparr>) (setup_udp U env u t c')))"

subsection \<open>Relay\<close>

text \<open>A failed TEARDOWN changes nothing for the caller; its panic would.\<close>

definition bestEffortTeardown ::
  "unicode \<Rightarrow> relay_env \<Rightarrow> url \<Rightarrow> string \<Rightarrow> rtspConnection \<Rightarrow> rtspConnection go" where
  "bestEffortTeardown U env u session c =
     (if session = [] then Some c
      else map_option snd (request U (wr env) ''TEARDOWN'' u (''Session'', session) c))"

text \<open>
  What a relay leaves behind: besides its result, the packets flush timers emitted while it was
  returning, and those they will still emit before the HTTP handler returns.
\<close>

record relayed =
  r_error :: "relay_error option"
  r_relay :: relay
  r_conn :: rtspConnection
  r_ops :: "socket_op list"
  r_during :: "byte list list"
  r_late :: "byte list list"

type_synonym relay_result = "relayed option go"

definition fails :: "relay_error \<Rightarrow> relay_log list \<Rightarrow> rtspConnection \<Rightarrow> socket_op list \<Rightarrow> relay_result" where
  "fails e l c ops = Some (Some \<lparr>r_error = Some e, r_relay = new_relay l, r_conn = c, r_ops = ops,
     r_during = [], r_late = []\<rparr>)"

text \<open>
  From the PLAY request on. The deferred calls run in reverse order: the TEARDOWN (only
  once PLAY has succeeded), the UDP sockets, then the connection; callbacks of flush timers
  may run beside them.
\<close>

definition stream_done :: "streamed \<Rightarrow> relay \<times> relay_error option" where
  "stream_done m =
     (if m_started m \<and> m_error m \<noteq> None
      then ((m_relay m)\<lparr>relay_logged := relay_logged (m_relay m) @ [RelayFailed (the (m_error m))]\<rparr>, None)
      else (m_relay m, m_error m))"

definition play ::
  "unicode \<Rightarrow> relay_env \<Rightarrow> string \<Rightarrow> url \<Rightarrow> string \<Rightarrow> transport \<Rightarrow> relay_log list \<Rightarrow> rtspConnection \<Rightarrow>
   socket_op list \<Rightarrow> relay_result" where
  "play U env streamURL u session t l c ops =
     (case request U (wr env) ''PLAY'' u (''Session'', session) c of
        None \<Rightarrow> None
      | Some (Inl e, c') \<Rightarrow> fails e l c' (ops @ close_transport t @ [CloseTcp])
      | Some (Inr resp, c') \<Rightarrow>
          (case streamMedia U env t streamURL (new_relay l) c' of
             None \<Rightarrow> None
           | Some None \<Rightarrow> Some None
           | Some (Some m) \<Rightarrow> do {
               let (r, e) = stream_done m;
               c3 \<leftarrow> bestEffortTeardown U env u session (m_conn m);
               r' \<leftarrow> late_deliver (handle_packet UDP streamURL (cw env)) (take (late_return env) (m_late m)) r;
               Some (Some \<lparr>r_error = e, r_relay = r', r_conn = c3,
                 r_ops = ops @ m_ops m @ close_transport t @ [CloseTcp],
                 r_during = take (late_return env) (m_late m), r_late = drop (late_return env) (m_late m)\<rparr>)
             }))"

text \<open>
  From the SETUP on. When the answer has no session header, the function returns before the
  UDP sockets' deferred close has been registered.
\<close>

definition relay_setup ::
  "unicode \<Rightarrow> relay_env \<Rightarrow> string \<Rightarrow> mediaTrack \<Rightarrow> rtspConnection \<Rightarrow> relay_result" where
  "relay_setup U env streamURL track c =
     (case negotiateTransport U env (setupURL track) c of
        None \<Rightarrow> None
      | Some n \<Rightarrow>
          (case n_result n of
             Inl e \<Rightarrow> fails e (n_logged n) (n_conn n) (n_ops n @ [CloseTcp])
           | Inr (resp, t) \<Rightarrow>
               (case parseSessionID resp of
                  Inl e \<Rightarrow> fails e (n_logged n) (n_conn n) (n_ops n @ [CloseTcp])
                | Inr session \<Rightarrow>
                    play U env streamURL (playURL track) session t (n_logged n) (n_conn n) (n_ops n))))"

definition Relay :: "unicode \<Rightarrow> relay_env \<Rightarrow> string \<Rightarrow> relay_result" where
  "Relay U env streamURL =
     (let no_conn = newRtspConnection [] (alive env)
      in case parse_url streamURL of
           None \<Rightarrow> fails UrlError [] no_conn []
         | Some parsed \<Rightarrow>
             if Scheme parsed \<noteq> ''rtsp'' \<and> Scheme parsed \<noteq> ''rtsps''
             then fails (UnsupportedScheme (Scheme parsed)) [] no_conn []
             else (case connectRtspSocket env parsed of
                (Inl e, ops) \<Rightarrow> fails (Net e) [] no_conn ops
              | (Inr script, ops) \<Rightarrow>
                  (case request U (wr env) ''DESCRIBE'' parsed (''Accept'', ''application/sdp'')
                          (newRtspConnection script (alive env)) of
                     None \<Rightarrow> None
                   | Some (Inl e, c) \<Rightarrow> fails e [] c (ops @ [CloseTcp])
                   | Some (Inr describe, c) \<Rightarrow>
                       (case parseSdpTrack U (of_bytes (body describe)) parsed of
                          None \<Rightarrow> None
                        | Some (Inl e) \<Rightarrow> fails e [] c (ops @ [CloseTcp])
                        | Some (Inr track) \<Rightarrow>
                            map_option (map_option (\<lambda>r. r\<lparr>r_ops := ops @ r_ops r\<rparr>))
                              (relay_setup U env streamURL track c)))))"

end
