(* ===== verification/Rtsp_Properties.thy ===== *)
theory Rtsp_Properties
  imports Rtsp_Relay Rtp_Properties Reorder_Properties
begin

text \<open>
  What the RTSP client promises: responses are read back whatever the network does to them,
  interleaved media reaches the HTTP client packet by packet, the requests of a relay follow
  the protocol, its sockets are closed, and the inputs that make it panic.
\<close>

subsection \<open>The text of a response\<close>

definition header_line :: "string \<times> string \<Rightarrow> string" where
  "header_line h = fst h @ '':'' @ '' '' @ snd h"

definition response_head :: "string \<Rightarrow> (string \<times> string) list \<Rightarrow> string" where
  "response_head status hs = join crlf (status # map header_line hs)"

definition render_response :: "string \<Rightarrow> (string \<times> string) list \<Rightarrow> byte list \<Rightarrow> byte list" where
  "render_response status hs bs = to_bytes (response_head status hs @ blank_line) @ bs"

text \<open>A line of the head: not empty and without line breaks.\<close>

definition line_ok :: "string \<Rightarrow> bool" where
  "line_ok l \<longleftrightarrow> l \<noteq> [] \<and> CHR 0x0D \<notin> set l"

definition header_ok :: "unicode \<Rightarrow> string \<times> string \<Rightarrow> bool" where
  "header_ok U h \<longleftrightarrow> fst h \<noteq> [] \<and> CHR '':'' \<notin> set (fst h) \<and> CHR 0x0D \<notin> set (fst h) \<and>
     trim_space (fst h) = fst h \<and> to_lower U (fst h) = fst h \<and>
     CHR 0x0D \<notin> set (snd h) \<and> trim_space (snd h) = snd h"

lemma blank_line_Cons: "blank_line = CHR 0x0D # [CHR 0x0A, CHR 0x0D, CHR 0x0A]"
  by (simp add: blank_line_def crlf_def)

lemma blank_line_found:
  "list_all line_ok ls \<Longrightarrow> ls \<noteq> [] \<Longrightarrow>
   str_index blank_line (join crlf ls @ blank_line @ r) = Some (length (join crlf ls))"
proof (induction ls)
  case (Cons l ls)
  then have l: "CHR 0x0D \<notin> set l" by (simp add: line_ok_def)
  show ?case
  proof (cases ls)
    case Nil
    with l show ?thesis
      using str_index_skip [OF blank_line_Cons l, of "blank_line @ r"] by (simp add: str_index_found)
  next
    case (Cons l' ls')
    with Cons.prems obtain c t where c: "l' = c # t" "c \<noteq> CHR 0x0D" by (cases l') (auto simp: line_ok_def)
    have ih: "str_index blank_line (join crlf ls @ blank_line @ r) = Some (length (join crlf ls))"
      using Cons Cons.IH Cons.prems by simp
    obtain u where u: "join crlf ls @ blank_line @ r = c # u"
      using Cons c by (cases ls') auto
    have "str_index blank_line (crlf @ c # u) = map_option (\<lambda>i. 2 + i) (str_index blank_line (c # u))"
      using c(2) by (simp add: crlf_def has_prefix_Cons blank_line_Cons option.map_comp comp_def)
    then have "str_index blank_line (crlf @ join crlf ls @ blank_line @ r) = Some (2 + length (join crlf ls))"
      using ih u by simp
    then show ?thesis
      using str_index_skip [OF blank_line_Cons l, of "crlf @ join crlf ls @ blank_line @ r"] Cons
      by (simp add: crlf_def)
  qed
qed simp

subsection \<open>Parsing the head\<close>

lemma header_line_ok: "header_ok U h \<Longrightarrow> line_ok (header_line h)"
  by (auto simp: header_ok_def header_line_def line_ok_def)

lemma add_header_line:
  assumes "header_ok U h"
  shows "add_header U m (header_line h) = m(fst h \<mapsto> snd h)"
proof -
  have "index_byte (CHR '':'') (header_line h) = Some (length (fst h))"
    using assms by (simp add: header_line_def header_ok_def index_byte_append)
  then show ?thesis
    using assms by (simp add: add_header_def header_line_def header_ok_def trim_space_lead)
qed

definition header_map :: "(string \<times> string) list \<Rightarrow> headers" where
  "header_map hs = map_of (rev hs)"

lemma add_headers:
  "list_all (header_ok U) hs \<Longrightarrow> foldl (add_header U) m (map header_line hs) = m ++ header_map hs"
  by (induction hs arbitrary: m) (simp_all add: add_header_line header_map_def)

subsection \<open>Responses are read back\<close>

definition response_ok :: "unicode \<Rightarrow> string \<Rightarrow> int \<Rightarrow> (string \<times> string) list \<Rightarrow> byte list \<Rightarrow> bool" where
  "response_ok U status n hs bs \<longleftrightarrow> line_ok status \<and> 2 \<le> length (Fields status) \<and>
     atoi (Fields status ! 1) = (n, False) \<and> list_all (header_ok U) hs \<and>
     content_length (header_map hs) = int (length bs) \<and> int (length bs) \<le> max_alloc \<and>
     int (length (response_head status hs)) \<le> max_alloc"

lemma response_unit_render:
  assumes ok: "response_ok U status n hs bs"
  shows "response_unit U (render_response status hs bs @ rest) =
    Some (IResponse \<lparr>statusCode = n, headers = header_map hs, body = bs\<rparr>,
      length (render_response status hs bs))"
proof -
  let ?h = "response_head status hs" and ?b = "render_response status hs bs @ rest"
  have lines: "list_all line_ok (status # map header_line hs)"
    using ok header_line_ok by (auto simp: response_ok_def list_all_iff)
  have b: "?b = to_bytes (?h @ blank_line) @ bs @ rest" by (simp add: render_response_def)
  have "of_bytes ?b = ?h @ blank_line @ of_bytes (bs @ rest)" unfolding b by simp
  then have he: "header_end ?b = Some (length ?h)" and th: "take (length ?h) (of_bytes ?b) = ?h"
    using blank_line_found [OF lines, of "of_bytes (bs @ rest)"]
    by (simp_all add: header_end_def response_head_def)
  have "list_all (\<lambda>l. CHR 0x0D \<notin> set l) (status # map header_line hs)"
    using lines by (auto simp: line_ok_def list_all_iff)
  then have "split_on crlf ?h = status # map header_line hs"
    unfolding response_head_def by (rule split_crlf_join) simp
  then have ph: "parse_head U ?h = Inr (n, header_map hs)"
    using ok by (simp add: parse_head_def Let_def response_ok_def add_headers)
  have len: "length (render_response status hs bs) = length ?h + 4 + length bs"
    by (simp add: render_response_def blank_line_def crlf_def)
  have "wrap64 (int (length ?h + 4) + content_length (header_map hs)) = int (length ?h + 4 + length bs)"
    using ok by (simp add: response_ok_def wrap64_def max_alloc_def)
  moreover have "make_bytes (content_length (header_map hs)) \<noteq> None"
    using ok by (simp add: response_ok_def make_bytes_def)
  moreover have "slice ?b (length ?h + 4) (length ?h + 4 + length bs) = Some bs"
    unfolding b by (simp add: slice_def blank_line_def crlf_def)
  moreover have "nat (int (length ?h) + 4 + int (length bs)) = length ?h + 4 + length bs" by simp
  ultimately show ?thesis
    unfolding response_unit_def he th ph option.case sum.case prod.case
    by (simp add: response_parts_def Let_def body_ready_def len)
qed

lemma readResponse_chunks:
  assumes "reads c = map (\<lambda>b. (b, None)) chunks"
    and "response_unit U (buffer c @ concat chunks) = Some (IResponse resp, n)"
  shows "\<exists>c' rest. readResponse U c = Some (Inr resp, c') \<and>
    reads c' = map (\<lambda>b. (b, None)) rest \<and>
    buffer c' @ concat rest = drop n (buffer c @ concat chunks) \<and>
    c' = c\<lparr>buffer := buffer c', reads := reads c'\<rparr>"
  using assms
proof (induction chunks arbitrary: c)
  case Nil
  then show ?case using readResponse_unit [of U c "IResponse resp" n] by auto
next
  case (Cons b chunks)
  show ?case
  proof (cases "response_unit U (buffer c)")
    case None
    let ?c = "c\<lparr>buffer := buffer c @ b, reads := map (\<lambda>b. (b, None)) chunks\<rparr>"
    have "readMore False c = (None, ?c)" using Cons.prems by (simp add: readMore_def)
    with readResponse_wait [OF None] have "readResponse U c = readResponse U ?c" by simp
    then show ?thesis using Cons.IH [of ?c] Cons.prems by auto
  next
    case (Some un)
    then obtain u m where un: "response_unit U (buffer c) = Some (u, m)" by (cases un) auto
    from response_unit_append [OF this] Cons.prems have "u = IResponse resp" "m = n" by auto
    moreover have "m \<le> length (buffer c)" using response_unit_bounds [OF un] by simp
    ultimately show ?thesis
      using readResponse_unit [OF un] Cons.prems
      by (auto intro!: exI [of _ "b # chunks"])
  qed
qed

text \<open>
  C40 Responses are read back. A response with a well-formed status line, headers (lower-case
  names, trimmed contents) and a body whose length its content-length header gives is read
  as exactly that status, those headers (a repeated name has its last content) and that
  body, however the network cuts it into chunks and whatever follows it on the connection;
  what follows is left for the next read.
\<close>

theorem readResponse_roundtrip:
  assumes "response_ok U status n hs bs"
    and "reads c = map (\<lambda>b. (b, None)) chunks"
    and "buffer c @ concat chunks = render_response status hs bs @ rest"
  shows "\<exists>c' left. readResponse U c =
      Some (Inr \<lparr>statusCode = n, headers = header_map hs, body = bs\<rparr>, c') \<and>
    reads c' = map (\<lambda>b. (b, None)) left \<and> buffer c' @ concat left = rest"
  using readResponse_chunks [OF assms(2), of U] response_unit_render [OF assms(1), of rest]
  unfolding assms(3) by fastforce

subsection \<open>A consumer that accepts everything\<close>

definition consumes :: "'s consumer \<Rightarrow> ('s \<Rightarrow> byte list \<Rightarrow> 's) \<Rightarrow> byte list set \<Rightarrow> bool" where
  "consumes handle f P \<longleftrightarrow> (\<forall>s. \<forall>p \<in> P. handle s p = Some (f s p, None))"

text \<open>A client that never refuses a write.\<close>

definition patient :: client_net where
  "patient ws w = None"

definition media_of :: "byte list \<Rightarrow> byte list" where
  "media_of p = (case depacketizeRtpPayload p of Some (Inr m) \<Rightarrow> m | _ \<Rightarrow> [])"

definition well_formed :: "byte list \<Rightarrow> bool" where
  "well_formed p \<longleftrightarrow> (\<exists>m. depacketizeRtpPayload p = Some (Inr m))"

definition chunks_of :: "byte list list \<Rightarrow> byte list list" where
  "chunks_of ps = filter (\<lambda>m. m \<noteq> []) (map media_of ps)"

definition consume :: "transport_kind \<Rightarrow> string \<Rightarrow> relay \<Rightarrow> byte list \<Rightarrow> relay" where
  "consume k u r p = fst (the (handle_packet k u patient r p))"

lemma emitStart_facts [simp]:
  "written (emitStart k u r) = written r" "started (emitStart k u r)"
  by (simp_all add: emitStart_def)

lemma handle_packet_ok:
  assumes "well_formed p"
  shows "\<exists>r'. handle_packet k u patient r p = Some (r', None) \<and>
    written r' = written r @ chunks_of [p] \<and> (started r' \<longleftrightarrow> started r \<or> chunks_of [p] \<noteq> [])"
proof -
  obtain m where m: "depacketizeRtpPayload p = Some (Inr m)" using assms by (auto simp: well_formed_def)
  then have "chunks_of [p] = (if m = [] then [] else [m])" by (simp add: chunks_of_def media_of_def)
  with m show ?thesis
    by (auto simp: handle_packet_def recordRtpPacket_eq recordTsPayload_eq patient_def Let_def)
qed

lemma consume_patient: "consumes (handle_packet k u patient) (consume k u) {p. well_formed p}"
proof -
  have "handle_packet k u patient r p = Some (consume k u r p, None)" if p: "well_formed p" for r p
    using handle_packet_ok [OF p, of k u r] by (auto simp: consume_def)
  then show ?thesis by (simp add: consumes_def)
qed

lemma chunks_of_append: "chunks_of (ps @ qs) = chunks_of ps @ chunks_of qs"
  by (simp add: chunks_of_def)

lemma consume_all:
  "list_all well_formed ps \<Longrightarrow>
   written (foldl (consume k u) r ps) = written r @ chunks_of ps \<and>
   (started (foldl (consume k u) r ps) \<longleftrightarrow> started r \<or> chunks_of ps \<noteq> [])"
proof (induction ps arbitrary: r)
  case Nil
  then show ?case by (simp add: chunks_of_def)
next
  case (Cons p ps)
  obtain r' where "consume k u r p = r'" "written r' = written r @ chunks_of [p]"
    "started r' \<longleftrightarrow> started r \<or> chunks_of [p] \<noteq> []"
    using handle_packet_ok [of p k u r] Cons.prems by (auto simp: consume_def)
  with Cons chunks_of_append [of "[p]" ps] show ?case by simp
qed

subsection \<open>Media over TCP\<close>

definition frame_bytes :: "byte \<times> byte list \<Rightarrow> byte list" where
  "frame_bytes f = [interleavedFrameMarker, fst f, of_nat (length (snd f) div 256), of_nat (length (snd f))] @ snd f"

definition packets_of :: "(byte \<times> byte list) list \<Rightarrow> byte list list" where
  "packets_of fs = map snd (filter (\<lambda>f. even (unat (fst f))) fs)"

lemma frame_unit:
  assumes "length p < 65536"
  shows "interleaved_unit U (frame_bytes (ch, p) @ rest) = Some (IFrame ch p, 4 + length p)"
proof -
  let ?b = "frame_bytes (ch, p) @ rest"
  have hi: "unat (of_nat (length p div 256) :: byte) = length p div 256"
    using assms by (simp add: less_mult_imp_div_less)
  have "?b ! 2 = of_nat (length p div 256)" "?b ! 3 = of_nat (length p)" and ch: "?b ! Suc 0 = ch"
    by (simp_all add: frame_bytes_def)
  then have size: "frame_size ?b = 4 + length p"
    using hi join8 [of "length p mod 256" "length p div 256"] by (simp add: frame_size_def)
  have "?b ! 0 = interleavedFrameMarker" "?b \<noteq> []" "4 \<le> length ?b" "4 + length p \<le> length ?b"
    by (simp_all add: frame_bytes_def)
  with marker_not_R [of ?b] size have "interleaved_item ?b = Some (FrameItem ch (take (length p) (drop 4 ?b)) (4 + length p))"
    by (simp add: interleaved_item_eq ch)
  moreover have "take (length p) (drop 4 ?b) = p" by (simp add: frame_bytes_def)
  ultimately show ?thesis by (simp add: interleaved_unit_def)
qed

lemma drain_frames:
  assumes "consumes handle f P"
  shows "list_all (\<lambda>g. length (snd g) < 65536) fs \<Longrightarrow> set (packets_of fs) \<subseteq> P \<Longrightarrow>
    interleaved_drain U handle (s, Running) (concat (map frame_bytes fs)) =
      ((foldl f s (packets_of fs), Running), [])"
proof (induction fs arbitrary: s)
  case Nil
  then show ?case by (simp add: packets_of_def il.drain_Nil)
next
  case (Cons g fs)
  obtain ch p where g: "g = (ch, p)" by (cases g)
  let ?b = "frame_bytes (ch, p) @ concat (map frame_bytes fs)"
  have "interleaved_unit U ?b = Some (IFrame ch p, 4 + length p)"
    using Cons.prems g by (simp add: frame_unit)
  moreover have "drop (length (frame_bytes (ch, p))) ?b = concat (map frame_bytes fs)" by simp
  moreover have "length (frame_bytes (ch, p)) = 4 + length p" by (simp add: frame_bytes_def)
  ultimately have "interleaved_drain U handle (s, Running) ?b =
      interleaved_drain U handle (take_unit handle (s, Running) (IFrame ch p)) (concat (map frame_bytes fs))"
    using il.drain_take [of "(s, Running)" U ?b "IFrame ch p" "4 + length p" handle] by simp
  moreover have "take_unit handle (s, Running) (IFrame ch p) = (foldl f s (packets_of [g]), Running)"
    using Cons.prems(2) assms by (auto simp: take_unit_def g packets_of_def consumes_def)
  moreover have "packets_of (g # fs) = packets_of [g] @ packets_of fs" by (simp add: packets_of_def)
  ultimately show ?case using Cons g by simp
qed

text \<open>
  C36 Media over TCP reaches the client packet by packet. When the server sends interleaved
  frames, cut into any chunks, and closes the connection, the body written to the HTTP
  client is the non-empty payloads of the packets on even channels, in order; frames on odd
  channels (RTCP) leave no trace. The relay then ends without an error if any media was
  written, and with the end of the stream as its error otherwise.
\<close>

theorem tcp_stream_delivered:
  assumes "ctx c = None" and "buffer c = []" and "reads c = map (\<lambda>b. (b, None)) chunks"
    and "concat chunks = concat (map frame_bytes fs)"
    and "list_all (\<lambda>g. length (snd g) < 65536) fs" and "list_all well_formed (packets_of fs)"
    and "cw env = patient"
  shows "\<exists>m. streamMedia U env tcp_transport u (new_relay l) c = Some (Some m) \<and>
    m_started m = (chunks_of (packets_of fs) \<noteq> []) \<and>
    m_error m = (if chunks_of (packets_of fs) = [] then Some (Net EOF) else None) \<and>
    written (m_relay m) = chunks_of (packets_of fs) \<and> m_late m = []"
proof -
  let ?h = "handle_packet TCP u patient" and ?f = "consume TCP u"
  let ?r = "foldl ?f (new_relay l) (packets_of fs)"
  have "map_option (\<lambda>(s, e, _). (s, e)) (pumpInterleaved U ?h (new_relay l) c) =
      pump_end (interleaved_drain U ?h (new_relay l, Running) (concat (map frame_bytes fs)))"
    using pump_drain [OF assms(1,3), of U ?h "new_relay l"] assms(2,4) by simp
  also have "\<dots> = Some (?r, Net EOF)"
    using drain_frames [OF consume_patient [of TCP u] assms(5), where U = U and s = "new_relay l"] assms(6)
    by (simp add: pump_end_def list_all_iff subset_iff)
  finally obtain c' where "pumpInterleaved U ?h (new_relay l) c = Some (?r, Net EOF, c')"
    by (auto simp: map_option_eq_Some)
  then show ?thesis
    using consume_all [OF assms(6), of TCP u "new_relay l"]
    by (simp add: streamMedia_def tcp_transport_def stream_end_def finish_relay_def assms(7) Let_def new_relay_def)
qed

subsection \<open>Media over UDP\<close>

lemma deliver_ok:
  "consumes handle f P \<Longrightarrow> set ps \<subseteq> P \<Longrightarrow> deliver handle ps (s, None) = Some (foldl f s ps, None)"
  by (induction ps arbitrary: s) (auto simp: consumes_def)

text \<open>The consumer has seen exactly what the buffer has emitted.\<close>

definition in_step :: "('s \<Rightarrow> byte list \<Rightarrow> 's) \<Rightarrow> 's \<Rightarrow> byte list set \<Rightarrow> 's udp \<Rightarrow> bool" where
  "in_step f s0 P st \<longleftrightarrow> reorder_ok (u_buf st) \<and> set_mset (packets (u_buf st)) \<subseteq> P \<and>
     u_err st = None \<and> u_state st = foldl f s0 (emitted (u_buf st))"

lemma buffer_step_ok:
  assumes "consumes handle f P" and "in_step f s0 P st" and "step (u_buf st) ev = Some b"
    and "set (taken_by (u_buf st) ev) \<subseteq> P"
  shows "\<exists>st'. buffer_step handle ev st = Some st' \<and> in_step f s0 P st' \<and> u_buf st' = b \<and>
    u_started st' = u_started st \<and> u_ctx st' = u_ctx st"
proof -
  have ok: "reorder_ok b" "extends (u_buf st) b" "packets b = packets (u_buf st) + mset (taken_by (u_buf st) ev)"
    using step_spec [OF _ assms(3)] assms(2) by (auto simp: in_step_def)
  then have sub: "set_mset (packets b) \<subseteq> P" using assms(2,4) by (auto simp: in_step_def)
  then have "set (emitted b) \<subseteq> P" by (auto simp: packets_def)
  moreover obtain new where new: "emitted b = emitted (u_buf st) @ new" using ok(2) by (auto simp: extends_def)
  ultimately have "deliver handle new (u_state st, None) = Some (foldl f (u_state st) new, None)"
    by (intro deliver_ok [OF assms(1)]) auto
  with new assms(2,3) ok sub show ?thesis
    by (simp add: buffer_step_def in_step_def)
qed

lemma u_tick_None: "u_ctx st = None \<Longrightarrow> u_tick st = st"
  by (simp add: u_tick_def)

lemma udp_datagrams:
  assumes "consumes handle f P"
  shows "in_step f s0 P st \<Longrightarrow> u_ctx st = None \<Longrightarrow> set ps \<subseteq> P \<Longrightarrow>
    list_all (\<lambda>p. length p \<le> 2048) ps \<Longrightarrow> run (u_buf st) (map Push ps) = Some b \<Longrightarrow>
    \<exists>st'. in_step f s0 P st' \<and> u_ctx st' = None \<and> u_buf st' = b \<and>
      (ps \<noteq> [] \<longrightarrow> u_started st') \<and> (u_started st \<longrightarrow> u_started st') \<and>
      udp_loop handle False st (map Datagram ps @ later) = udp_loop handle False st' later"
proof (induction ps arbitrary: st)
  case Nil
  then show ?case by auto
next
  case (Cons p ps)
  then obtain b1 where b1: "push (u_buf st) p = Some b1" "run b1 (map Push ps) = Some b"
    by (auto split: option.splits)
  let ?st = "st\<lparr>u_started := True\<rparr>"
  have "in_step f s0 P ?st" using Cons.prems(1) by (simp add: in_step_def)
  moreover have "set (taken_by (u_buf st) (Push p)) \<subseteq> P" using Cons.prems(3) by (auto simp: taken_by_def)
  ultimately obtain st1 where st1: "buffer_step handle (Push p) ?st = Some st1" "in_step f s0 P st1"
      "u_buf st1 = b1" "u_started st1" "u_ctx st1 = None"
    using buffer_step_ok [OF assms, of s0 ?st "Push p" b1] b1 Cons.prems(2) by auto
  then have "udp_loop handle False st (map Datagram (p # ps) @ later) = udp_loop handle False st1 (map Datagram ps @ later)"
    using Cons.prems(1,2,4) by (simp add: u_look_def u_tick_None in_step_def)
  moreover obtain st' where "in_step f s0 P st'" "u_ctx st' = None" "u_buf st' = b" "u_started st'"
      "udp_loop handle False st1 (map Datagram ps @ later) = udp_loop handle False st' later"
    using Cons.IH [OF st1(2,5)] Cons.prems(3,4) b1(2) st1(3,4) by auto
  ultimately show ?case by metis
qed

text \<open>
  C37 Media over UDP reaches the client in sequence order. If the first datagram opens a
  burst of at most 65 consecutive sequence numbers (which may wrap around), the others
  arrive in any order, each once, and then nothing more comes until the read times out, the
  pump returns without an error, and the body written to the HTTP client is the non-empty
  payloads of these packets in the order of their sequence numbers.
\<close>

theorem udp_stream_in_order:
  assumes "\<forall>q \<in> set (p # ps). 4 \<le> length q \<and> length q \<le> 2048 \<and> well_formed q"
    and "length (p # ps) = n" and "n \<le> 65"
    and "seqOf ` set (p # ps) = (\<lambda>i. seqOf p + of_nat i) ` {0..<n}"
  shows "\<exists>st qs. pumpUdp watch (handle_packet UDP u patient) (new_relay l) None
        (map Datagram (p # ps) @ [ReadError NetTimeout]) = Some (st, Some None) \<and>
    mset qs = mset (p # ps) \<and> map seqOf qs = map (\<lambda>i. seqOf p + of_nat i) [0..<n] \<and>
    written (u_state st) = chunks_of qs"
proof -
  let ?h = "handle_packet UDP u patient" and ?f = "consume UDP u" and ?r = "new_relay l"
  let ?st0 = "\<lparr>u_buf = newUdpRtpReorderBuffer, u_state = ?r, u_err = None, u_started = False, u_ctx = None,
    u_watch_closed = False\<rparr>"
  note cons = consume_patient [of UDP u]
  obtain b where b: "run newUdpRtpReorderBuffer (map Push (p # ps)) = Some b" "pending b = []"
      "mset (emitted b) = mset (p # ps)" "map seqOf (emitted b) = map (\<lambda>i. seqOf p + of_nat i) [0..<n]"
    using shuffled_burst [of p ps n] assms by auto
  have "in_step ?f ?r {q. well_formed q} ?st0"
    using reorder_ok_new by (simp add: in_step_def packets_def newUdpRtpReorderBuffer_def)
  then obtain st where st: "in_step ?f ?r {q. well_formed q} st" "u_ctx st = None" "u_buf st = b" "u_started st"
      "udp_loop ?h False ?st0 (map Datagram (p # ps) @ [ReadError NetTimeout]) = udp_loop ?h False st [ReadError NetTimeout]"
    using udp_datagrams [OF cons, of ?r ?st0 "p # ps" b "[ReadError NetTimeout]"] b(1) assms(1)
    by (auto simp: list_all_iff)
  have close: "close b = stop b" "emitted (stop b) = emitted b"
    using b(2) by (auto simp: close_def flushRemaining_def stop_def cancelTimer_def split: option.splits)
  obtain st' where st': "buffer_step ?h Close st = Some st'" "in_step ?f ?r {q. well_formed q} st'" "u_buf st' = stop b"
    using buffer_step_ok [OF cons st(1), of Close "stop b"] st(3) close by (auto simp: taken_by_def)
  then have "udp_loop ?h False st [ReadError NetTimeout] = Some (st', Some None)"
    using st(1,2,4) by (simp add: u_look_def u_tick_None in_step_def udp_read_error_def Let_def)
  then have "pumpUdp watch ?h ?r None (map Datagram (p # ps) @ [ReadError NetTimeout]) =
      Some (st'\<lparr>u_buf := stop (u_buf st'), u_watch_closed := watch \<and> u_look st'\<rparr>, Some None)"
    unfolding pumpUdp_def st(5) by simp
  moreover have "set (emitted b) = set (p # ps)" using b(3) by (rule mset_eq_setD)
  then have "list_all well_formed (emitted b)" using assms(1) by (simp add: list_all_iff)
  then have "written (u_state st') = chunks_of (emitted b)"
    using st'(2,3) close consume_all [of "emitted b" UDP u ?r] by (simp add: in_step_def new_relay_def)
  ultimately show ?thesis using b(3,4) by auto
qed

subsection \<open>Inputs that panic\<close>

text \<open>
  When a session description panics. \<open>parseSdpTrack\<close> panics exactly when some line, trimmed,
  is a media line (\<open>m=\<close>) of fewer than three fields; every other text gives a track or an error.
\<close>

theorem sdp_panics_iff:
  "parseSdpTrack U text u = None \<longleftrightarrow>
     (\<exists>l \<in> set (split_on [CHR 0x0A] text).
        has_prefix ''m='' (trim_space l) \<and> length (Fields (drop 2 (trim_space l))) < 3)"
proof -
  have line: "sdp_line U st l = None \<longleftrightarrow>
      has_prefix ''m='' (trim_space l) \<and> length (Fields (drop 2 (trim_space l))) < 3" for st l
    by (cases st) (auto simp: sdp_line_def Let_def slice_def has_prefix_def split: prod.splits bool.splits)
  have "sdp_lines U st ls = None \<longleftrightarrow>
      (\<exists>l \<in> set ls. has_prefix ''m='' (trim_space l) \<and> length (Fields (drop 2 (trim_space l))) < 3)" for st ls
  proof (induction ls arbitrary: st)
    case (Cons l ls)
    then show ?case using line [of st l] by (cases "sdp_line U st l") auto
  qed simp
  then show ?thesis by (simp add: parseSdpTrack_def)
qed

text \<open>
  A negative content length panics. When a complete head whose content-length header is a
  negative number is in the buffer, \<open>readResponse\<close> panics in \<open>make\<close> without reading more.
\<close>

theorem negative_content_length_panics:
  assumes "line_ok status" and "2 \<le> length (Fields status)" and "atoi (Fields status ! 1) = (n, False)"
    and "list_all (header_ok U) hs" and "content_length (header_map hs) < 0"
    and "- (2 ^ 62) \<le> content_length (header_map hs)" and "int (length (response_head status hs)) \<le> max_alloc"
    and "buffer c = render_response status hs rest"
  shows "readResponse U c = None"
proof -
  let ?h = "response_head status hs"
  have lines: "list_all line_ok (status # map header_line hs)"
    using assms(1,4) header_line_ok by (auto simp: list_all_iff)
  have "of_bytes (buffer c) = ?h @ blank_line @ of_bytes rest" by (simp add: assms(8) render_response_def)
  then have he: "header_end (buffer c) = Some (length ?h)" and th: "take (length ?h) (of_bytes (buffer c)) = ?h"
    using blank_line_found [OF lines, of "of_bytes rest"] by (simp_all add: header_end_def response_head_def)
  have "list_all (\<lambda>l. CHR 0x0D \<notin> set l) (status # map header_line hs)"
    using lines by (auto simp: line_ok_def list_all_iff)
  then have "split_on crlf ?h = status # map header_line hs"
    unfolding response_head_def by (rule split_crlf_join) simp
  then have ph: "parse_head U ?h = Inr (n, header_map hs)"
    using assms(2-4) by (simp add: parse_head_def Let_def add_headers)
  have "wrap64 (int (length ?h + 4) + content_length (header_map hs)) =
      int (length ?h + 4) + content_length (header_map hs)"
    using assms(5-7) by (simp add: wrap64_def max_alloc_def)
  moreover have "length ?h + 4 \<le> length (buffer c)"
    by (simp add: assms(8) render_response_def blank_line_def crlf_def)
  ultimately have "body_ready (wrap64 (int (length ?h + 4) + content_length (header_map hs))) (buffer c)"
    using assms(5) by (simp add: body_ready_def)
  moreover have "make_bytes (content_length (header_map hs)) = None"
    using assms(5) by (simp add: make_bytes_def)
  ultimately have "response_unit U (buffer c) = Some (IPanic, 1)"
    unfolding response_unit_def he th ph option.case sum.case prod.case
    by (simp add: response_parts_def Let_def)
  from readResponse_unit [OF this] show ?thesis by simp
qed

end
