(* ===== verification/Rtsp_Protocol.thy ===== *)
theory Rtsp_Protocol
  imports Rtsp_Relay
begin

text \<open>
  The conduct of a whole relay: which requests it sends, in which order, and which sockets
  it leaves open.
\<close>

subsection \<open>Requests\<close>

definition method_of :: "string \<Rightarrow> string" where
  "method_of msg = takeWhile (\<lambda>c. c \<noteq> CHR '' '') msg"

abbreviation methods :: "rtspConnection \<Rightarrow> string list" where
  "methods c \<equiv> map method_of (sent c)"

lemma readMore_sent: "readMore aware c = (e, c') \<Longrightarrow> sent c' = sent c"
  by (auto simp: readMore_def Let_def ctx_tick_def split: list.splits if_splits prod.splits)

lemma read_until_sent: "read_until ready c = (e, c') \<Longrightarrow> sent c' = sent c"
proof (induction ready c rule: read_until.induct)
  case (1 ready c)
  show ?case
  proof (cases "ready (buffer c)")
    case True
    with 1 show ?thesis by (simp add: read_until.simps [of ready c])
  next
    case False
    obtain e1 c1 where r: "readMore False c = (e1, c1)" by fastforce
    with 1 False show ?thesis
      by (cases e1) (auto simp: read_until.simps [of ready c] dest: readMore_sent)
  qed
qed

text \<open>A request does not look at the context.\<close>

lemma readMore_ctx: "readMore False c = (e, c') \<Longrightarrow> ctx c' = ctx c"
  by (auto simp: readMore_def Let_def split: list.splits prod.splits)

lemma read_until_ctx: "read_until ready c = (e, c') \<Longrightarrow> ctx c' = ctx c"
proof (induction ready c rule: read_until.induct)
  case (1 ready c)
  show ?case
  proof (cases "ready (buffer c)")
    case True
    with 1 show ?thesis by (simp add: read_until.simps [of ready c])
  next
    case False
    obtain e1 c1 where r: "readMore False c = (e1, c1)" by fastforce
    with 1 False show ?thesis
      by (cases e1) (auto simp: read_until.simps [of ready c] dest: readMore_ctx)
  qed
qed

lemma request_ctx: "request U w meth u h c = Some (r, c') \<Longrightarrow> ctx c' = ctx c"
  by (auto simp: request_def readResponse_def read_body_def Let_def bind_eq_Some_conv dest!: read_until_ctx
      split: prod.splits option.splits sum.splits if_splits)

lemma teardown_ctx: "bestEffortTeardown U env u session c = Some c' \<Longrightarrow> ctx c' = ctx c"
  by (auto simp: bestEffortTeardown_def dest: request_ctx split: if_splits)

lemma readResponse_sent: "readResponse U c = Some (r, c') \<Longrightarrow> sent c' = sent c"
  by (auto simp: readResponse_def read_body_def Let_def bind_eq_Some_conv dest!: read_until_sent
      split: prod.splits option.splits sum.splits if_splits)

text \<open>What the pump keeps: the requests sent, and whatever its consumer keeps.\<close>

definition keeps :: "'s consumer \<Rightarrow> ('s \<Rightarrow> bool) \<Rightarrow> bool" where
  "keeps handle I \<longleftrightarrow> (\<forall>s p s' e. handle s p = Some (s', e) \<longrightarrow> I s \<longrightarrow> I s')"

lemma pumpInterleaved_keeps:
  "pumpInterleaved U handle s c = Some (s', e, c') \<Longrightarrow> keeps handle I \<Longrightarrow> I s \<Longrightarrow> I s' \<and> sent c' = sent c"
proof (induction U handle s c arbitrary: s' e c' rule: pumpInterleaved.induct)
  case (1 U handle s c)
  note pump = pumpInterleaved.simps [of U handle s c]
  have tick: "sent (ctx_tick c) = sent c" by (simp add: ctx_tick_def)
  show ?case
  proof (cases "ctx_done c")
    case True
    with "1.prems" show ?thesis by (simp add: pump)
  next
    case False
    then obtain i where i: "interleaved_item (buffer (ctx_tick c)) = Some i" by (simp add: interleaved_item_eq)
    show ?thesis
    proof (cases i)
      case NeedMore
      obtain x c1 where r: "readMore True (ctx_tick c) = (x, c1)" by fastforce
      then have s1: "sent c1 = sent c" using readMore_sent tick by metis
      show ?thesis
      proof (cases x)
        case None
        with "1.prems" False i NeedMore r have "pumpInterleaved U handle s c1 = Some (s', e, c')"
          by (simp add: pump)
        with "1.IH"(1) [OF False refl i NeedMore r [symmetric] None] "1.prems"(2,3) s1 show ?thesis by simp
      next
        case (Some y)
        with "1.prems" False i NeedMore r s1 show ?thesis by (simp add: pump)
      qed
    next
      case ResponseItem
      then obtain x c1 where r: "readResponse U (ctx_tick c) = Some (x, c1)"
        using "1.prems" False i by (cases "readResponse U (ctx_tick c)") (auto simp: pump)
      then have s1: "sent c1 = sent c" using readResponse_sent tick by metis
      show ?thesis
      proof (cases x)
        case (Inr b)
        with "1.prems" False i ResponseItem r have "pumpInterleaved U handle s c1 = Some (s', e, c')"
          by (simp add: pump)
        with "1.IH"(2) [OF False refl i ResponseItem r refl Inr] "1.prems"(2,3) s1 show ?thesis by simp
      next
        case (Inl y)
        with "1.prems" False i ResponseItem r s1 show ?thesis by (simp add: pump)
      qed
    next
      case (FrameItem ch p n)
      let ?c = "(ctx_tick c)\<lparr>buffer := drop n (buffer (ctx_tick c))\<rparr>"
      show ?thesis
      proof (cases "odd (unat ch)")
        case True
        with "1.prems" False i FrameItem have "pumpInterleaved U handle s ?c = Some (s', e, c')"
          by (simp add: pump Let_def)
        with "1.IH"(3) [OF False refl i FrameItem refl True] "1.prems"(2,3) tick show ?thesis by simp
      next
        case even: False
        then obtain s1 x where h: "handle s p = Some (s1, x)"
          using "1.prems" False i FrameItem by (cases "handle s p") (auto simp: pump Let_def)
        then have s1: "I s1" using "1.prems"(2,3) by (auto simp: keeps_def)
        show ?thesis
        proof (cases x)
          case None
          with "1.prems" False i FrameItem even h have "pumpInterleaved U handle s1 ?c = Some (s', e, c')"
            by (simp add: pump Let_def)
          with "1.IH"(4) [OF False refl i FrameItem refl even h refl None] "1.prems"(2) s1 tick show ?thesis by simp
        next
          case (Some y)
          with "1.prems" False i FrameItem even h tick s1 show ?thesis by (auto simp: pump Let_def)
        qed
      qed
    qed
  qed
qed

lemma pumpInterleaved_sent: "pumpInterleaved U handle s c = Some (s', e, c') \<Longrightarrow> sent c' = sent c"
  using pumpInterleaved_keeps [where I = "\<lambda>s. True"] by (fastforce simp: keeps_def)

text \<open>One request adds one message, unless the write fails.\<close>

lemma request_methods:
  assumes "request U w meth u h c = Some (r, c')" and "CHR '' '' \<notin> set meth"
  shows "methods c' = methods c @ [meth] \<or> (\<exists>e. r = Inl e) \<and> methods c' = methods c"
proof -
  let ?m = "request_text (cseq c) meth u h"
  have m: "method_of ?m = meth"
    using assms(2) by (auto simp: method_of_def request_text_def takeWhile_append)
  show ?thesis
  proof (cases "w (sent c) ?m")
    case (Some e)
    with assms(1) show ?thesis by (auto simp: request_def Let_def)
  next
    case None
    then obtain r1 c1 where r1: "readResponse U (c\<lparr>cseq := cseq c + 1, sent := sent c @ [?m]\<rparr>) = Some (r1, c1)"
      and "c' = c1"
      using assms(1) by (auto simp: request_def Let_def split: option.splits sum.splits if_splits)
    with readResponse_sent [OF r1] m show ?thesis by simp
  qed
qed

lemma try_tcp_methods:
  "try_tcp U env u cs c = Some (r, c') \<Longrightarrow>
   \<exists>n. n \<le> length cs \<and> (r \<noteq> None \<longrightarrow> 0 < n) \<and> methods c' = methods c @ replicate n ''SETUP''"
proof (induction cs arbitrary: c)
  case Nil
  then show ?case by auto
next
  case (Cons x cs)
  then obtain q c1 where q: "request U (wr env) ''SETUP'' u (''Transport'', x) c = Some (q, c1)"
    by (auto split: option.splits)
  have one: "methods c1 = methods c @ [''SETUP''] \<or> (\<exists>e. q = Inl e) \<and> methods c1 = methods c"
    using request_methods [OF q] by simp
  show ?case
  proof (cases "\<exists>resp. q = Inr resp \<and> parseNegotiatedTransport U resp = Inr TCP")
    case True
    with Cons.prems q one show ?thesis by (auto intro!: exI [of _ 1])
  next
    case False
    with Cons.prems q have "try_tcp U env u cs c1 = Some (r, c')" by (auto split: sum.splits)
    from Cons.IH [OF this] obtain n where n: "n \<le> length cs" "r \<noteq> None \<longrightarrow> 0 < n"
      "methods c' = methods c1 @ replicate n ''SETUP''" by blast
    from one show ?thesis
    proof
      assume "methods c1 = methods c @ [''SETUP'']"
      with n show ?thesis by (intro exI [of _ "Suc n"]) simp
    next
      assume "(\<exists>e. q = Inl e) \<and> methods c1 = methods c"
      with n show ?thesis by (intro exI [of _ n]) simp
    qed
  qed
qed

lemma negotiate_methods:
  assumes "negotiateTransport U env u c = Some n"
  shows "\<exists>k. k \<le> 3 \<and> (\<forall>x. n_result n = Inr x \<longrightarrow> 0 < k) \<and>
    methods (n_conn n) = methods c @ replicate k ''SETUP''"
proof -
  obtain r c1 where r: "try_tcp U env u tcpTransportCandidates c = Some (r, c1)"
    using assms by (auto simp: negotiateTransport_def split: option.splits)
  obtain k where k: "k \<le> 2" "r \<noteq> None \<longrightarrow> 0 < k" "methods c1 = methods c @ replicate k ''SETUP''"
    using try_tcp_methods [OF r] by (auto simp: tcpTransportCandidates_def)
  show ?thesis
  proof (cases r)
    case (Some resp)
    with assms r k show ?thesis by (auto simp: negotiateTransport_def intro!: exI [of _ k])
  next
    case None
    show ?thesis
    proof (cases "fst (createUdpTransport env)")
      case (Inl e)
      with None assms r k show ?thesis
        by (auto simp: negotiateTransport_def split: prod.splits sum.splits intro!: exI [of _ k])
    next
      case (Inr t)
      then obtain q c2 where q: "request U (wr env) ''SETUP'' u (''Transport'', udp_transport_header t) c1 = Some (q, c2)"
        and c2: "n_conn n = c2" and e: "\<And>e. q = Inl e \<Longrightarrow> n_result n = Inl e"
        using None assms r
        by (auto simp: negotiateTransport_def setup_udp_def split: prod.splits sum.splits option.splits
            transport_kind.splits)
      have "methods c2 = methods c1 @ [''SETUP''] \<or> (\<exists>e. q = Inl e) \<and> methods c2 = methods c1"
        using request_methods [OF q] by simp
      then show ?thesis
      proof
        assume "methods c2 = methods c1 @ [''SETUP'']"
        with k c2 show ?thesis
          by (intro exI [of _ "Suc k"]) (simp add: replicate_append_same [symmetric])
      next
        assume "(\<exists>e. q = Inl e) \<and> methods c2 = methods c1"
        with k c2 e show ?thesis by (intro exI [of _ k]) auto
      qed
    qed
  qed
qed

lemma udp_streamed_conn:
  "udp_streamed env t streamURL c st e = Some m \<Longrightarrow> m_conn m = c\<lparr>ctx := u_ctx (u_tick st)\<rparr> \<and>
     m_ops m = (if u_watch_closed st then [CloseUdp (clientRtpPort t)] else [])"
  by (auto simp: udp_streamed_def Let_def bind_eq_Some_conv split: prod.splits)

lemma streamMedia_sent: "streamMedia U env t u r c = Some (Some m) \<Longrightarrow> sent (m_conn m) = sent c"
  by (cases "kind t")
    (auto simp: streamMedia_def ctx_tick_def Let_def dest!: pumpInterleaved_sent udp_streamed_conn
      split: option.splits prod.splits)

text \<open>How a relay that has got an answer to PLAY ends.\<close>

lemma play_streamed:
  assumes "play U env streamURL u session t l c ops = Some (Some r)"
    and "request U (wr env) ''PLAY'' u (''Session'', session) c = Some (Inr resp, c1)"
  obtains m where "streamMedia U env t streamURL (new_relay l) c1 = Some (Some m)"
    and "bestEffortTeardown U env u session (m_conn m) = Some (r_conn r)"
    and "r_ops r = ops @ m_ops m @ close_transport t @ [CloseTcp]"
    and "r_error r = snd (stream_done m)"
    and "late_deliver (handle_packet UDP streamURL (cw env)) (r_during r) (fst (stream_done m)) = Some (r_relay r)"
    and "r_during r = take (late_return env) (m_late m)" and "r_late r = drop (late_return env) (m_late m)"
  using assms by (auto simp: play_def bind_eq_Some_conv split: option.splits prod.splits)

lemma play_methods:
  assumes "play U env streamURL u session t l c ops = Some (Some r)"
  shows "\<exists>p q. p \<le> 1 \<and> q \<le> p \<and>
    methods (r_conn r) = methods c @ replicate p ''PLAY'' @ replicate q ''TEARDOWN''"
proof -
  obtain x c1 where x: "request U (wr env) ''PLAY'' u (''Session'', session) c = Some (x, c1)"
    using assms by (auto simp: play_def split: option.splits)
  have one: "methods c1 = methods c @ [''PLAY''] \<or> (\<exists>e. x = Inl e) \<and> methods c1 = methods c"
    using request_methods [OF x] by simp
  show ?thesis
  proof (cases x)
    case (Inl e)
    with assms x have "r_conn r = c1" by (auto simp: play_def fails_def)
    with one show ?thesis
      by (elim disjE) (rule exI [of _ 1], rule exI [of _ 0], simp, rule exI [of _ 0], simp)
  next
    case (Inr resp)
    with assms x obtain m where m: "streamMedia U env t streamURL (new_relay l) c1 = Some (Some m)"
      and c3: "bestEffortTeardown U env u session (m_conn m) = Some (r_conn r)"
      by (auto elim: play_streamed)
    let ?c2 = "m_conn m"
    have c2: "methods ?c2 = methods c @ [''PLAY'']" using one Inr streamMedia_sent [OF m] by simp
    have "\<exists>q \<le> 1. methods (r_conn r) = methods ?c2 @ replicate q ''TEARDOWN''"
    proof (cases "session = []")
      case True
      with c3 show ?thesis by (auto simp: bestEffortTeardown_def)
    next
      case False
      with c3 obtain z where "request U (wr env) ''TEARDOWN'' u (''Session'', session) ?c2 = Some (z, r_conn r)"
        by (auto simp: bestEffortTeardown_def)
      from request_methods [OF this]
      have "methods (r_conn r) = methods ?c2 @ replicate 1 ''TEARDOWN'' \<or>
        methods (r_conn r) = methods ?c2 @ replicate 0 ''TEARDOWN''" by auto
      then show ?thesis by (metis le_numeral_extra(4) zero_le_one)
    qed
    then obtain q where "q \<le> 1" "methods (r_conn r) = methods ?c2 @ replicate q ''TEARDOWN''" by blast
    with c2 show ?thesis by (intro exI [of _ 1] exI [of _ q]) simp
  qed
qed

lemma setup_methods:
  assumes "relay_setup U env streamURL track c = Some (Some r)"
  shows "\<exists>k p q. k \<le> 3 \<and> p \<le> 1 \<and> q \<le> p \<and> (0 < p \<longrightarrow> 0 < k) \<and>
    methods (r_conn r) = methods c @ replicate k ''SETUP'' @ replicate p ''PLAY'' @ replicate q ''TEARDOWN''"
proof -
  obtain n where n: "negotiateTransport U env (setupURL track) c = Some n"
    using assms by (auto simp: relay_setup_def split: option.splits)
  obtain k where k: "k \<le> 3" "\<And>x. n_result n = Inr x \<Longrightarrow> 0 < k"
      "methods (n_conn n) = methods c @ replicate k ''SETUP''"
    using negotiate_methods [OF n] by blast
  show ?thesis
  proof (cases "\<exists>resp t session. n_result n = Inr (resp, t) \<and> parseSessionID resp = Inr session")
    case True
    then obtain resp t session where ok: "n_result n = Inr (resp, t)" "parseSessionID resp = Inr session" by blast
    with assms n have "play U env streamURL (playURL track) session t (n_logged n) (n_conn n) (n_ops n) = Some (Some r)"
      by (simp add: relay_setup_def)
    from play_methods [OF this] obtain p q where "p \<le> 1" "q \<le> p"
      "methods (r_conn r) = methods (n_conn n) @ replicate p ''PLAY'' @ replicate q ''TEARDOWN''" by blast
    with k ok show ?thesis by (intro exI [of _ k] exI [of _ p] exI [of _ q]) simp
  next
    case False
    with assms n have "r_conn r = n_conn n"
      by (auto simp: relay_setup_def fails_def split: sum.splits prod.splits)
    with k show ?thesis by (intro exI [of _ k] exI [of _ 0]) simp
  qed
qed

text \<open>How a relay that returned got there.\<close>

lemma Relay_cases:
  assumes "Relay U env streamURL = Some (Some r)"
  obtains (unconnected) "sent (r_conn r) = []" and "r_ops r = []"
  | (described) u script x c where
      "request U (wr env) ''DESCRIBE'' u (''Accept'', ''application/sdp'') (newRtspConnection script (alive env)) = Some (x, c)"
      and "r_conn r = c" and "r_ops r = [OpenTcp, CloseTcp]"
  | (set_up) u script d c track r' where
      "request U (wr env) ''DESCRIBE'' u (''Accept'', ''application/sdp'') (newRtspConnection script (alive env)) = Some (Inr d, c)"
      and "relay_setup U env streamURL track c = Some (Some r')"
      and "r_conn r = r_conn r'" and "r_ops r = OpenTcp # r_ops r'" and "r_error r = r_error r'"
proof -
  show thesis
  proof (cases "\<exists>u. parse_url streamURL = Some u \<and> (Scheme u = ''rtsp'' \<or> Scheme u = ''rtsps'')")
    case False
    with assms show thesis
      by (intro unconnected) (auto simp: Relay_def fails_def Let_def newRtspConnection_def split: option.splits if_splits)
  next
    case True
    then obtain u where u: "parse_url streamURL = Some u" "Scheme u = ''rtsp'' \<or> Scheme u = ''rtsps''" by blast
    obtain dialled ops where d: "connectRtspSocket env u = (dialled, ops)" by fastforce
    show thesis
    proof (cases dialled)
      case (Inl e)
      with d have "ops = []" by (auto simp: connectRtspSocket_def Let_def split: sum.splits)
      with assms u d Inl show thesis
        by (intro unconnected) (auto simp: Relay_def fails_def Let_def newRtspConnection_def)
    next
      case (Inr script)
      with d have ops: "ops = [OpenTcp]" by (auto simp: connectRtspSocket_def Let_def split: sum.splits)
      obtain x c where x: "request U (wr env) ''DESCRIBE'' u (''Accept'', ''application/sdp'') (newRtspConnection script (alive env)) = Some (x, c)"
        using assms u d Inr by (auto simp: Relay_def Let_def split: option.splits)
      show thesis
      proof (cases "\<exists>y track. x = Inr y \<and> parseSdpTrack U (of_bytes (body y)) u = Some (Inr track)")
        case False
        with assms u d Inr x ops show thesis
          by (intro described [OF x]) (auto simp: Relay_def fails_def Let_def split: option.splits sum.splits)
      next
        case True
        then obtain y track where y: "x = Inr y" "parseSdpTrack U (of_bytes (body y)) u = Some (Inr track)" by blast
        with assms u d Inr x ops obtain r' where "relay_setup U env streamURL track c = Some (Some r')"
          "r = r'\<lparr>r_ops := ops @ r_ops r'\<rparr>"
          by (auto simp: Relay_def Let_def)
        with x y ops show thesis by (intro set_up [of u script y c track r']) auto
      qed
    qed
  qed
qed

text \<open>
  C39 A relay keeps to the protocol. Whatever the server and the network do, the requests a
  relay has sent when it returns are, in order: at most one DESCRIBE, at most three SETUP,
  at most one PLAY, and a TEARDOWN only after a PLAY; PLAY is only sent after a SETUP, and
  SETUP only after the DESCRIBE.
\<close>

theorem relay_dialogue:
  assumes "Relay U env streamURL = Some (Some r)"
  shows "\<exists>d k p q. d \<le> 1 \<and> k \<le> 3 \<and> p \<le> 1 \<and> q \<le> p \<and> (0 < k \<longrightarrow> 0 < d) \<and> (0 < p \<longrightarrow> 0 < k) \<and>
    map method_of (sent (r_conn r)) = replicate d ''DESCRIBE'' @ replicate k ''SETUP'' @
      replicate p ''PLAY'' @ replicate q ''TEARDOWN''"
  using assms
proof (cases rule: Relay_cases)
  case unconnected
  then show ?thesis by (intro exI [of _ 0]) simp
next
  case (described u script x c)
  from request_methods [OF described(1)]
  have "methods (r_conn r) = replicate 1 ''DESCRIBE'' \<or> methods (r_conn r) = replicate 0 ''DESCRIBE''"
    by (auto simp: newRtspConnection_def described(2))
  then obtain d where "d \<le> 1" "methods (r_conn r) = replicate d ''DESCRIBE''"
    by (metis le_numeral_extra(4) zero_le_one)
  then show ?thesis by (intro exI [of _ d] exI [of _ 0]) simp
next
  case (set_up u script d c track r')
  have "methods c = [''DESCRIBE'']"
    using request_methods [OF set_up(1)] by (simp add: newRtspConnection_def)
  moreover obtain k p q where "k \<le> 3" "p \<le> 1" "q \<le> p" "0 < p \<longrightarrow> 0 < k"
    "methods (r_conn r') = methods c @ replicate k ''SETUP'' @ replicate p ''PLAY'' @ replicate q ''TEARDOWN''"
    using setup_methods [OF set_up(2)] by blast
  ultimately show ?thesis
    using set_up(3) by (intro exI [of _ 1] exI [of _ k] exI [of _ p] exI [of _ q]) simp
qed

subsection \<open>Sockets\<close>

text \<open>Opened minus closed, for the connection (\<open>None\<close>) and for each UDP port.\<close>

fun op_balance :: "int option \<Rightarrow> socket_op \<Rightarrow> int" where
  "op_balance x OpenTcp = (if x = None then 1 else 0)"
| "op_balance x CloseTcp = (if x = None then - 1 else 0)"
| "op_balance x (OpenUdp p) = (if x = Some p then 1 else 0)"
| "op_balance x (CloseUdp p) = (if x = Some p then - 1 else 0)"

definition balance :: "socket_op list \<Rightarrow> int option \<Rightarrow> int" where
  "balance ops x = sum_list (map (op_balance x) ops)"

lemma balance_simps [simp]:
  "balance [] x = 0"
  "balance (op # ops) x = op_balance x op + balance ops x"
  "balance (ops @ ops') x = balance ops x + balance ops' x"
  by (simp_all add: balance_def)

definition udp_pair :: "transport \<Rightarrow> bool" where
  "udp_pair t \<longleftrightarrow> kind t = UDP \<longrightarrow> clientRtcpPort t = clientRtpPort t + 1"

lemma udp_attempts_balance:
  "udp_attempts env a n = (t, ops) \<Longrightarrow>
   case t of None \<Rightarrow> balance ops x = 0
   | Some t \<Rightarrow> kind t = UDP \<and> udp_pair t \<and> OpenUdp (clientRtpPort t) \<in> set ops \<and>
       balance (ops @ close_transport t) x = 0"
proof (induction n arbitrary: a t ops)
  case (Suc n)
  obtain t1 ops1 where "udp_attempts env (Suc a) n = (t1, ops1)" by fastforce
  with Suc show ?case
    by (fastforce simp: Let_def close_transport_def udp_pair_def split: option.splits if_splits)
qed simp

lemma negotiate_balance:
  assumes "negotiateTransport U env u c = Some n"
  shows "case n_result n of Inl e \<Rightarrow> balance (n_ops n) x = 0
    | Inr (resp, t) \<Rightarrow> udp_pair t \<and> (kind t = UDP \<longrightarrow> OpenUdp (clientRtpPort t) \<in> set (n_ops n)) \<and>
        balance (n_ops n @ close_transport t) x = 0"
proof -
  obtain r c1 where r: "try_tcp U env u tcpTransportCandidates c = Some (r, c1)"
    using assms by (auto simp: negotiateTransport_def split: option.splits)
  obtain t ops where t: "udp_attempts env 0 10 = (t, ops)" by fastforce
  show ?thesis
  proof (cases r)
    case (Some resp)
    with assms r show ?thesis
      by (auto simp: negotiateTransport_def tcp_transport_def close_transport_def udp_pair_def)
  next
    case None
    show ?thesis
    proof (cases t)
      case None
      with \<open>r = None\<close> assms r t udp_attempts_balance [OF t, of x] show ?thesis
        by (auto simp: negotiateTransport_def createUdpTransport_def)
    next
      case (Some t')
      with \<open>r = None\<close> assms r t obtain m where m: "setup_udp U env u t' c1 = Some m" "n_result n = n_result m"
        "n_ops n = ops @ n_ops m"
        by (auto simp: negotiateTransport_def createUdpTransport_def)
      with udp_attempts_balance [OF t, of x] Some show ?thesis
        by (auto simp: setup_udp_def tcp_transport_def close_transport_def udp_pair_def
            split: option.splits sum.splits prod.splits transport_kind.splits)
    qed
  qed
qed

text \<open>
  What the goroutine that watches the context adds: a second close of the RTP socket, when
  the context is done.
\<close>

lemma streamMedia_ops:
  assumes "streamMedia U env t u r c = Some (Some m)"
  shows "m_ops m = [] \<or>
    watcher env \<and> ctx_done (m_conn m) \<and> kind t = UDP \<and> m_ops m = [CloseUdp (clientRtpPort t)]"
proof (cases "kind t")
  case TCP
  with assms show ?thesis by (auto simp: streamMedia_def Let_def split: option.splits prod.splits)
next
  case UDP
  with assms obtain st e where p: "pumpUdp (watcher env) (handle_packet UDP u (cw env)) r (ctx c) (udp_events env) =
      Some (st, Some e)" and m: "udp_streamed env t u c st e = Some m"
    by (auto simp: streamMedia_def split: option.splits)
  have "u_watch_closed st \<Longrightarrow> watcher env \<and> u_ctx st = Some 0"
    using p by (auto simp: pumpUdp_def u_look_def split: option.splits)
  with udp_streamed_conn [OF m] UDP show ?thesis by (auto simp: ctx_done_def u_tick_def)
qed

lemma play_ops:
  assumes "play U env streamURL u session t l c ops = Some (Some r)"
  shows "r_ops r = ops @ close_transport t @ [CloseTcp] \<or>
    watcher env \<and> ctx_done (r_conn r) \<and> kind t = UDP \<and>
    r_ops r = ops @ CloseUdp (clientRtpPort t) # close_transport t @ [CloseTcp]"
proof -
  obtain x c1 where x: "request U (wr env) ''PLAY'' u (''Session'', session) c = Some (x, c1)"
    using assms by (auto simp: play_def split: option.splits)
  show ?thesis
  proof (cases x)
    case (Inl e)
    with assms x show ?thesis by (auto simp: play_def fails_def)
  next
    case (Inr resp)
    with assms x obtain m where m: "streamMedia U env t streamURL (new_relay l) c1 = Some (Some m)"
      "bestEffortTeardown U env u session (m_conn m) = Some (r_conn r)"
      "r_ops r = ops @ m_ops m @ close_transport t @ [CloseTcp]"
      by (auto elim: play_streamed)
    with streamMedia_ops [OF m(1)] teardown_ctx [OF m(2)] show ?thesis by (auto simp: ctx_done_def)
  qed
qed

definition missing_session :: relay_error where
  "missing_session = Msg ''rtsp setup response missing session header''"

text \<open>
  The three ways the sockets of a relay can end: all closed once; the RTP socket closed a
  second time; the UDP pair left open.
\<close>

definition closed_once :: "socket_op list \<Rightarrow> bool" where
  "closed_once ops \<longleftrightarrow> (\<forall>x. balance ops x = 0)"

definition closed_twice :: "int \<Rightarrow> socket_op list \<Rightarrow> bool" where
  "closed_twice p ops \<longleftrightarrow> OpenUdp p \<in> set ops \<and> (\<forall>x. balance ops x = (if x = Some p then - 1 else 0))"

definition left_open :: "int \<Rightarrow> socket_op list \<Rightarrow> bool" where
  "left_open p ops \<longleftrightarrow> (\<forall>x. balance ops x = (if x = Some p \<or> x = Some (p + 1) then 1 else 0))"

lemma setup_balance:
  assumes "relay_setup U env streamURL track c = Some (Some r)"
  shows "closed_once (OpenTcp # r_ops r) \<or>
    watcher env \<and> ctx_done (r_conn r) \<and> (\<exists>p. closed_twice p (OpenTcp # r_ops r)) \<or>
    r_error r = Some missing_session \<and> (\<exists>p. left_open p (OpenTcp # r_ops r))"
proof -
  obtain n where n: "negotiateTransport U env (setupURL track) c = Some n"
    using assms by (auto simp: relay_setup_def split: option.splits)
  note bal = negotiate_balance [OF n]
  show ?thesis
  proof (cases "n_result n")
    case (Inl e)
    with assms n bal show ?thesis by (auto simp: relay_setup_def fails_def closed_once_def)
  next
    case (Inr rt)
    obtain resp t where rt: "rt = (resp, t)" by (cases rt)
    have t: "udp_pair t" "kind t = UDP \<Longrightarrow> OpenUdp (clientRtpPort t) \<in> set (n_ops n)"
      and zero: "\<And>x. balance (n_ops n) x = - balance (close_transport t) x"
      using bal \<open>n_result n = Inr rt\<close> rt by (auto simp: add_eq_0_iff)
    show ?thesis
    proof (cases "parseSessionID resp")
      case (Inr session)
      with assms n \<open>n_result n = Inr rt\<close> rt
      have "play U env streamURL (playURL track) session t (n_logged n) (n_conn n) (n_ops n) = Some (Some r)"
        by (simp add: relay_setup_def)
      from play_ops [OF this] show ?thesis
      proof (elim disjE conjE)
        assume "r_ops r = n_ops n @ close_transport t @ [CloseTcp]"
        with zero have "closed_once (OpenTcp # r_ops r)" by (simp add: closed_once_def)
        then show ?thesis ..
      next
        assume gone: "watcher env" "ctx_done (r_conn r)" "kind t = UDP"
          and ops: "r_ops r = n_ops n @ CloseUdp (clientRtpPort t) # close_transport t @ [CloseTcp]"
        have "closed_twice (clientRtpPort t) (OpenTcp # r_ops r)"
          using t(2) [OF gone(3)] zero by (auto simp: ops closed_twice_def)
        with gone show ?thesis by blast
      qed
    next
      case (Inl e)
      then have e: "e = missing_session"
        by (auto simp: parseSessionID_def missing_session_def Let_def split: if_splits)
      have r: "r_error r = Some e" "r_ops r = n_ops n @ [CloseTcp]"
        using assms n Inl \<open>n_result n = Inr rt\<close> rt by (auto simp: relay_setup_def fails_def)
      show ?thesis
      proof (cases "kind t")
        case TCP
        with zero r show ?thesis by (auto simp: close_transport_def closed_once_def)
      next
        case UDP
        with t(1) zero r have "left_open (clientRtpPort t) (OpenTcp # r_ops r)"
          by (auto simp: close_transport_def udp_pair_def left_open_def)
        with r e show ?thesis by blast
      qed
    qed
  qed
qed

text \<open>
  C38 The sockets of a relay. Whatever the server, the network and the client do, when a relay
  returns every socket it opened has been closed, and exactly once, with two exceptions: when
  the client has gone, the goroutine that watches the context may have closed the RTP socket
  before the relay closes it again; and when the relay fails because the SETUP answer has no
  session header, the pair of UDP sockets it may have reserved stays open.
\<close>

theorem relay_sockets:
  assumes "Relay U env streamURL = Some (Some r)"
  shows "closed_once (r_ops r) \<or>
    watcher env \<and> ctx_done (r_conn r) \<and> (\<exists>p. closed_twice p (r_ops r)) \<or>
    r_error r = Some (Msg ''rtsp setup response missing session header'') \<and> (\<exists>p. left_open p (r_ops r))"
  using assms
proof (cases rule: Relay_cases)
  case (set_up u script d c track r')
  with setup_balance [OF set_up(2)] show ?thesis by (simp add: missing_session_def)
qed (simp_all add: closed_once_def)

end
