(* ===== verification/Rtsp_Witnesses.thy ===== *)
theory Rtsp_Witnesses
  imports Rtsp_Properties Rtsp_Protocol
begin

text \<open>
  Concrete runs of the RTSP client: a relay over TCP from the dial to the TEARDOWN, one that
  leaves its UDP sockets open, and media over both transports.
\<close>

definition willing :: request_net where
  "willing ws w = None"

lemma request_rendered:
  assumes "buffer c = []" and "reads c = (render_response status hs bs, None) # rs"
    and "response_ok U status n hs bs"
  shows "request U willing meth u h c = Some
    (if n < 200 \<or> 300 \<le> n then Inl (StatusError meth n)
     else Inr \<lparr>statusCode = n, headers = header_map hs, body = bs\<rparr>,
     c\<lparr>cseq := cseq c + 1, sent := sent c @ [request_text (cseq c) meth u h], reads := rs\<rparr>)"
proof -
  let ?c = "c\<lparr>cseq := cseq c + 1, sent := sent c @ [request_text (cseq c) meth u h]\<rparr>"
  let ?c' = "?c\<lparr>buffer := render_response status hs bs, reads := rs\<rparr>"
  have "response_unit U (buffer ?c) = None"
    using assms(1) by (simp add: response_unit_def header_end_def of_bytes_def blank_line_def crlf_def)
  from readResponse_wait [OF this] assms(1,2)
  have "readResponse U ?c = readResponse U ?c'" by (simp add: readMore_def)
  also have "\<dots> = Some (Inr \<lparr>statusCode = n, headers = header_map hs, body = bs\<rparr>, ?c'\<lparr>buffer := []\<rparr>)"
    using readResponse_unit [of U ?c'] response_unit_render [OF assms(3), of "[]"] by simp
  finally show ?thesis
    using assms(1) by (simp add: request_def Let_def willing_def)
qed

definition ok_line :: string where
  "ok_line = ''RTSP/1.0 200 OK''"

definition example_sdp :: string where
  "example_sdp = ''m=video 0 RTP/AVP 33'' @ [CHR 0x0A] @ ''a=control:*''"

definition describe_headers :: "(string \<times> string) list" where
  "describe_headers = [(''content-length'', ''32'')]"

definition tcp_headers :: "(string \<times> string) list" where
  "tcp_headers = [(''transport'', ''RTP/AVP/TCP;interleaved=0-1''), (''session'', ''7;timeout=60'')]"

definition udp_headers :: "(string \<times> string) list" where
  "udp_headers = [(''transport'', ''RTP/AVP;unicast;client_port=5000-5001'')]"

definition refuse_line :: string where
  "refuse_line = ''RTSP/1.0 461 Unsupported''"

definition example_url :: url where
  "example_url = empty_url\<lparr>Scheme := ''rtsp'', Host := ''tv'', Path := ''/''\<rparr>"

lemma example_parse: "parse_url ''rtsp://tv/'' = Some example_url"
  by code_simp

lemma example_lines: "line_ok ok_line" "line_ok refuse_line"
  "2 \<le> length (Fields ok_line)" "2 \<le> length (Fields refuse_line)"
  "atoi (Fields ok_line ! 1) = (200, False)" "atoi (Fields refuse_line ! 1) = (461, False)"
  by code_simp+

lemma example_header_ok:
  "list_all (header_ok ascii_only) describe_headers"
  "list_all (header_ok ascii_only) tcp_headers"
  "list_all (header_ok ascii_only) udp_headers"
  by code_simp+

lemma example_lengths:
  "content_length (header_map describe_headers) = 32" "length example_sdp = 32"
  "content_length (header_map tcp_headers) = 0" "content_length (header_map udp_headers) = 0"
  "content_length (header_map []) = 0"
  by code_simp+

lemma example_heads:
  "length (response_head ok_line describe_headers) \<le> 1000"
  "length (response_head ok_line tcp_headers) \<le> 1000"
  "length (response_head ok_line udp_headers) \<le> 1000"
  "length (response_head refuse_line []) \<le> 1000"
  "length (response_head ok_line []) \<le> 1000"
  by code_simp+

lemma example_replies:
  "response_ok ascii_only ok_line 200 describe_headers (to_bytes example_sdp)"
  "response_ok ascii_only ok_line 200 tcp_headers []"
  "response_ok ascii_only ok_line 200 udp_headers []"
  "response_ok ascii_only refuse_line 461 [] []"
  "response_ok ascii_only ok_line 200 [] []"
  using example_heads
  by (simp_all add: response_ok_def example_lines example_header_ok example_lengths max_alloc_def
      del: One_nat_def)

lemma example_track:
  "parseSdpTrack ascii_only example_sdp example_url = Some (Inr \<lparr>setupURL = example_url, playURL = example_url\<rparr>)"
  by code_simp

subsection \<open>Two runs\<close>

definition example_env :: "(byte list \<times> net_error option) list \<Rightarrow> relay_env" where
  "example_env script =
     \<lparr>dial = (\<lambda>tls address name. Inr script), alive = None, wr = willing, cw = patient,
      rtp_port = (\<lambda>a. Some 5000), rtcp_free = (\<lambda>a. True), udp_events = [], watcher = False,
      late_timers = [], late_finish = 0, late_started = 0, late_return = 0\<rparr>"

definition describe_reply :: "byte list" where
  "describe_reply = render_response ok_line describe_headers (to_bytes example_sdp)"

text \<open>A server that streams over TCP: the answers to DESCRIBE, SETUP and PLAY, then the end.\<close>

definition tcp_script :: "(byte list \<times> net_error option) list" where
  "tcp_script = map (\<lambda>b. (b, None))
     [describe_reply, render_response ok_line tcp_headers [], render_response ok_line [] []]"

text \<open>A server that refuses TCP and forgets the session header.\<close>

definition leak_script :: "(byte list \<times> net_error option) list" where
  "leak_script = map (\<lambda>b. (b, None))
     [describe_reply, render_response refuse_line [] [], render_response refuse_line [] [],
      render_response ok_line udp_headers []]"

lemma example_negotiated:
  "parseNegotiatedTransport ascii_only \<lparr>statusCode = 200, headers = header_map tcp_headers, body = []\<rparr> = Inr TCP"
  "parseNegotiatedTransport ascii_only \<lparr>statusCode = 200, headers = header_map udp_headers, body = []\<rparr> = Inr UDP"
  "parseSessionID \<lparr>statusCode = 200, headers = header_map tcp_headers, body = []\<rparr> = Inr ''7''"
  "parseSessionID \<lparr>statusCode = 200, headers = header_map udp_headers, body = []\<rparr> =
     Inl (Msg ''rtsp setup response missing session header'')"
  by code_simp+

lemma example_connect:
  "connectRtspSocket (example_env script) example_url = (Inr script, [OpenTcp])"
  by (simp add: connectRtspSocket_def example_env_def example_url_def empty_url_def Let_def)

lemma example_described:
  assumes "script = (describe_reply, None) # rs"
  shows "Relay ascii_only (example_env script) ''rtsp://tv/'' =
    map_option (map_option (\<lambda>r. r\<lparr>r_ops := OpenTcp # r_ops r\<rparr>))
      (relay_setup ascii_only (example_env script) ''rtsp://tv/''
        \<lparr>setupURL = example_url, playURL = example_url\<rparr>
        \<lparr>buffer = [], cseq = 2, reads = rs, ctx = None,
         sent = [request_text 1 ''DESCRIBE'' example_url (''Accept'', ''application/sdp'')]\<rparr>)"
proof -
  have "request ascii_only willing ''DESCRIBE'' example_url (''Accept'', ''application/sdp'')
      (newRtspConnection script None) = Some
      (Inr \<lparr>statusCode = 200, headers = header_map describe_headers, body = to_bytes example_sdp\<rparr>,
       \<lparr>buffer = [], cseq = 2, reads = rs, ctx = None,
        sent = [request_text 1 ''DESCRIBE'' example_url (''Accept'', ''application/sdp'')]\<rparr>)"
    using request_rendered [OF _ _ example_replies(1), of "newRtspConnection script None" rs] assms
    by (simp add: newRtspConnection_def describe_reply_def)
  moreover have "Scheme example_url = ''rtsp''" by (simp add: example_url_def)
  ultimately show ?thesis
    unfolding Relay_def example_parse Let_def option.case example_connect
    by (simp add: example_track example_env_def)
qed

lemma example_env_simps [simp]:
  "wr (example_env script) = willing" "cw (example_env script) = patient"
  "udp_events (example_env script) = []"
  "udp_attempts (example_env script) 0 10 =
     (Some \<lparr>kind = UDP, clientRtpPort = 5000, clientRtcpPort = 5001\<rparr>, [OpenUdp 5000, OpenUdp 5001])"
  by (simp_all add: example_env_def numeral_eq_Suc)

lemma request_refused:
  assumes "buffer c = []" and "reads c = (render_response refuse_line [] [], None) # rs"
  shows "request ascii_only willing meth u h c = Some (Inl (StatusError meth 461),
     c\<lparr>cseq := cseq c + 1, sent := sent c @ [request_text (cseq c) meth u h], reads := rs\<rparr>)"
  using request_rendered [OF assms example_replies(4)] by simp

lemma example_leak:
  "\<exists>r. Relay ascii_only (example_env leak_script) ''rtsp://tv/'' = Some (Some r) \<and>
     r_ops r = [OpenTcp, OpenUdp 5000, OpenUdp 5001, CloseTcp] \<and>
     r_error r = Some (Msg ''rtsp setup response missing session header'')"
proof -
  let ?env = "example_env leak_script"
  let ?c0 = "\<lparr>buffer = [], cseq = 2, reads = tl leak_script, ctx = None,
      sent = [request_text 1 ''DESCRIBE'' example_url (''Accept'', ''application/sdp'')]\<rparr>"
  have rd: "reads ?c0 = [(render_response refuse_line [] [], None), (render_response refuse_line [] [], None),
      (render_response ok_line udp_headers [], None)]"
    by (simp add: leak_script_def)
  obtain c1 where tcp: "try_tcp ascii_only ?env example_url tcpTransportCandidates ?c0 = Some (None, c1)"
    and c1: "buffer c1 = []" "reads c1 = [(render_response ok_line udp_headers [], None)]"
    using rd by (simp add: tcpTransportCandidates_def request_refused)
  obtain c2 where c2: "setup_udp ascii_only ?env example_url
      \<lparr>kind = UDP, clientRtpPort = 5000, clientRtcpPort = 5001\<rparr> c1 = Some
      \<lparr>n_result = Inr (\<lparr>statusCode = 200, headers = header_map udp_headers, body = []\<rparr>,
         \<lparr>kind = UDP, clientRtpPort = 5000, clientRtcpPort = 5001\<rparr>),
       n_conn = c2, n_ops = [], n_logged = [Negotiated UDP (url_string example_url)]\<rparr>"
    using request_rendered [OF c1 example_replies(3)] by (simp add: setup_udp_def example_negotiated)
  have "relay_setup ascii_only ?env ''rtsp://tv/'' \<lparr>setupURL = example_url, playURL = example_url\<rparr> ?c0 =
      fails (Msg ''rtsp setup response missing session header'') [Negotiated UDP (url_string example_url)] c2
        [OpenUdp 5000, OpenUdp 5001, CloseTcp]"
    by (simp add: relay_setup_def negotiateTransport_def tcp createUdpTransport_def c2 example_negotiated)
  moreover have "leak_script = (describe_reply, None) # tl leak_script" by (simp add: leak_script_def)
  ultimately show ?thesis
    using example_described [of leak_script "tl leak_script"] by (simp add: fails_def)
qed

lemma example_tcp_run:
  "\<exists>r. Relay ascii_only (example_env tcp_script) ''rtsp://tv/'' = Some (Some r) \<and>
     r_ops r = [OpenTcp, CloseTcp] \<and> length (sent (r_conn r)) = 4"
proof -
  let ?env = "example_env tcp_script"
  let ?resp = "\<lparr>statusCode = 200, headers = header_map tcp_headers, body = []\<rparr>"
  let ?c0 = "\<lparr>buffer = [], cseq = 2, reads = tl tcp_script, ctx = None,
      sent = [request_text 1 ''DESCRIBE'' example_url (''Accept'', ''application/sdp'')]\<rparr>"
  have rd: "reads ?c0 = [(render_response ok_line tcp_headers [], None), (render_response ok_line [] [], None)]"
    by (simp add: tcp_script_def)
  obtain c1 where tcp: "try_tcp ascii_only ?env example_url tcpTransportCandidates ?c0 = Some (Some ?resp, c1)"
    and c1: "buffer c1 = []" "reads c1 = [(render_response ok_line [] [], None)]" "ctx c1 = None" "length (sent c1) = 2"
    using rd request_rendered [OF _ _ example_replies(2), of ?c0]
    by (simp add: tcpTransportCandidates_def example_negotiated)
  obtain c2 where play: "request ascii_only willing ''PLAY'' example_url (''Session'', ''7'') c1 =
      Some (Inr \<lparr>statusCode = 200, headers = header_map [], body = []\<rparr>, c2)"
    and c2: "buffer c2 = []" "reads c2 = []" "ctx c2 = None" "length (sent c2) = 3"
    using request_rendered [OF c1(1,2) example_replies(5)] c1 by simp
  have tick: "ctx_tick c2 = c2" "\<not> ctx_done c2" using c2 by (simp_all add: ctx_tick_def ctx_done_def)
  then have "pumpInterleaved ascii_only (handle_packet TCP ''rtsp://tv/'' patient) r c2 = Some (r, Net EOF, c2)" for r
    using c2 by (subst pumpInterleaved.simps) (simp add: interleaved_item_def readMore_def)
  then have stream: "streamMedia ascii_only ?env tcp_transport ''rtsp://tv/'' (new_relay l) c2 =
      Some (Some \<lparr>m_relay = finish_relay (new_relay l), m_started = False, m_error = Some (Net EOF), m_conn = c2,
        m_ops = [], m_late = []\<rparr>)" for l
    using tick by (simp add: streamMedia_def tcp_transport_def stream_end_def finish_relay_def new_relay_def Let_def)
  have down: "\<exists>c4. bestEffortTeardown ascii_only ?env example_url ''7'' c2 = Some c4 \<and> length (sent c4) = 4"
  proof -
    let ?c = "c2\<lparr>cseq := cseq c2 + 1,
      sent := sent c2 @ [request_text (cseq c2) ''TEARDOWN'' example_url (''Session'', ''7'')]\<rparr>"
    have "response_unit ascii_only (buffer ?c) = None"
      using c2 by (simp add: response_unit_def header_end_def of_bytes_def blank_line_def crlf_def)
    from readResponse_wait [OF this] have "readResponse ascii_only ?c = Some (Inl (Net EOF), ?c)"
      using c2 by (simp add: readMore_def)
    then show ?thesis using c2 by (simp add: bestEffortTeardown_def request_def Let_def willing_def)
  qed
  then obtain c4 where c4: "bestEffortTeardown ascii_only ?env example_url ''7'' c2 = Some c4" "length (sent c4) = 4"
    by blast
  let ?l = "[Negotiated TCP (url_string example_url)]"
  have "relay_setup ascii_only ?env ''rtsp://tv/'' \<lparr>setupURL = example_url, playURL = example_url\<rparr> ?c0 =
      Some (Some \<lparr>r_error = Some (Net EOF), r_relay = finish_relay (new_relay ?l),
        r_conn = c4, r_ops = [CloseTcp], r_during = [], r_late = []\<rparr>)"
    using stream [of ?l] play c4
    by (simp add: relay_setup_def negotiateTransport_def tcp example_negotiated play_def stream_done_def Let_def
        late_deliver_def tcp_transport_def close_transport_def)
  moreover have "tcp_script = (describe_reply, None) # tl tcp_script" by (simp add: tcp_script_def)
  ultimately show ?thesis
    using example_described [of tcp_script "tl tcp_script"] c4(2) by simp
qed

theorem relay_sockets_witness:
  "\<exists>r. Relay ascii_only (example_env leak_script) ''rtsp://tv/'' = Some (Some r) \<and>
     \<not> closed_once (r_ops r) \<and> (\<exists>p. left_open p (r_ops r))"
proof -
  obtain r where r: "Relay ascii_only (example_env leak_script) ''rtsp://tv/'' = Some (Some r)"
    "r_ops r = [OpenTcp, OpenUdp 5000, OpenUdp 5001, CloseTcp]"
    using example_leak by blast
  then have "balance (r_ops r) (Some 5000) = 1" by simp
  then have "\<not> closed_once (r_ops r)" by (metis closed_once_def zero_neq_one)
  moreover have "\<not> watcher (example_env leak_script)" by (simp add: example_env_def)
  ultimately show ?thesis using relay_sockets [OF r(1)] r(1) by blast
qed

theorem relay_dialogue_witness:
  "\<exists>r. Relay ascii_only (example_env tcp_script) ''rtsp://tv/'' = Some (Some r) \<and>
     (\<exists>d k p q. d \<le> 1 \<and> k \<le> 3 \<and> p \<le> 1 \<and> q \<le> p \<and> (0 < k \<longrightarrow> 0 < d) \<and> (0 < p \<longrightarrow> 0 < k) \<and>
        d + k + p + q = 4 \<and>
        map method_of (sent (r_conn r)) = replicate d ''DESCRIBE'' @ replicate k ''SETUP'' @
          replicate p ''PLAY'' @ replicate q ''TEARDOWN'')"
proof -
  obtain r where r: "Relay ascii_only (example_env tcp_script) ''rtsp://tv/'' = Some (Some r)"
    "length (sent (r_conn r)) = 4"
    using example_tcp_run by blast
  from relay_dialogue [OF r(1)] obtain d k p q where
    b: "d \<le> 1" "k \<le> 3" "p \<le> 1" "q \<le> p" "0 < k \<longrightarrow> 0 < d" "0 < p \<longrightarrow> 0 < k"
    and m: "map method_of (sent (r_conn r)) = replicate d ''DESCRIBE'' @ replicate k ''SETUP'' @
       replicate p ''PLAY'' @ replicate q ''TEARDOWN''" by blast
  from m have "length (map method_of (sent (r_conn r))) = d + k + p + q" by (simp only: length_append length_replicate)
  then have n: "d + k + p + q = 4" using r(2) by simp
  show ?thesis using r(1) b m n by blast
qed

subsection \<open>Streams\<close>

definition example_rtp :: "byte \<Rightarrow> byte list" where
  "example_rtp n = [0x80, 33, 0, n, 0, 0, 0, 0, 0, 0, 0, 0, 0x47, n]"

lemma example_rtp_media: "depacketizeRtpPayload (example_rtp n) = Some (Inr [0x47, n])"
  by (simp add: example_rtp_def depacketizeRtpPayload_def index_def rtp_skip_extension_def rtp_body_def
      slice_def rtpVersion_def Let_def)

lemma example_rtp_facts:
  "well_formed (example_rtp n)" "length (example_rtp n) = 14"
  "chunks_of [example_rtp m, example_rtp n] = [[0x47, m], [0x47, n]]"
  "seqOf (example_rtp n) = be16 0 n"
  using example_rtp_media
  by (auto simp: well_formed_def chunks_of_def media_of_def seqOf_def) (simp_all add: example_rtp_def)

definition example_frames :: "(byte \<times> byte list) list" where
  "example_frames = [(0, example_rtp 1), (1, [0, 0]), (0, example_rtp 2)]"

theorem tcp_stream_delivered_witness:
  "\<exists>m. streamMedia ascii_only (example_env []) tcp_transport ''rtsp://tv/'' (new_relay [])
      \<lparr>buffer = [], cseq = 4, reads = [(concat (map frame_bytes example_frames), None)], ctx = None, sent = []\<rparr> =
      Some (Some m) \<and> m_started m \<and> m_error m = None \<and> written (m_relay m) = [[0x47, 1], [0x47, 2]] \<and>
      m_late m = []"
proof -
  have p: "packets_of example_frames = [example_rtp 1, example_rtp 2]"
    by (simp add: packets_of_def example_frames_def)
  have len: "list_all (\<lambda>g. length (snd g) < 65536) example_frames"
    by (simp add: example_frames_def example_rtp_facts)
  show ?thesis
    using tcp_stream_delivered [of "\<lparr>buffer = [], cseq = 4,
        reads = [(concat (map frame_bytes example_frames), None)], ctx = None, sent = []\<rparr>"
        "[concat (map frame_bytes example_frames)]" example_frames "example_env []" ascii_only "''rtsp://tv/''" "[]"] len
    by (simp add: p example_rtp_facts)
qed

theorem udp_stream_in_order_witness:
  "\<exists>st qs. pumpUdp True (handle_packet UDP ''rtsp://tv/'' patient) (new_relay []) None
      (map Datagram [example_rtp 1, example_rtp 3, example_rtp 2] @ [ReadError NetTimeout]) = Some (st, Some None) \<and>
    mset qs = mset [example_rtp 1, example_rtp 3, example_rtp 2] \<and>
    map seqOf qs = map (\<lambda>i. seqOf (example_rtp 1) + of_nat i) [0..<3] \<and>
    written (u_state st) = chunks_of qs"
proof (rule udp_stream_in_order)
  show "\<forall>q\<in>set [example_rtp 1, example_rtp 3, example_rtp 2]. 4 \<le> length q \<and> length q \<le> 2048 \<and> well_formed q"
    by (simp add: example_rtp_facts)
  have "{0..<3} = {0, 1, 2 :: nat}" by auto
  then show "seqOf ` set [example_rtp 1, example_rtp 3, example_rtp 2] =
      (\<lambda>i. seqOf (example_rtp 1) + of_nat i) ` {0..<3}"
    by (simp add: example_rtp_facts be16_def) auto
qed simp_all

text \<open>
  Media after the pump. The first packet of a stream has no payload and the third arrives without
  the second; the flush timer expires, and before its callback has run the read fails. The relay
  returns the error, the media not having started, and the callback then emits the third packet.
\<close>

definition late_env :: relay_env where
  "late_env = (example_env [])\<lparr>udp_events :=
     [Datagram (take 12 (example_rtp 1)), Datagram (example_rtp 3), TimerExpire 0, ReadError NetClosed],
     late_timers := [Runs 0]\<rparr>"

lemma media_after_error:
  "map_option (map_option (\<lambda>m. (m_started m, m_error m, m_late m)))
     (streamMedia ascii_only late_env \<lparr>kind = UDP, clientRtpPort = 5000, clientRtcpPort = 5001\<rparr> ''rtsp://tv/''
       (new_relay []) (newRtspConnection [] None)) =
   Some (Some (False, Some (Net NetClosed), [example_rtp 3]))"
  by code_simp

text \<open>The goroutine that watches the context closes the RTP socket before the relay does.\<close>

lemma socket_closed_twice:
  "map_option (map_option m_ops)
     (streamMedia ascii_only ((example_env [])\<lparr>udp_events := [ReadError NetClosed], watcher := True\<rparr>)
       \<lparr>kind = UDP, clientRtpPort = 5000, clientRtcpPort = 5001\<rparr> ''rtsp://tv/''
       (new_relay []) (newRtspConnection [] (Some 1))) =
   Some (Some [CloseUdp 5000])"
  by code_simp

theorem interleaved_chunking_witness:
  "map_option (\<lambda>(s, e, _). (s, e))
      (pumpInterleaved ascii_only (\<lambda>n p. Some (n + length p, None)) (0 :: nat)
        (newRtspConnection (map (\<lambda>b. (b, None)) [[0x24, 0], [0, 1, 7]]) None)) =
   map_option (\<lambda>(s, e, _). (s, e))
      (pumpInterleaved ascii_only (\<lambda>n p. Some (n + length p, None)) (0 :: nat)
        (newRtspConnection [([0x24, 0, 0, 1, 7], None)] None))"
  using interleaved_chunking [of "newRtspConnection [] None" ascii_only "\<lambda>n p. Some (n + length p, None)"
      "0 :: nat" "[[0x24, 0], [0, 1, 7]]"]
  by (simp add: newRtspConnection_def)

theorem readResponse_roundtrip_witness:
  "\<exists>c' left. readResponse ascii_only
      \<lparr>buffer = [], cseq = 1, reads = [(render_response ok_line tcp_headers [] @ [0x24], None)], ctx = None, sent = []\<rparr> =
      Some (Inr \<lparr>statusCode = 200, headers = header_map tcp_headers, body = []\<rparr>, c') \<and>
    reads c' = map (\<lambda>b. (b, None)) left \<and> buffer c' @ concat left = [0x24]"
  by (rule readResponse_roundtrip [OF example_replies(2), where chunks = "[render_response ok_line tcp_headers [] @ [0x24]]"])
    simp_all

theorem negative_content_length_panics_witness:
  "readResponse ascii_only
     \<lparr>buffer = render_response ok_line [(''content-length'', ''-1'')] [], cseq = 1, reads = [], ctx = None, sent = []\<rparr> = None"
proof (rule negative_content_length_panics [where status = ok_line and rest = "[]"])
  show "list_all (header_ok ascii_only) [(''content-length'', ''-1'')]" by code_simp
  have c: "content_length (header_map [(''content-length'', ''-1'')]) = -1" by code_simp
  show "content_length (header_map [(''content-length'', ''-1'')]) < 0" by (simp add: c)
  show "- (2 ^ 62) \<le> content_length (header_map [(''content-length'', ''-1'')])" by (simp add: c)
  have "length (response_head ok_line [(''content-length'', ''-1'')]) \<le> 1000" by code_simp
  then show "int (length (response_head ok_line [(''content-length'', ''-1'')])) \<le> max_alloc"
    by (simp add: max_alloc_def)
qed (rule example_lines | simp)+

end
