(* ===== verification/Go_Json.thy ===== *)
theory Go_Json
  imports Net_Url Go_Utf8
begin

text \<open>
  The part of \<open>encoding/json\<close> the program uses: the compact encoding of strings, integers,
  lists and objects, with the escaping of HTML characters \<open>Marshal\<close> and \<open>Encoder\<close> do by
  default. A reader of JSON texts, the specification, gets back what was encoded.
\<close>

subsection \<open>Strings\<close>

text \<open>What is written for a rune of width \<open>n\<close> whose bytes are \<open>bs\<close>.\<close>

definition json_rune :: "nat \<Rightarrow> nat \<Rightarrow> string \<Rightarrow> string" where
  "json_rune r n bs =
     (if r = 92 \<or> r = 34 then CHR 0x5C # bs
      else if r = 8 then [CHR 0x5C, CHR ''b'']
      else if r = 12 then [CHR 0x5C, CHR ''f'']
      else if r = 10 then [CHR 0x5C, CHR ''n'']
      else if r = 13 then [CHR 0x5C, CHR ''r'']
      else if r = 9 then [CHR 0x5C, CHR ''t'']
      else if r < 0x20 \<or> r = 60 \<or> r = 62 \<or> r = 38 then
        [CHR 0x5C, CHR ''u'', CHR ''0'', CHR ''0'', hex_lower (r div 16), hex_lower (r mod 16)]
      else if r = rune_error \<and> n = 1 then CHR 0x5C # ''ufffd''
      else if r = 0x2028 \<or> r = 0x2029 then CHR 0x5C # ''u202'' @ [hex_lower (r mod 16)]
      else bs)"

function json_escape :: "string \<Rightarrow> string" where
  "json_escape s =
     (if s = [] then []
      else let (r, n) = decode_rune s in json_rune r n (take n s) @ json_escape (drop n s))"
  by pat_completeness auto
termination
proof (relation "measure length")
  fix s :: string and x and r n :: nat
  assume "s \<noteq> []" "x = decode_rune s" "(r, n) = x"
  then show "(drop n s, s) \<in> measure length"
    using decode_rune_width [of s] by (cases "decode_rune s") auto
qed simp

declare json_escape.simps [simp del]

definition json_string :: "string \<Rightarrow> string" where
  "json_string s = CHR 0x22 # json_escape s @ [CHR 0x22]"

subsection \<open>Documents\<close>

datatype json = JNull | JString string | JInt int | JList "json list" | JObject "(string \<times> json) list"

fun encode_json :: "json \<Rightarrow> string" where
  "encode_json JNull = ''null''"
| "encode_json (JString s) = json_string s"
| "encode_json (JInt i) = itoa i"
| "encode_json (JList vs) = ''['' @ join '','' (map encode_json vs) @ '']''"
| "encode_json (JObject ms) =
     ''{'' @ join '','' (map (\<lambda>(k, v). json_string k @ '':'' @ encode_json v) ms) @ ''}''"

subsection \<open>A reader\<close>

definition escapes :: "(char \<times> char) list" where
  "escapes = [(CHR 0x22, CHR 0x22), (CHR 0x5C, CHR 0x5C), (CHR ''b'', CHR 0x08), (CHR ''f'', CHR 0x0C),
     (CHR ''n'', CHR 0x0A), (CHR ''r'', CHR 0x0D), (CHR ''t'', CHR 0x09)]"

definition hex4 :: "string \<Rightarrow> nat" where
  "hex4 s = foldl (\<lambda>n c. 16 * n + unhex c) 0 s"

definition put :: "string \<Rightarrow> (string \<times> string) option \<Rightarrow> (string \<times> string) option" where
  "put p r = map_option (\<lambda>(s, rest). (p @ s, rest)) r"

text \<open>From behind an opening quote: the text and what follows the closing quote.\<close>

function unquote :: "string \<Rightarrow> (string \<times> string) option" where
  "unquote [] = None"
| "unquote (c # s) =
     (if c = CHR 0x22 then Some ([], s)
      else if c = CHR 0x5C then
        (case s of
           [] \<Rightarrow> None
         | d # t \<Rightarrow>
             if d = CHR ''u'' then
               (if 4 \<le> length t \<and> list_all is_hex (take 4 t)
                then put (encode_rune (hex4 (take 4 t))) (unquote (drop 4 t)) else None)
             else case map_of escapes d of None \<Rightarrow> None | Some e \<Rightarrow> put [e] (unquote t))
      else put [c] (unquote s))"
  by pat_completeness auto
termination
  by (relation "measure length") auto

declare unquote.simps(2) [simp del]

text \<open>Texts of valid UTF-8.\<close>

function valid_utf8 :: "string \<Rightarrow> bool" where
  "valid_utf8 s =
     (if s = [] then True
      else let (r, n) = decode_rune s
           in if r = rune_error \<and> n = 1 then False else valid_utf8 (drop n s))"
  by pat_completeness auto
termination
proof (relation "measure length")
  fix s :: string and x and r n :: nat
  assume "s \<noteq> []" "x = decode_rune s" "(r, n) = x"
  then show "(drop n s, s) \<in> measure length"
    using decode_rune_width [of s] by (cases "decode_rune s") auto
qed simp

declare valid_utf8.simps [simp del]

lemma put_put [simp]: "put p (put q r) = put (p @ q) r"
  by (cases r) (auto simp: put_def)

lemma unquote_plain: "c \<noteq> CHR 0x22 \<Longrightarrow> c \<noteq> CHR 0x5C \<Longrightarrow> unquote (c # s) = put [c] (unquote s)"
  by (simp add: unquote.simps(2))

lemma unquote_bytes:
  "CHR 0x22 \<notin> set bs \<Longrightarrow> CHR 0x5C \<notin> set bs \<Longrightarrow> unquote (bs @ x) = put bs (unquote x)"
proof (induction bs)
  case Nil
  then show ?case by (cases "unquote x") (auto simp: put_def)
next
  case (Cons c bs)
  then have "c \<noteq> CHR 0x22" "c \<noteq> CHR 0x5C" by auto
  with Cons show ?case by (simp add: unquote_plain)
qed

lemma unquote_escape:
  "map_of escapes d = Some e \<Longrightarrow> unquote (CHR 0x5C # d # x) = put [e] (unquote x)"
  by (simp add: unquote.simps(2)) (auto simp: escapes_def split: if_splits)

lemma unquote_unicode:
  "length h = 4 \<Longrightarrow> list_all is_hex h \<Longrightarrow>
   unquote (CHR 0x5C # CHR ''u'' # h @ x) = put (encode_rune (hex4 h)) (unquote x)"
  by (simp add: unquote.simps(2))

lemma hex_lower_digits: "\<forall>h \<in> set [0..<16]. is_hex (hex_lower h) \<and> unhex (hex_lower h) = h"
  by code_simp

lemma hex_lower: "h < 16 \<Longrightarrow> is_hex (hex_lower h) \<and> unhex (hex_lower h) = h"
  using hex_lower_digits by simp

lemma code_small: "code c < 256"
  by (simp add: code_def)

lemma escape_codes:
  "code c = 34 \<longleftrightarrow> c = CHR 0x22" "code c = 92 \<longleftrightarrow> c = CHR 0x5C" "code c = 8 \<longleftrightarrow> c = CHR 0x08"
  "code c = 12 \<longleftrightarrow> c = CHR 0x0C" "code c = 10 \<longleftrightarrow> c = CHR 0x0A" "code c = 13 \<longleftrightarrow> c = CHR 0x0D"
  "code c = 9 \<longleftrightarrow> c = CHR 0x09"
  by (subst code_inject [symmetric], simp add: code_def)+

lemma encode_ascii: "code c < 128 \<Longrightarrow> encode_rune (code c) = [c]"
  by (simp add: encode_rune_def) (simp add: code_def)

lemma unquote_ascii:
  assumes "code c < 128"
  shows "unquote (json_rune (code c) 1 [c] @ x) = put [c] (unquote x)"
proof -
  have plain: "\<not> (code c = rune_error \<and> (1::nat) = 1)" "code c \<noteq> 0x2028" "code c \<noteq> 0x2029"
    using assms by (simp_all add: rune_error_def)
  have "(\<exists>d. json_rune (code c) 1 [c] = [CHR 0x5C, d] \<and> map_of escapes d = Some c) \<or>
      json_rune (code c) 1 [c] =
        CHR 0x5C # CHR ''u'' # [CHR ''0'', CHR ''0'', hex_lower (code c div 16), hex_lower (code c mod 16)] \<or>
      (json_rune (code c) 1 [c] = [c] \<and> c \<noteq> CHR 0x22 \<and> c \<noteq> CHR 0x5C)"
    using plain unfolding json_rune_def escape_codes by (simp add: escapes_def)
  then consider (simple) d where "json_rune (code c) 1 [c] = [CHR 0x5C, d]" "map_of escapes d = Some c"
    | (hex) "json_rune (code c) 1 [c] =
        CHR 0x5C # CHR ''u'' # [CHR ''0'', CHR ''0'', hex_lower (code c div 16), hex_lower (code c mod 16)]"
    | (same) "json_rune (code c) 1 [c] = [c]" "c \<noteq> CHR 0x22" "c \<noteq> CHR 0x5C"
    by blast
  then show ?thesis
  proof cases
    case simple
    then show ?thesis using unquote_escape [of d c x] by simp
  next
    case hex
    let ?h = "[CHR ''0'', CHR ''0'', hex_lower (code c div 16), hex_lower (code c mod 16)]"
    have d: "code c div 16 < 16" "code c mod 16 < 16"
      by (rule less_mult_imp_div_less, simp_all)
    have "list_all is_hex ?h" using hex_lower [OF d(1)] hex_lower [OF d(2)] by (simp add: is_hex_def is_digit_def code_def)
    moreover have "hex4 ?h = code c"
      using hex_lower [OF d(1)] hex_lower [OF d(2)] by (simp add: hex4_def unhex_def is_digit_def code_def)
    ultimately show ?thesis
      using unquote_unicode [of ?h x] encode_ascii [OF assms] unfolding hex by simp
  next
    case same
    then show ?thesis by (simp add: unquote_plain)
  qed
qed

lemma unquote_rune:
  assumes "decode_rune s = (r, n)" and "s \<noteq> []" and "\<not> (r = rune_error \<and> n = 1)"
  shows "unquote (json_rune r n (take n s) @ x) = put (take n s) (unquote x)"
proof -
  obtain c t where s: "s = c # t" using assms(2) by (cases s) auto
  show ?thesis
  proof (cases "n = 1")
    case True
    then have "decode_rune (c # t) = (r, 1)" using assms(1) s by simp
    then have r: "r = code c" "r \<noteq> rune_error" using narrow_rune True assms(3) by auto
    have "code c < 128"
    proof (rule ccontr)
      assume "\<not> code c < 128"
      with assms(1) True have "r = rune_error"
        unfolding s by (auto simp: decode_rune_def Let_def dest: lead_byte_len split: option.splits prod.splits if_splits)
      with r show False by simp
    qed
    then show ?thesis using unquote_ascii True r(1) by (simp add: s)
  next
    case False
    note wide = wide_rune [OF assms(1) False assms(2)]
    then have plain: "CHR 0x22 \<notin> set (take n s)" "CHR 0x5C \<notin> set (take n s)"
      by (auto simp: list_all_iff code_def)
    show ?thesis
    proof (cases "r = 0x2028 \<or> r = 0x2029")
      case True
      have "json_rune r n (take n s) = CHR 0x5C # CHR ''u'' # (''202'' @ [hex_lower (r mod 16)])"
        using True by (auto simp: json_rune_def rune_error_def)
      moreover have "list_all is_hex (''202'' @ [hex_lower (r mod 16)])" "hex4 (''202'' @ [hex_lower (r mod 16)]) = r"
        using True hex_lower [of 8] hex_lower [of 9]
        by (auto simp: hex4_def is_hex_def unhex_def is_digit_def code_def)
      ultimately show ?thesis
        using unquote_unicode [of "''202'' @ [hex_lower (r mod 16)]" x] wide by simp
    next
      case False
      then have "json_rune r n (take n s) = take n s" using wide \<open>n \<noteq> 1\<close> by (simp add: json_rune_def)
      then show ?thesis using unquote_bytes [OF plain] by simp
    qed
  qed
qed

lemma unquote_json_escape:
  "valid_utf8 s \<Longrightarrow> unquote (json_escape s @ CHR 0x22 # x) = Some (s, x)"
proof (induction s rule: json_escape.induct)
  case (1 s)
  show ?case
  proof (cases "s = []")
    case True
    then show ?thesis by (simp add: json_escape.simps unquote.simps(2))
  next
    case False
    obtain r n where d: "decode_rune s = (r, n)" by fastforce
    with False 1(2) have ok: "\<not> (r = rune_error \<and> n = 1)" "valid_utf8 (drop n s)"
      by (subst (asm) valid_utf8.simps, auto split: if_splits)+
    have "unquote (json_escape s @ CHR 0x22 # x) =
        put (take n s) (unquote (json_escape (drop n s) @ CHR 0x22 # x))"
      using False d unquote_rune [OF d False ok(1)] by (subst json_escape.simps) simp
    also have "\<dots> = Some (s, x)"
      using 1(1) [OF False _ _ ok(2)] d by (simp add: put_def)
    finally show ?thesis .
  qed
qed

subsection \<open>Reading documents\<close>

text \<open>
  A reader for compact documents: every recursive call spends one unit of fuel, and as many
  units as the document has characters are enough.
\<close>

definition read_int :: "string \<Rightarrow> (int \<times> string) option" where
  "read_int s =
     (let neg = (s \<noteq> [] \<and> hd s = CHR ''-'');
          t = (if neg then tl s else s);
          ds = takeWhile is_digit t
      in if ds = [] then None
         else Some ((if neg then - int (decimal ds) else int (decimal ds)), dropWhile is_digit t))"

fun read_json :: "nat \<Rightarrow> string \<Rightarrow> (json \<times> string) option"
  and read_list :: "nat \<Rightarrow> string \<Rightarrow> (json list \<times> string) option"
  and read_members :: "nat \<Rightarrow> string \<Rightarrow> ((string \<times> json) list \<times> string) option" where
  "read_json 0 s = None"
| "read_json (Suc k) s =
     (if has_prefix ''null'' s then Some (JNull, drop 4 s)
      else case s of
        [] \<Rightarrow> None
      | c # r \<Rightarrow>
          if c = CHR 0x22 then map_option (\<lambda>(x, t). (JString x, t)) (unquote r)
          else if c = CHR ''['' then
            (if has_prefix '']'' r then Some (JList [], tl r)
             else map_option (\<lambda>(vs, t). (JList vs, t)) (read_list k r))
          else if c = CHR ''{'' then
            (if has_prefix ''}'' r then Some (JObject [], tl r)
             else map_option (\<lambda>(ms, t). (JObject ms, t)) (read_members k r))
          else map_option (\<lambda>(i, t). (JInt i, t)) (read_int s))"
| "read_list 0 s = None"
| "read_list (Suc k) s =
     (case read_json k s of
        None \<Rightarrow> None
      | Some (v, t) \<Rightarrow>
          if has_prefix '','' t then map_option (\<lambda>(vs, u). (v # vs, u)) (read_list k (tl t))
          else if has_prefix '']'' t then Some ([v], tl t) else None)"
| "read_members 0 s = None"
| "read_members (Suc k) s =
     (if \<not> has_prefix [CHR 0x22] s then None
      else case unquote (tl s) of
        None \<Rightarrow> None
      | Some (key, t) \<Rightarrow>
          if \<not> has_prefix '':'' t then None
          else (case read_json k (tl t) of
                  None \<Rightarrow> None
                | Some (v, u) \<Rightarrow>
                    if has_prefix '','' u then map_option (\<lambda>(ms, w). ((key, v) # ms, w)) (read_members k (tl u))
                    else if has_prefix ''}'' u then Some ([(key, v)], tl u) else None))"

text \<open>The documents whose texts are UTF-8.\<close>

fun json_ok :: "json \<Rightarrow> bool" where
  "json_ok (JString s) = valid_utf8 s"
| "json_ok (JList vs) = (\<forall>v \<in> set vs. json_ok v)"
| "json_ok (JObject ms) = (\<forall>(k, v) \<in> set ms. valid_utf8 k \<and> json_ok v)"
| "json_ok _ = True"

subsection \<open>Round trip\<close>

definition no_digit :: "string \<Rightarrow> bool" where
  "no_digit s \<longleftrightarrow> s = [] \<or> \<not> is_digit (hd s)"

lemma read_int_itoa:
  assumes "no_digit rest"
  shows "read_int (itoa i @ rest) = Some (i, rest)"
proof -
  have d: "takeWhile is_digit (itoa_nat n @ rest) = itoa_nat n" "dropWhile is_digit (itoa_nat n @ rest) = rest" for n
    using itoa_nat_digits [of n] assms
    by (auto simp: takeWhile_append dropWhile_append list_all_iff no_digit_def takeWhile_eq_Nil_iff
        dropWhile_eq_self_iff)
  have "hd (itoa_nat n @ rest) \<noteq> CHR ''-''" for n
    using itoa_nat_digits [of n] itoa_nat_nonempty [of n] is_digit_not_sign
    by (cases "itoa_nat n") auto
  then show ?thesis
    using d itoa_nat_nonempty by (simp add: read_int_def itoa_def Let_def decimal_itoa_nat)
qed

lemma itoa_head: "\<exists>c t. itoa i = c # t \<and> (is_digit c \<or> c = CHR ''-'')"
  using itoa_nat_digits [of "nat i"] itoa_nat_nonempty [of "nat i"]
  by (cases "itoa_nat (nat i)") (auto simp: itoa_def)

lemma encode_json_head:
  "\<exists>c t. encode_json v = c # t \<and> (c \<in> {CHR ''n'', CHR 0x22, CHR ''['', CHR ''{'', CHR ''-''} \<or> is_digit c)"
proof (cases v)
  case (JInt i)
  then show ?thesis using itoa_head [of i] by auto
qed (simp_all add: json_string_def)

lemma encode_json_no_close:
  "\<not> has_prefix '']'' (encode_json v @ x)" "\<not> has_prefix ''}'' (encode_json v @ x)"
  using encode_json_head [of v] by (auto simp: has_prefix_Cons is_digit_def code_def)

lemma join_head: "vs \<noteq> [] \<Longrightarrow> \<exists>y. join s vs @ x = hd vs @ y"
  by (cases vs; cases "tl vs") auto

text \<open>One element or member at a time.\<close>

lemma read_list_encoded:
  assumes "\<And>v k x. v \<in> set vs \<Longrightarrow> no_digit x \<Longrightarrow> length (encode_json v) \<le> k \<Longrightarrow>
      read_json k (encode_json v @ x) = Some (v, x)"
    and "vs \<noteq> []" and "length (join '','' (map encode_json vs)) + 1 \<le> k"
  shows "read_list k (join '','' (map encode_json vs) @ '']'' @ rest) = Some (vs, rest)"
  using assms
proof (induction vs arbitrary: k)
  case (Cons v vs)
  then obtain j where k: "k = Suc j" by (cases k) auto
  have sep: "no_digit ('','' @ y)" "no_digit ('']'' @ y)" for y
    by (simp_all add: no_digit_def is_digit_def code_def)
  show ?case
  proof (cases "vs = []")
    case True
    with Cons.prems k sep(2) [of rest] show ?thesis by (simp add: has_prefix_Cons)
  next
    case False
    then have split: "join '','' (map encode_json (v # vs)) @ '']'' @ rest =
        encode_json v @ '','' @ join '','' (map encode_json vs) @ '']'' @ rest"
      by (cases vs) simp_all
    have "length (join '','' (map encode_json (v # vs))) =
        length (encode_json v) + 1 + length (join '','' (map encode_json vs))"
      using False by (cases vs) simp_all
    then have "length (encode_json v) \<le> j" "length (join '','' (map encode_json vs)) + 1 \<le> j"
      using Cons.prems(3) k by simp_all
    then show ?thesis
      unfolding split k using Cons.prems(1) Cons.IH [of j] False
        sep(1) [of "join '','' (map encode_json vs) @ '']'' @ rest"]
      by (simp add: has_prefix_Cons)
  qed
qed simp

definition encode_member :: "string \<times> json \<Rightarrow> string" where
  "encode_member = (\<lambda>(k, v). json_string k @ '':'' @ encode_json v)"

lemma read_member:
  assumes "valid_utf8 key" and "read_json j (encode_json v @ x) = Some (v, x)"
  shows "read_members (Suc j) (encode_member (key, v) @ x) =
    (if has_prefix '','' x then map_option (\<lambda>(ms, w). ((key, v) # ms, w)) (read_members j (tl x))
     else if has_prefix ''}'' x then Some ([(key, v)], tl x) else None)"
  using assms unquote_json_escape [OF assms(1), of "'':'' @ encode_json v @ x"]
  by (simp add: encode_member_def json_string_def has_prefix_Cons)

lemma read_members_encoded:
  assumes "\<And>key v k x. (key, v) \<in> set ms \<Longrightarrow> no_digit x \<Longrightarrow> length (encode_json v) \<le> k \<Longrightarrow>
      read_json k (encode_json v @ x) = Some (v, x)"
    and "\<And>key v. (key, v) \<in> set ms \<Longrightarrow> valid_utf8 key"
    and "ms \<noteq> []" and "length (join '','' (map encode_member ms)) + 1 \<le> k"
  shows "read_members k (join '','' (map encode_member ms) @ ''}'' @ rest) = Some (ms, rest)"
  using assms
proof (induction ms arbitrary: k)
  case (Cons m ms)
  then obtain j where k: "k = Suc j" by (cases k) auto
  obtain key v where m: "m = (key, v)" by (cases m)
  have utf8: "valid_utf8 key" using Cons.prems(2) [of key v] m by simp
  have sep: "no_digit ('','' @ y)" "no_digit (''}'' @ y)" for y
    by (simp_all add: no_digit_def is_digit_def code_def)
  have short: "length (encode_json v) \<le> length (encode_member m)" by (simp add: m encode_member_def)
  show ?case
  proof (cases "ms = []")
    case True
    with Cons.prems(4) short k have "read_json j (encode_json v @ ''}'' @ rest) = Some (v, ''}'' @ rest)"
      using sep(2) [of rest] by (intro Cons.prems(1) [of key]) (simp_all add: m)
    from read_member [OF utf8 this] True show ?thesis by (simp add: k m has_prefix_Cons)
  next
    case False
    let ?y = "join '','' (map encode_member ms) @ ''}'' @ rest"
    have split: "join '','' (map encode_member (m # ms)) @ ''}'' @ rest = encode_member m @ '','' @ ?y"
      using False by (cases ms) simp_all
    have "length (join '','' (map encode_member (m # ms))) =
        length (encode_member m) + 1 + length (join '','' (map encode_member ms))"
      using False by (cases ms) simp_all
    then have len: "length (encode_json v) \<le> j" "length (join '','' (map encode_member ms)) + 1 \<le> j"
      using Cons.prems(4) k short by simp_all
    then have "read_json j (encode_json v @ '','' @ ?y) = Some (v, '','' @ ?y)"
      using sep(1) [of ?y] by (intro Cons.prems(1) [of key]) (simp_all add: m)
    from read_member [OF utf8 this] have "read_members k (encode_member m @ '','' @ ?y) =
        map_option (\<lambda>(ms, w). (m # ms, w)) (read_members j ?y)"
      by (simp add: k m has_prefix_Cons)
    moreover have "read_members j ?y = Some (ms, rest)"
    proof (rule Cons.IH)
      show "read_json i (encode_json u @ z) = Some (u, z)"
        if "(h, u) \<in> set ms" "no_digit z" "length (encode_json u) \<le> i" for h u i z
        using that by (intro Cons.prems(1) [of h]) simp_all
      show "valid_utf8 h" if "(h, u) \<in> set ms" for h u
        using that by (intro Cons.prems(2) [of h u]) simp
    qed (use False len in simp_all)
    ultimately show ?thesis unfolding split by simp
  qed
qed simp

lemma read_encode_json:
  "json_ok v \<Longrightarrow> no_digit x \<Longrightarrow> length (encode_json v) \<le> k \<Longrightarrow>
   read_json k (encode_json v @ x) = Some (v, x)"
proof (induction v arbitrary: k x rule: encode_json.induct)
  case 1
  then show ?case by (cases k) (simp_all add: has_prefix_Cons)
next
  case (2 s)
  then show ?case
    using unquote_json_escape [of s x]
    by (cases k) (simp_all add: json_string_def has_prefix_Cons)
next
  case (3 i)
  obtain c t where i: "itoa i = c # t" "is_digit c \<or> c = CHR ''-''" using itoa_head by blast
  then have "\<not> has_prefix ''null'' (c # t @ x)" "c \<noteq> CHR 0x22" "c \<noteq> CHR ''[''" "c \<noteq> CHR ''{''"
    by (auto simp: has_prefix_Cons is_digit_def code_def)
  with 3 i read_int_itoa [of x i] show ?case by (cases k) simp_all
next
  case (4 vs)
  then obtain j where k: "k = Suc j" by (cases k) auto
  show ?case
  proof (cases "vs = []")
    case True
    then show ?thesis by (simp add: k has_prefix_Cons)
  next
    case False
    obtain y where y: "join '','' (map encode_json vs) @ '']'' @ x = encode_json (hd vs) @ y"
      using join_head [of "map encode_json vs" "'',''" "'']'' @ x"] False by (auto simp: hd_map)
    have "read_list j (join '','' (map encode_json vs) @ '']'' @ x) = Some (vs, x)"
      using 4 False k by (intro read_list_encoded) auto
    then show ?thesis
      using encode_json_no_close(1) [of "hd vs" y] y by (simp add: k has_prefix_Cons)
  qed
next
  case (5 ms)
  then obtain j where k: "k = Suc j" by (cases k) auto
  have enc: "encode_json (JObject ms) = CHR ''{'' # join '','' (map encode_member ms) @ ''}''"
    by (simp add: encode_member_def)
  show ?case
  proof (cases "ms = []")
    case True
    then show ?thesis by (simp add: k has_prefix_Cons)
  next
    case False
    obtain y where y: "join '','' (map encode_member ms) @ ''}'' @ x = encode_member (hd ms) @ y"
      using join_head [of "map encode_member ms" "'',''" "''}'' @ x"] False by (auto simp: hd_map)
    have "read_members j (join '','' (map encode_member ms) @ ''}'' @ x) = Some (ms, x)"
      using 5 False k unfolding enc
      by (intro read_members_encoded) (auto simp: case_prod_beta)
    moreover have "\<not> has_prefix ''}'' (encode_member (hd ms) @ y)"
      by (simp add: encode_member_def json_string_def case_prod_beta has_prefix_Cons)
    ultimately show ?thesis using y unfolding enc k by (simp add: has_prefix_Cons)
  qed
qed

end
