(* ===== verification/Lineup.thy ===== *)
theory Lineup
  imports Hdhr Channels Go_Json
begin

text \<open>
  BuildLineup of internal/hdhr/lineup.go and the JSON forms of the answers of internal/hdhr:
  the lineup, its status and the discovery document. The address of a lineup entry is the
  origin of the bridge followed by the playback path of the channel's id.
\<close>

record lineup_entry =
  GuideNumber :: string
  GuideName :: string
  EntryURL :: string

definition playback_path :: "string \<Rightarrow> string" where
  "playback_path i = ''/auto/v'' @ i"

definition lineup_entry_of :: "url \<Rightarrow> channel \<Rightarrow> lineup_entry" where
  "lineup_entry_of baseURL c =
     \<lparr>GuideNumber = (if Number c = [] then itoa (int (SourceIndex c) + 1) else Number c),
      GuideName = Name c,
      EntryURL = url_string (resolve_reference baseURL (empty_url\<lparr>Path := playback_path (ID c)\<rparr>))\<rparr>"

definition BuildLineup :: "channel list \<Rightarrow> url \<Rightarrow> lineup_entry list" where
  "BuildLineup input baseURL = map (lineup_entry_of baseURL) input"

subsection \<open>JSON forms\<close>

definition lineup_entry_json :: "lineup_entry \<Rightarrow> json" where
  "lineup_entry_json e = JObject
     [(''GuideNumber'', JString (GuideNumber e)), (''GuideName'', JString (GuideName e)),
      (''URL'', JString (EntryURL e))]"

definition lineup_json :: "lineup_entry list \<Rightarrow> json" where
  "lineup_json es = JList (map lineup_entry_json es)"

definition lineup_status_json :: "lineup_status \<Rightarrow> json" where
  "lineup_status_json s = JObject
     [(''ScanInProgress'', JInt (ScanInProgress s)), (''ScanPossible'', JInt (ScanPossible s)),
      (''Source'', JString (Source s)), (''SourceList'', JList (map JString (SourceList s)))]"

definition discover_json :: "discover_response \<Rightarrow> json" where
  "discover_json d = JObject
     [(''FriendlyName'', JString (dr_FriendlyName d)), (''Manufacturer'', JString (dr_Manufacturer d)),
      (''ModelNumber'', JString (dr_ModelNumber d)), (''FirmwareName'', JString (dr_FirmwareName d)),
      (''FirmwareVersion'', JString (dr_FirmwareVersion d)), (''DeviceID'', JString (dr_DeviceID d)),
      (''DeviceAuth'', JString (dr_DeviceAuth d)), (''BaseURL'', JString (dr_BaseURL d)),
      (''LineupURL'', JString (dr_LineupURL d)), (''TunerCount'', JInt (dr_TunerCount d))]"

subsection \<open>The address of an entry\<close>

definition hex_id :: "string \<Rightarrow> bool" where
  "hex_id i \<longleftrightarrow> list_all (\<lambda>c. is_digit c \<or> (97 \<le> code c \<and> code c \<le> 102)) i"

lemma hex_id_BuildChannelID: "hex_id (BuildChannelID key)"
  using hex_encode_chars [of "Sum256 (to_bytes key)"]
  by (auto simp: hex_id_def BuildChannelID_def list_all_iff dest: in_set_takeD)

lemma hex_id_no_escape: "is_digit c \<or> (97 \<le> code c \<and> code c \<le> 102) \<Longrightarrow> \<not> should_escape EncPath c"
  by (auto simp: should_escape_def is_alnum_def is_lower_def)

lemma escape_id: "hex_id i \<Longrightarrow> escape EncPath i = i"
proof (induction i)
  case (Cons c i)
  then have "\<not> should_escape EncPath c" using hex_id_no_escape by (simp add: hex_id_def)
  with Cons show ?case by (simp add: escape_def escape_char_def hex_id_def)
qed (simp add: escape_def)

lemma escape_playback_path: "hex_id i \<Longrightarrow> escape EncPath (playback_path i) = playback_path i"
proof -
  assume "hex_id i"
  moreover have "escape EncPath ''/auto/v'' = ''/auto/v''" by code_simp
  moreover have "escape m (x @ y) = escape m x @ escape m y" for m x y by (simp add: escape_def)
  ultimately show ?thesis by (simp add: playback_path_def escape_id del: append.simps)
qed

lemma unescape_path_plain:
  "CHR ''%'' \<notin> set s \<Longrightarrow> unescape EncPath s = Some s"
  by (induction EncPath s rule: unescape.induct) auto

lemma id_not_slash: "hex_id i \<Longrightarrow> CHR ''/'' \<notin> set i \<and> CHR ''%'' \<notin> set i \<and> CHR ''.'' \<notin> set i"
  by (auto simp: hex_id_def list_all_iff is_digit_def code_def)

lemma resolve_playback_path:
  assumes "hex_id i"
  shows "resolve_path base (playback_path i) = playback_path i"
proof -
  have v: "CHR ''/'' \<notin> set (CHR ''v'' # i)" using id_not_slash [OF assms] by simp
  have "split_on ''/'' (playback_path i) = [[], ''auto'', CHR ''v'' # i]"
    using split_on_append [of "CHR ''/''" "[]" "''auto/v'' @ i"] split_on_append [of "CHR ''/''" "''auto''" "CHR ''v'' # i"]
      split_on_notin [OF v]
    by (simp add: playback_path_def)
  then show ?thesis
    using assms by (simp add: resolve_path_def playback_path_def resolve_seg_def Let_def has_prefix_Cons)
qed

text \<open>The origin as it is written in the address.\<close>

definition written_origin :: "url \<Rightarrow> string" where
  "written_origin u = Scheme u @ ''://'' @ escape EncHost (Host u)"

lemma entry_url:
  assumes "origin_only base" and "hex_id i"
  shows "url_string (resolve_reference base (empty_url\<lparr>Path := playback_path i\<rparr>)) =
    written_origin base @ playback_path i"
proof -
  let ?p = "playback_path i"
  have p: "?p \<noteq> []" "has_prefix ''/'' ?p" "?p \<noteq> ''*''"
    by (simp_all add: playback_path_def has_prefix_Cons)
  have path: "escaped_path (empty_url\<lparr>Path := ?p\<rparr>) = ?p"
    using p escape_playback_path [OF assms(2)] by (simp add: escaped_path_def empty_url_def)
  have "unescape EncPath ?p = Some ?p"
    using id_not_slash [OF assms(2)] by (intro unescape_path_plain) (simp add: playback_path_def)
  then have "with_path u ?p = u\<lparr>Path := ?p, RawPath := []\<rparr>" for u
    using escape_playback_path [OF assms(2)] by (simp add: with_path_def set_path_def)
  then have r: "resolve_reference base (empty_url\<lparr>Path := ?p\<rparr>) =
      empty_url\<lparr>Scheme := Scheme base, Host := Host base, User := None, Path := ?p\<rparr>"
    using assms(1) p path resolve_playback_path [OF assms(2)]
    by (simp add: resolve_reference_def Let_def origin_only_def empty_url_def)
  have "Scheme base \<noteq> []" "Host base \<noteq> []" using assms(1) by (auto simp: origin_only_def url_ok_def)
  then show ?thesis
    unfolding r using p escape_playback_path [OF assms(2)]
    by (simp add: url_string_def escaped_path_def empty_url_def written_origin_def Let_def)
qed

lemma lineup_entry_url:
  "origin_only base \<Longrightarrow> hex_id (ID c) \<Longrightarrow>
   EntryURL (lineup_entry_of base c) = written_origin base @ playback_path (ID c)"
  by (simp add: lineup_entry_of_def entry_url)

text \<open>The path a client asks for, given an absolute address.\<close>

definition client_path :: "string \<Rightarrow> string" where
  "client_path u =
     (case str_index ''://'' u of
        None \<Rightarrow> [] | Some i \<Rightarrow> dropWhile (\<lambda>c. c \<noteq> CHR ''/'') (drop (i + 3) u))"

end
