(* ===== verification/Http_Api.thy ===== *)
theory Http_Api
  imports Lineup Device_Xml M3u Rtsp_Relay "HOL-Library.AList"
begin

text \<open>
  internal/httpapi/server.go: the routes of the HTTP server, the handlers and the playback of
  a channel, by a redirect or through the RTSP relay of \<open>Rtsp_Relay\<close>; with the parts of
  \<open>net/http\<close> they use: \<open>ServeMux\<close> (in its semantics for modules of Go 1.20), \<open>Redirect\<close>,
  \<open>Error\<close> and the response writer. Header names are the keys as the code writes them.
\<close>

subsection \<open>Requests and responses\<close>

record http_request =
  rq_method :: string
  rq_uri :: string
  rq_http11 :: bool
  rq_path :: string
  rq_query :: string

text \<open>
  What the client gets. \<open>hr_status\<close> is \<open>None\<close> until the header has been written; the first write
  implies 200, and a change of the headers after that has no effect on what is sent.
\<close>

record http_response =
  hr_status :: "nat option"
  hr_headers :: "(string \<times> string) list"
  hr_body :: string

definition new_response :: http_response where
  "new_response = \<lparr>hr_status = None, hr_headers = [], hr_body = []\<rparr>"

definition set_header :: "string \<Rightarrow> string \<Rightarrow> http_response \<Rightarrow> http_response" where
  "set_header k v w =
     (if hr_status w = None then w\<lparr>hr_headers := AList.update k v (hr_headers w)\<rparr> else w)"

definition del_header :: "string \<Rightarrow> http_response \<Rightarrow> http_response" where
  "del_header k w =
     (if hr_status w = None then w\<lparr>hr_headers := AList.delete k (hr_headers w)\<rparr> else w)"

definition write_header :: "nat \<Rightarrow> http_response \<Rightarrow> http_response" where
  "write_header st_code w = (if hr_status w = None then w\<lparr>hr_status := Some st_code\<rparr> else w)"

definition write_body :: "string \<Rightarrow> http_response \<Rightarrow> http_response" where
  "write_body s w = (let v = write_header 200 w in v\<lparr>hr_body := hr_body v @ s\<rparr>)"

definition nl_text :: string where "nl_text = [CHR 0x0A]"

definition http_error :: "string \<Rightarrow> nat \<Rightarrow> http_response \<Rightarrow> http_response" where
  "http_error msg st_code w =
     write_body (msg @ nl_text)
       (write_header st_code
          (set_header ''X-Content-Type-Options'' ''nosniff''
             (set_header ''Content-Type'' ''text/plain; charset=utf-8''
                (del_header ''Content-Length'' w))))"

subsection \<open>path.Clean and Redirect\<close>

definition clean_seg :: "bool \<Rightarrow> string list \<Rightarrow> string \<Rightarrow> string list" where
  "clean_seg rooted out seg =
     (if seg = [] \<or> seg = ''.'' then out
      else if seg = ''..'' then
        (if out \<noteq> [] \<and> last out \<noteq> ''..'' then butlast out
         else if rooted then out else out @ [''..''])
      else out @ [seg])"

definition path_Clean :: "string \<Rightarrow> string" where
  "path_Clean p =
     (let rooted = has_prefix ''/'' p;
          r = (if rooted then ''/'' else []) @
              join ''/'' (foldl (clean_seg rooted) [] (split_on ''/'' p))
      in if r = [] then ''.'' else r)"

text \<open>The directory part of \<open>path.Split\<close>.\<close>

definition path_dir :: "string \<Rightarrow> string" where
  "path_dir p = (case last_index_byte (CHR ''/'') p of None \<Rightarrow> [] | Some i \<Rightarrow> take (i + 1) p)"

definition relative_target :: "string \<Rightarrow> string \<Rightarrow> string" where
  "relative_target oldpath target =
     (let old = (if oldpath = [] then ''/'' else oldpath);
          t = (if \<not> has_prefix ''/'' target then path_dir old @ target else target);
          (p, q) = (case str_index ''?'' t of None \<Rightarrow> (t, []) | Some i \<Rightarrow> (take i t, drop i t));
          c = path_Clean p;
          c' = (if has_suffix ''/'' p \<and> \<not> has_suffix ''/'' c then c @ ''/'' else c)
      in c' @ q)"

definition hexEscapeNonASCII :: "string \<Rightarrow> string" where
  "hexEscapeNonASCII s = concat (map (\<lambda>c.
     if code c < 128 then [c] else [CHR ''%'', hex_lower (code c div 16), hex_lower (code c mod 16)]) s)"

definition htmlEscape :: "string \<Rightarrow> string" where
  "htmlEscape s = concat (map (\<lambda>c.
     if c = CHR ''&'' then ''&amp;'' else if c = CHR ''<'' then ''&lt;''
     else if c = CHR ''>'' then ''&gt;'' else if c = CHR 0x22 then ''&#34;''
     else if c = CHR 0x27 then ''&#39;'' else [c]) s)"

definition status_text :: "nat \<Rightarrow> string" where
  "status_text st_code =
     (if st_code = 301 then ''Moved Permanently'' else if st_code = 302 then ''Found'' else [])"

definition redirect_target :: "string \<Rightarrow> string \<Rightarrow> string" where
  "redirect_target oldpath target =
     (case parse_url target of
        None \<Rightarrow> target
      | Some u \<Rightarrow> if Scheme u = [] \<and> Host u = [] then relative_target oldpath target else target)"

definition http_redirect :: "http_request \<Rightarrow> string \<Rightarrow> nat \<Rightarrow> http_response \<Rightarrow> http_response" where
  "http_redirect r target st_code w =
     (let t = redirect_target (rq_path r) target;
          hadCT = (map_of (hr_headers w) ''Content-Type'' \<noteq> None);
          w1 = set_header ''Location'' (hexEscapeNonASCII t) w;
          w2 = (if \<not> hadCT \<and> rq_method r \<in> {''GET'', ''HEAD''}
                then set_header ''Content-Type'' ''text/html; charset=utf-8'' w1 else w1);
          w3 = write_header st_code w2
      in if \<not> hadCT \<and> rq_method r = ''GET''
         then write_body (''<a href='' @ quot @ htmlEscape t @ quot @ ''>'' @ status_text st_code @ ''</a>.'' @
                nl_text @ nl_text) w3
         else w3)"

subsection \<open>ServeMux\<close>

datatype pattern =
    DiscoverJson | DeviceXml | DriDeviceXml | LineupJson | LineupStatusJson | LineupPost | Auto

definition patterns :: "(string \<times> pattern) list" where
  "patterns =
     [(''/discover.json'', DiscoverJson), (''/device.xml'', DeviceXml),
      (''/dri/device.xml'', DriDeviceXml), (''/lineup.json'', LineupJson),
      (''/lineup_status.json'', LineupStatusJson), (''/lineup.post'', LineupPost),
      (''/auto/'', Auto)]"

text \<open>\<open>mux.match\<close>: the exact pattern, or the longest that ends in a slash and is a prefix.\<close>

definition subtree_patterns :: "(string \<times> pattern) list" where
  "subtree_patterns = filter (\<lambda>e. has_suffix ''/'' (fst e)) patterns"

definition mux_match :: "string \<Rightarrow> pattern option" where
  "mux_match path =
     (case map_of patterns path of
        Some h \<Rightarrow> Some h
      | None \<Rightarrow> map_option snd (find (\<lambda>e. has_prefix (fst e) path)
                 (rev (sort_key (\<lambda>e. length (fst e)) subtree_patterns))))"

definition clean_path :: "string \<Rightarrow> string" where
  "clean_path p =
     (if p = [] then ''/''
      else let p' = (if has_prefix ''/'' p then p else ''/'' @ p);
               np = path_Clean p'
           in if has_suffix ''/'' p' \<and> np \<noteq> ''/'' then np @ ''/'' else np)"

text \<open>\<open>shouldRedirect\<close>: the path is not registered but is with a slash appended.\<close>

definition should_redirect :: "string \<Rightarrow> bool" where
  "should_redirect path =
     (map_of patterns path = None \<and> path \<noteq> [] \<and> map_of patterns (path @ ''/'') \<noteq> None \<and>
      \<not> has_suffix ''/'' path)"

datatype route = Serve_pattern pattern | Redirect_to string | No_route

definition redirect_url :: "string \<Rightarrow> string \<Rightarrow> string" where
  "redirect_url path query = url_string (empty_url\<lparr>Path := path, RawQuery := query\<rparr>)"

definition route_of_match :: "string \<Rightarrow> route" where
  "route_of_match path = (case mux_match path of None \<Rightarrow> No_route | Some h \<Rightarrow> Serve_pattern h)"

definition mux_handler :: "http_request \<Rightarrow> route" where
  "mux_handler r =
     (if rq_method r = ''CONNECT'' then
        (if should_redirect (rq_path r) then Redirect_to (redirect_url (rq_path r @ ''/'') (rq_query r))
         else route_of_match (rq_path r))
      else
        let path = clean_path (rq_path r)
        in if should_redirect path then Redirect_to (redirect_url (path @ ''/'') (rq_query r))
           else if path \<noteq> rq_path r then Redirect_to (redirect_url path (rq_query r))
           else route_of_match (rq_path r))"

subsection \<open>Handlers\<close>

definition writeJSON :: "json \<Rightarrow> http_response \<Rightarrow> http_response" where
  "writeJSON payload w =
     write_body (encode_json payload @ nl_text) (set_header ''Content-Type'' ''application/json'' w)"

definition writeDeviceXML :: "config \<Rightarrow> http_response \<Rightarrow> http_response" where
  "writeDeviceXML cfg w =
     write_body
       (BuildDeviceXML (FriendlyName cfg) (DeviceID cfg) (AdvertisedBaseURL cfg)
          (BuildDeviceUdn (DeviceID cfg)))
       (set_header ''Content-Type'' ''application/xml; charset=utf-8'' w)"

datatype http_log = PlaybackStarted string string string | FromRelay relay_log

datatype playback_error = ChannelNotFound | RelayError relay_error

text \<open>
  What the client has been sent by a relay: once started, the header with status 200 and
  the media written.
\<close>

definition relay_response :: "relay \<Rightarrow> http_response \<Rightarrow> http_response" where
  "relay_response r w =
     (if started r
      then write_body (of_bytes (concat (written r)))
             (write_header 200 (fold (\<lambda>(k, v). set_header k v) (response_headers r) w))
      else w)"

text \<open>
  The callbacks of flush timers that run between the return of \<open>Relay\<close> and that of the handler
  write to the same response: where they leave the relay, and what the client is sent.
\<close>

definition relay_end :: "relay_env \<Rightarrow> string \<Rightarrow> relayed \<Rightarrow> relay go" where
  "relay_end env streamURL d = late_deliver (handle_packet UDP streamURL (cw env)) (r_late d) (r_relay d)"

definition late_response :: "relay \<Rightarrow> relay \<Rightarrow> http_response \<Rightarrow> http_response" where
  "late_response r r' w =
     (if started r then write_body (of_bytes (concat (drop (length (written r)) (written r')))) w
      else relay_response r' w)"

definition late_logs :: "relay \<Rightarrow> relay \<Rightarrow> http_log list" where
  "late_logs r r' = map FromRelay (drop (length (relay_logged r)) (relay_logged r'))"

text \<open>
  The outer option is a panic, the inner one a relay that is still waiting for its stream.
  The environment of the relay is a parameter. When the channel was relayed, the last part of
  the result is the address and what the relay leaves behind.
\<close>

definition handlePlayback ::
  "unicode \<Rightarrow> relay_env \<Rightarrow> channel list \<Rightarrow> http_request \<Rightarrow> http_response \<Rightarrow>
   ((http_response \<times> http_log list) \<times> playback_error option \<times> (string \<times> relayed) option) option go" where
  "handlePlayback U env chs r w =
     (case slice (rq_path r) 6 (length (rq_path r)) of
        None \<Rightarrow> None
      | Some rest \<Rightarrow>
          if length rest < 2 \<or> hd rest \<noteq> CHR ''v'' then Some (Some ((w, []), Some ChannelNotFound, None))
          else (case find (\<lambda>c. ID c = tl rest) chs of
                  None \<Rightarrow> Some (Some ((w, []), Some ChannelNotFound, None))
                | Some c \<Rightarrow>
                    let l = [PlaybackStarted (ID c) (Name c) (StreamURL c)]
                    in if has_prefix ''rtsp://'' (StreamURL c) \<or> has_prefix ''rtsps://'' (StreamURL c) then
                         (case Relay U env (StreamURL c) of
                            None \<Rightarrow> None
                          | Some None \<Rightarrow> Some None
                          | Some (Some d) \<Rightarrow>
                              Some (Some ((relay_response (r_relay d) w,
                                           l @ map FromRelay (relay_logged (r_relay d))),
                                          map_option RelayError (r_error d), Some (StreamURL c, d))))
                       else Some (Some ((http_redirect r (StreamURL c) 302
                              (set_header ''Cache-Control'' ''no-store'' w), l), None, None))))"

text \<open>The texts of errors of the relay include those of the operating system: a parameter.\<close>

definition error_text :: "(relay_error \<Rightarrow> string) \<Rightarrow> playback_error \<Rightarrow> string" where
  "error_text txt e = (case e of ChannelNotFound \<Rightarrow> ''channel not found'' | RelayError x \<Rightarrow> txt x)"

definition handle_auto ::
  "unicode \<Rightarrow> relay_env \<Rightarrow> (relay_error \<Rightarrow> string) \<Rightarrow> channel list \<Rightarrow> http_request \<Rightarrow> http_response \<Rightarrow>
   (http_response \<times> http_log list) option go" where
  "handle_auto U env txt chs r w =
     (case handlePlayback U env chs r w of
        None \<Rightarrow> None
      | Some None \<Rightarrow> Some None
      | Some (Some ((w', l), e, relayed)) \<Rightarrow>
          let w'' = (case e of
                None \<Rightarrow> w'
              | Some x \<Rightarrow> http_error (error_text txt x) (if x = ChannelNotFound then 404 else 500) w')
          in case relayed of
               None \<Rightarrow> Some (Some (w'', l))
             | Some (streamURL, d) \<Rightarrow>
                 map_option (\<lambda>r'. Some (late_response (r_relay d) r' w'', l @ late_logs (r_relay d) r'))
                   (relay_end env streamURL d))"

definition quiet :: "http_response \<Rightarrow> (http_response \<times> http_log list) option go" where
  "quiet w = Some (Some (w, []))"

definition run_pattern ::
  "unicode \<Rightarrow> relay_env \<Rightarrow> (relay_error \<Rightarrow> string) \<Rightarrow> config \<Rightarrow> channel list \<Rightarrow> pattern \<Rightarrow>
   http_request \<Rightarrow> http_response \<Rightarrow> (http_response \<times> http_log list) option go" where
  "run_pattern U env txt cfg chs h r w =
     (case h of
        DiscoverJson \<Rightarrow> quiet (writeJSON (discover_json (BuildDiscoverJSON (FriendlyName cfg) (DeviceID cfg)
                           (DeviceAuth cfg) (AdvertisedBaseURL cfg) (TunerCount cfg))) w)
      | DeviceXml \<Rightarrow> quiet (writeDeviceXML cfg w)
      | DriDeviceXml \<Rightarrow> quiet (writeDeviceXML cfg w)
      | LineupJson \<Rightarrow> quiet (writeJSON (lineup_json (BuildLineup chs (AdvertisedBaseURL cfg))) w)
      | LineupStatusJson \<Rightarrow> quiet (writeJSON (lineup_status_json BuildLineupStatus) w)
      | LineupPost \<Rightarrow> quiet (write_body [] (write_header 200 w))
      | Auto \<Rightarrow> handle_auto U env txt chs r w)"

text \<open>The handler of \<open>NewHandler\<close> on one request, with the channels of the store at that time.\<close>

definition serve_http ::
  "unicode \<Rightarrow> relay_env \<Rightarrow> (relay_error \<Rightarrow> string) \<Rightarrow> config \<Rightarrow> store \<Rightarrow> http_request \<Rightarrow>
   (http_response \<times> http_log list) option go" where
  "serve_http U env txt cfg st r =
     (if rq_uri r = ''*'' then
        quiet (write_header 400
          (if rq_http11 r then set_header ''Connection'' ''close'' new_response else new_response))
      else case mux_handler r of
             Serve_pattern h \<Rightarrow> run_pattern U env txt cfg (GetChannels st) h r new_response
           | Redirect_to u \<Rightarrow> quiet (http_redirect r u 301 new_response)
           | No_route \<Rightarrow> quiet (http_error ''404 page not found'' 404 new_response))"

subsection \<open>Routes\<close>

lemma subtree_pattern: "rev (sort_key (\<lambda>e. length (fst e)) subtree_patterns) = [(''/auto/'', Auto)]"
  by code_simp

lemma split_slash: "CHR ''/'' \<notin> set a \<Longrightarrow> split_on ''/'' (a @ ''/'' @ b) = a # split_on ''/'' b"
  using split_on_append [of "CHR ''/''" a b] by simp

lemma split_playback_path:
  assumes "hex_id i"
  shows "split_on ''/'' (playback_path i) = [[], ''auto'', CHR ''v'' # i]"
proof -
  have "CHR ''/'' \<notin> set (CHR ''v'' # i)" using id_not_slash [OF assms] by simp
  then show ?thesis
    using split_slash [of "[]" "''auto/v'' @ i"] split_slash [of "''auto''" "CHR ''v'' # i"]
    by (simp add: playback_path_def split_on_notin)
qed

lemma clean_playback_path:
  assumes "hex_id i"
  shows "clean_path (playback_path i) = playback_path i"
proof -
  have "\<not> has_suffix ''/'' (playback_path i)"
    using id_not_slash [OF assms]
    by (cases i rule: rev_cases) (auto simp: has_suffix_def has_prefix_Cons playback_path_def)
  then show ?thesis
    using split_playback_path [OF assms]
    by (simp add: clean_path_def path_Clean_def clean_seg_def Let_def) (simp add: playback_path_def has_prefix_Cons)
qed

lemma playback_route:
  assumes "hex_id i" and "rq_method r \<noteq> ''CONNECT''" and "rq_path r = playback_path i"
  shows "mux_handler r = Serve_pattern Auto"
proof -
  have none: "map_of patterns (playback_path i) = None" "map_of patterns (playback_path i @ ''/'') = None"
    by (simp_all add: patterns_def playback_path_def)
  then have "mux_match (playback_path i) = Some Auto"
    by (simp add: mux_match_def subtree_pattern has_prefix_Cons) (simp add: playback_path_def)
  with none show ?thesis
    using assms clean_playback_path [OF assms(1)]
    by (simp add: mux_handler_def should_redirect_def route_of_match_def)
qed

end
