(* ===== verification/Http_Routes.thy ===== *)
theory Http_Routes
  imports Http_Api
begin

text \<open>
  The router of the HTTP server: what the clean form of a path is, and that a request is
  redirected at most once.
\<close>

subsection \<open>Redirects of the router\<close>

definition path_segment :: "string \<Rightarrow> bool" where
  "path_segment s \<longleftrightarrow> s \<notin> {[], ''.'', ''..''} \<and> CHR ''/'' \<notin> set s"

lemma split_on_no_sep: "s \<in> set (split_on [b] p) \<Longrightarrow> b \<notin> set s"
proof (induction "length p" arbitrary: p rule: less_induct)
  case less
  show ?case
  proof (cases "b \<in> set p")
    case False
    with less.prems show ?thesis by (simp add: split_on_notin)
  next
    case True
    then obtain l r where p: "p = l @ b # r" "b \<notin> set l" using split_list_first by metis
    then have "s = l \<or> s \<in> set (split_on [b] r)" using less.prems by (simp add: split_on_append)
    then show ?thesis using less.hyps [of r] p by auto
  qed
qed

lemma clean_seg_segments:
  "list_all (\<lambda>s. CHR ''/'' \<notin> set s) ss \<Longrightarrow> list_all path_segment out \<Longrightarrow>
   list_all path_segment (foldl (clean_seg True) out ss)"
proof (induction ss arbitrary: out)
  case (Cons s ss)
  have "list_all path_segment (clean_seg True out s)"
    using Cons.prems by (auto simp: clean_seg_def path_segment_def list_all_iff dest: in_set_butlastD)
  with Cons show ?case by simp
qed simp

lemma clean_seg_id:
  "list_all path_segment ss \<Longrightarrow> foldl (clean_seg True) out ss = out @ ss"
  by (induction ss arbitrary: out) (auto simp: clean_seg_def path_segment_def)

definition clean_form :: "bool \<Rightarrow> string list \<Rightarrow> string" where
  "clean_form slash ss = ''/'' @ join ''/'' ss @ (if slash then ''/'' else [])"

lemma path_Clean_rooted:
  "has_prefix ''/'' p \<Longrightarrow> path_Clean p = ''/'' @ join ''/'' (foldl (clean_seg True) [] (split_on ''/'' p))"
  by (simp add: path_Clean_def)

lemma clean_path_form:
  "\<exists>slash ss. clean_path p = clean_form slash ss \<and> list_all path_segment ss \<and> (ss = [] \<longrightarrow> \<not> slash)"
proof (cases "p = []")
  case True
  then show ?thesis
    by (intro exI [of _ False] exI [of _ "[]"]) (simp add: clean_path_def clean_form_def)
next
  case False
  define p' where "p' = (if has_prefix ''/'' p then p else ''/'' @ p)"
  define ss where "ss = foldl (clean_seg True) [] (split_on ''/'' p')"
  have "has_prefix ''/'' p'" by (simp add: p'_def has_prefix_Cons)
  then have c: "path_Clean p' = ''/'' @ join ''/'' ss" using path_Clean_rooted ss_def by simp
  have ok: "list_all path_segment ss"
    unfolding ss_def using split_on_no_sep by (intro clean_seg_segments) (auto simp: list_all_iff)
  have "path_Clean p' = ''/'' \<longleftrightarrow> ss = []"
    using ok unfolding c by (cases ss; cases "tl ss") (auto simp: path_segment_def)
  then have "clean_path p = clean_form (has_suffix ''/'' p' \<and> ss \<noteq> []) ss"
    using False c unfolding clean_path_def p'_def [symmetric] clean_form_def by (simp add: Let_def)
  then show ?thesis using ok by blast
qed

lemma join_Cons: "ss \<noteq> [] \<Longrightarrow> join x (s # ss) = s @ x @ join x ss"
  by (cases ss) simp_all

lemma join_snoc: "ss \<noteq> [] \<Longrightarrow> join x (ss @ [t]) = join x ss @ x @ t"
proof (induction ss)
  case (Cons s ss)
  then show ?case by (cases "ss = []") (simp_all add: join_Cons)
qed simp

lemma clean_form_parts:
  assumes "ss \<noteq> []"
  shows "clean_form slash ss = join ''/'' ([] # ss @ (if slash then [[]] else []))"
proof (cases slash)
  case True
  have "join ''/'' ([] # ss @ [[]]) = ''/'' @ join ''/'' (ss @ [[]])" using join_Cons [of "ss @ [[]]" "''/''" "[]"] by simp
  with True assms show ?thesis by (simp add: clean_form_def join_snoc)
next
  case False
  with assms show ?thesis by (simp add: clean_form_def join_Cons)
qed

lemma split_clean_form:
  assumes "list_all path_segment ss" and "ss \<noteq> []"
  shows "split_on ''/'' (clean_form slash ss) = [] # ss @ (if slash then [[]] else [])"
  unfolding clean_form_parts [OF assms(2)]
proof (rule split_on_join)
  have "list_all (\<lambda>l. CHR ''/'' \<notin> set l) ss"
    by (rule list.pred_mono_strong [OF assms(1)]) (simp add: path_segment_def)
  then show "list_all (\<lambda>l. CHR ''/'' \<notin> set l) ([] # ss @ (if slash then [[]] else []))" by simp
qed simp

lemma join_last: "ss \<noteq> [] \<Longrightarrow> \<exists>y. join x ss = y @ last ss"
proof (cases ss rule: rev_cases)
  case (snoc l y)
  then show ?thesis by (cases "l = []") (auto simp: join_snoc)
qed simp

lemma clean_path_rooted:
  "has_prefix ''/'' q \<Longrightarrow> clean_path q =
     (if has_suffix ''/'' q \<and> path_Clean q \<noteq> ''/'' then path_Clean q @ ''/'' else path_Clean q)"
  by (cases q) (simp_all add: clean_path_def Let_def has_prefix_Cons)

lemma clean_path_clean_form:
  assumes "list_all path_segment ss" and "ss = [] \<longrightarrow> \<not> slash"
  shows "clean_path (clean_form slash ss) = clean_form slash ss"
proof (cases "ss = []")
  case True
  then have "clean_form slash ss = ''/''" using assms(2) by (simp add: clean_form_def)
  moreover have "clean_path ''/'' = ''/''" by code_simp
  ultimately show ?thesis by simp
next
  case False
  let ?p = "clean_form slash ss"
  have rooted: "has_prefix ''/'' ?p" "?p \<noteq> []" by (simp_all add: clean_form_def has_prefix_Cons)
  have "foldl (clean_seg True) [] (split_on ''/'' ?p) = ss"
    using clean_seg_id [OF assms(1), of "[]"] unfolding split_clean_form [OF assms(1) False]
    by (simp add: clean_seg_def)
  then have c: "path_Clean ?p = clean_form False ss"
    using path_Clean_rooted [OF rooted(1)] by (simp add: clean_form_def)
  moreover have "clean_form False ss \<noteq> ''/''"
    using assms(1) False by (cases ss; cases "tl ss") (auto simp: clean_form_def path_segment_def)
  moreover have "has_suffix ''/'' ?p \<longleftrightarrow> slash"
  proof (cases slash)
    case True
    then show ?thesis by (simp add: clean_form_def has_suffix_def has_prefix_Cons)
  next
    case no: False
    obtain y where y: "join ''/'' ss = y @ last ss" using join_last [OF False] by blast
    have "path_segment (last ss)" using assms(1) False by (auto simp: list_all_iff)
    then show ?thesis
      using no by (cases "last ss" rule: rev_cases)
        (auto simp: path_segment_def clean_form_def y has_suffix_def has_prefix_Cons)
  qed
  ultimately show ?thesis
    unfolding clean_path_rooted [OF rooted(1)] by (cases slash) (simp_all add: clean_form_def)
qed

lemma clean_path_idem: "clean_path (clean_path p) = clean_path p"
  using clean_path_form [of p] clean_path_clean_form by metis

lemma should_redirect_iff: "should_redirect q \<longleftrightarrow> q = ''/auto''"
proof -
  have "q @ ''/'' = ''/auto/'' \<longleftrightarrow> q = ''/auto''" using append_same_eq [of q "''/''" "''/auto''"] by simp
  moreover have "last (q @ ''/'') = CHR ''/''" by simp
  ultimately have "map_of patterns (q @ ''/'') \<noteq> None \<longleftrightarrow> q = ''/auto''"
    by (auto simp: patterns_def append_eq_Cons_conv dest: arg_cong [of "q @ _" _ last])
  moreover have "map_of patterns ''/auto'' = None" "\<not> has_suffix ''/'' ''/auto''" by code_simp+
  ultimately show ?thesis by (auto simp: should_redirect_def)
qed

text \<open>
  The router redirects at most once. A request, other than CONNECT, whose path is not in
  its clean form, or names the playback subtree without its slash, is redirected to a path
  that is not redirected again: there are no redirect loops, whatever path a client sends.
\<close>

theorem redirects_once:
  assumes "rq_method r \<noteq> ''CONNECT''" and "mux_handler r = Redirect_to u"
  shows "\<exists>path. u = redirect_url path (rq_query r) \<and>
    (\<forall>v. mux_handler (r\<lparr>rq_path := path\<rparr>) \<noteq> Redirect_to v)"
proof -
  let ?c = "clean_path (rq_path r)"
  define path where "path = (if should_redirect ?c then ?c @ ''/'' else ?c)"
  have u: "u = redirect_url path (rq_query r)"
    using assms by (auto simp: mux_handler_def path_def Let_def route_of_match_def split: if_splits option.splits)
  have "clean_path path = path \<and> \<not> should_redirect path"
  proof (cases "should_redirect ?c")
    case True
    then have "path = ''/auto/''" by (simp add: path_def should_redirect_iff)
    moreover have "clean_path ''/auto/'' = ''/auto/''" by code_simp
    ultimately show ?thesis by (simp add: should_redirect_iff)
  qed (simp add: path_def clean_path_idem)
  then have "mux_handler (r\<lparr>rq_path := path\<rparr>) \<noteq> Redirect_to v" for v
    using assms(1) by (simp add: mux_handler_def route_of_match_def split: option.splits)
  with u show ?thesis by blast
qed

definition get :: "string \<Rightarrow> http_request" where
  "get path = \<lparr>rq_method = ''GET'', rq_uri = path, rq_http11 = True, rq_path = path, rq_query = []\<rparr>"

lemma redirects_once_witness:
  "\<exists>path. redirect_url ''/a/b'' [] = redirect_url path [] \<and>
     (\<forall>v. mux_handler ((get ''/a/./x/..//b'')\<lparr>rq_path := path\<rparr>) \<noteq> Redirect_to v)"
proof -
  have "mux_handler (get ''/a/./x/..//b'') = Redirect_to (redirect_url ''/a/b'' [])" by code_simp
  from redirects_once [OF _ this] show ?thesis by (simp add: get_def)
qed

end
