(* ===== verification/Rtsp_Late.thy ===== *)
theory Rtsp_Late
  imports Rtsp_Protocol Rtp_Properties
begin

text \<open>
  The flush timers of the reorder buffer that run after the UDP pump has returned: their
  callbacks never panic, the state of the HTTP response stays consistent whoever writes to
  it, and a relay that returns an error has sent no media but what such callbacks sent.
\<close>

subsection \<open>Callbacks do not panic\<close>

lemma depacketize_not_None: "depacketizeRtpPayload p \<noteq> None"
proof (rule depacketize_cases [of p])
  fix h assume "12 \<le> length p" and "depacketizeRtpPayload p = rtp_body p (p ! 0 AND 0x20 \<noteq> 0) h"
  then show ?thesis using rtp_body_total [of p] by fastforce
qed simp

lemma handle_packet_total: "handle_packet tkind u net r p \<noteq> None"
  using depacketize_not_None [of p]
  by (auto simp: handle_packet_def recordRtpPacket_eq recordTsPayload_eq Let_def split: sum.splits option.splits)

lemma deliver_total: "(\<And>s p. handle s p \<noteq> None) \<Longrightarrow> deliver handle ps st \<noteq> None"
  by (induction ps arbitrary: st) (auto split: option.splits)

lemma late_deliver_total: "\<exists>r'. late_deliver (handle_packet tkind u net) ps r = Some r'"
  using deliver_total [of "handle_packet tkind u net", OF handle_packet_total] by (auto simp: late_deliver_def)

lemma late_packets_total: "\<exists>ps. late_packets b evs = Some ps"
proof -
  have "run b (map timer_step evs) \<noteq> None"
  proof (induction evs arbitrary: b)
    case (Cons ev evs)
    then show ?case by (cases ev) simp_all
  qed simp
  then show ?thesis by (auto simp: late_packets_def)
qed

lemma late_packets_Nil: "late_packets b [] = Some []"
  by (simp add: late_packets_def)

lemma late_deliver_Nil [simp]: "late_deliver handle [] s = Some s"
  by (simp add: late_deliver_def)

subsection \<open>The response of a relay\<close>

text \<open>Nothing is written before the media has started, and then under the stream's headers.\<close>

definition stream_headers :: "(string \<times> string) list" where
  "stream_headers = [(''Cache-Control'', ''no-store''), (''Content-Type'', ''video/mp2t'')]"

definition relay_ok :: "relay \<Rightarrow> bool" where
  "relay_ok r \<longleftrightarrow> (if started r then response_headers r = stream_headers else written r = [])"

lemma relay_ok_new: "relay_ok (new_relay l)"
  by (simp add: relay_ok_def new_relay_def)

lemma relay_ok_frame [simp]:
  "relay_ok (finish_relay r) = relay_ok r" "relay_ok (r\<lparr>relay_logged := l\<rparr>) = relay_ok r"
  "started (finish_relay r) = started r"
  by (simp_all add: relay_ok_def finish_relay_def)

text \<open>How a packet changes the response: it only grows, and logs nothing once it has started.\<close>

definition grows :: "relay \<Rightarrow> relay \<Rightarrow> bool" where
  "grows r r' \<longleftrightarrow> (\<exists>ws. written r' = written r @ ws) \<and> (\<exists>ls. relay_logged r' = relay_logged r @ ls) \<and>
     (started r \<longrightarrow> started r' \<and> response_headers r' = response_headers r \<and> relay_logged r' = relay_logged r)"

lemma grows_refl: "grows r r"
  by (simp add: grows_def)

lemma grows_trans: "grows r s \<Longrightarrow> grows s t \<Longrightarrow> grows r t"
  by (auto simp: grows_def)

lemma handle_packet_cases:
  assumes "handle_packet tkind u net r p = Some (r', e)"
  obtains (quiet) d where "r' = r\<lparr>diag := d\<rparr>"
  | (media) d x where "r' = (emitStart tkind u (r\<lparr>diag := d\<rparr>))\<lparr>written := written r @ x\<rparr>"
proof -
  obtain d y where d: "recordRtpPacket (diag r) p = Some d" and y: "depacketizeRtpPayload p = Some y"
    using assms by (auto simp: handle_packet_def bind_eq_Some_conv)
  show thesis
  proof (cases "\<exists>m. y = Inr m \<and> m \<noteq> []")
    case False
    with assms d y show thesis by (auto simp: handle_packet_def intro: quiet split: sum.splits)
  next
    case True
    then obtain m where m: "y = Inr m" "m \<noteq> []" by blast
    obtain d' where d': "recordTsPayload d m = Some d'" by (simp add: recordTsPayload_eq)
    let ?r = "emitStart tkind u (r\<lparr>diag := d'\<rparr>)"
    have w: "written ?r = written r" by (simp add: emitStart_def)
    show thesis
    proof (cases "net (written r) m")
      case None
      with assms d y m d' w show thesis by (intro media [of "[m]" d']) (simp add: handle_packet_def Let_def)
    next
      case (Some x)
      with assms d y m d' w show thesis by (intro media [of "[]" d']) (simp add: handle_packet_def Let_def)
    qed
  qed
qed

lemma handle_packet_grows: "handle_packet tkind u net r p = Some (r', e) \<Longrightarrow> grows r r'"
  by (erule handle_packet_cases) (auto simp: emitStart_def grows_def)

lemma handle_packet_keeps_ok: "keeps (handle_packet tkind u net) relay_ok"
  unfolding keeps_def
  by (intro allI impI, erule handle_packet_cases) (auto simp: emitStart_def relay_ok_def stream_headers_def split: if_splits)

lemma handle_packet_keeps_grown: "keeps (handle_packet tkind u net) (grows r)"
  by (auto simp: keeps_def intro: grows_trans handle_packet_grows)

lemma deliver_keeps: "deliver handle ps st = Some (s', e) \<Longrightarrow> keeps handle I \<Longrightarrow> I (fst st) \<Longrightarrow> I s'"
  by (induction ps arbitrary: st) (fastforce simp: keeps_def split: option.splits)+

lemma late_deliver_keeps: "late_deliver handle ps s = Some s' \<Longrightarrow> keeps handle I \<Longrightarrow> I s \<Longrightarrow> I s'"
  by (auto simp: late_deliver_def dest: deliver_keeps)

lemmas late_deliver_ok = late_deliver_keeps [OF _ handle_packet_keeps_ok]

lemma late_deliver_grows: "late_deliver (handle_packet tkind u net) ps r = Some r' \<Longrightarrow> grows r r'"
  using late_deliver_keeps [OF _ handle_packet_keeps_grown grows_refl] .

subsection \<open>The pumps\<close>

lemma buffer_step_keeps: "buffer_step handle ev st = Some st' \<Longrightarrow> keeps handle I \<Longrightarrow> I (u_state st) \<Longrightarrow> I (u_state st')"
  by (auto simp: buffer_step_def bind_eq_Some_conv dest: deliver_keeps)

lemma u_tick_state [simp]: "u_state (u_tick st) = u_state st" "u_err (u_tick st) = u_err st"
  by (simp_all add: u_tick_def)

lemma udp_read_error_keeps:
  "udp_read_error handle st x = Some (st', e) \<Longrightarrow> keeps handle I \<Longrightarrow> I (u_state st) \<Longrightarrow> I (u_state st')"
  by (auto simp: udp_read_error_def Let_def dest: buffer_step_keeps split: option.splits if_splits)

lemma udp_loop_keeps:
  "udp_loop handle looked st evs = Some (st', e) \<Longrightarrow> keeps handle I \<Longrightarrow> I (u_state st) \<Longrightarrow> I (u_state st')"
proof (induction evs arbitrary: looked st)
  case (Cons ev evs)
  define s where "s = (if looked then st else u_tick st)"
  have s: "I (u_state s)" using Cons.prems(3) by (simp add: s_def)
  have on: "I (u_state st')"
    if "buffer_step handle ev' (s\<lparr>u_started := b\<rparr>) = Some s1" and "udp_loop handle l s1 evs = Some (st', e)" for ev' b s1 l
    using Cons.IH [OF that(2) Cons.prems(2)] buffer_step_keeps [OF that(1) Cons.prems(2)] s by simp
  have self: "s = s\<lparr>u_started := u_started s\<rparr>" by simp
  show ?case
  proof (cases "\<not> looked \<and> (u_look st \<or> u_err st \<noteq> None)")
    case True
    with Cons.prems show ?thesis by (auto simp: Let_def split: if_splits)
  next
    case False
    then show ?thesis
    proof (cases ev)
      case (Datagram bs)
      with False Cons.prems(1) obtain s1 where s1: "buffer_step handle (Push (take 2048 bs)) (s\<lparr>u_started := True\<rparr>) = Some s1"
        "(case u_err s1 of None \<Rightarrow> udp_loop handle False s1 evs | Some x \<Rightarrow> Some (s1\<lparr>u_err := None\<rparr>, Some (Some x))) = Some (st', e)"
        by (auto simp: s_def Let_def split: option.splits if_splits)
      then show ?thesis
        using on [OF s1(1)] buffer_step_keeps [OF s1(1) Cons.prems(2)] s by (auto split: option.splits)
    next
      case (ReadError x)
      with False Cons.prems(1) have "udp_read_error handle s x = Some (st', e)"
        by (auto simp: s_def Let_def split: if_splits)
      from udp_read_error_keeps [OF this Cons.prems(2) s] show ?thesis .
    next
      case (TimerExpire t)
      with False Cons.prems(1) show ?thesis
        using on [of "Expire t" "u_started s"] by (auto simp: s_def Let_def split: option.splits if_splits)
    next
      case (TimerCallback t)
      with False Cons.prems(1) show ?thesis
        using on [of "Callback t" "u_started s"] by (auto simp: s_def Let_def split: option.splits if_splits)
    qed
  qed
qed (auto split: if_splits option.splits)

lemma pumpUdp_keeps:
  "pumpUdp watch handle s live_ctx evs = Some (st, e) \<Longrightarrow> keeps handle I \<Longrightarrow> I s \<Longrightarrow> I (u_state st)"
  by (auto simp: pumpUdp_def dest!: udp_loop_keeps split: option.splits)

subsection \<open>A relay that fails\<close>

lemma stream_end_error: "snd (stream_end r e over) = Some x \<Longrightarrow> fst (stream_end r e over) = started r"
  by (auto simp: stream_end_def split: option.splits if_splits)

lemma udp_streamed_ok:
  assumes "udp_streamed env t u c st e = Some m" and "relay_ok (u_state st)"
  shows "relay_ok (m_relay m) \<and> (m_error m \<noteq> None \<longrightarrow> m_started m = started (m_relay m)) \<and>
    (late_timers env = [] \<longrightarrow> m_late m = [])"
proof -
  obtain ps r r' where ps: "late_packets (u_buf st) (late_timers env) = Some ps"
    and r: "late_deliver (handle_packet UDP u (cw env)) (take (late_finish env) ps) (u_state st) = Some r"
    and r': "late_deliver (handle_packet UDP u (cw env)) (take (late_started env) (drop (late_finish env) ps))
        (finish_relay r) = Some r'"
    and m: "m_relay m = r'" "m_started m = fst (stream_end r' e (u_look st))"
      "m_error m = snd (stream_end r' e (u_look st))" "m_late m = drop (late_started env) (drop (late_finish env) ps)"
    using assms(1) by (auto simp: udp_streamed_def Let_def bind_eq_Some_conv)
  have "relay_ok r" using late_deliver_ok [OF r assms(2)] .
  then have "relay_ok r'" using late_deliver_ok [OF r'] by simp
  with m ps stream_end_error [of r' e "u_look st"] show ?thesis by (auto simp: late_packets_Nil)
qed

lemma streamMedia_ok:
  assumes "streamMedia U env t u r c = Some (Some m)" and "relay_ok r"
  shows "relay_ok (m_relay m) \<and> (m_error m \<noteq> None \<longrightarrow> m_started m = started (m_relay m)) \<and>
    (late_timers env = [] \<or> kind t = TCP \<longrightarrow> m_late m = [])"
proof (cases "kind t")
  case TCP
  with assms(1) obtain r' e c' where p: "pumpInterleaved U (handle_packet TCP u (cw env)) r c = Some (r', e, c')"
    and m: "m_relay m = finish_relay r'" "m_started m = fst (stream_end (finish_relay r') (Some e) (ctx_done c'))"
      "m_error m = snd (stream_end (finish_relay r') (Some e) (ctx_done c'))" "m_late m = []"
    by (auto simp: streamMedia_def Let_def split: option.splits)
  have "relay_ok r'" using pumpInterleaved_keeps [OF p handle_packet_keeps_ok assms(2)] by simp
  with m stream_end_error [of "finish_relay r'" "Some e"] show ?thesis by auto
next
  case UDP
  with assms(1) obtain st e where p: "pumpUdp (watcher env) (handle_packet UDP u (cw env)) r (ctx c) (udp_events env) =
      Some (st, Some e)" and m: "udp_streamed env t u c st e = Some m"
    by (auto simp: streamMedia_def split: option.splits)
  from udp_streamed_ok [OF m pumpUdp_keeps [OF p handle_packet_keeps_ok assms(2)]] UDP show ?thesis by simp
qed

text \<open>
  What is left to say when a relay returns an error: no media has been sent, but by callbacks
  of flush timers that ran after the pump had returned.
\<close>

definition failed_clean :: "relay_env \<Rightarrow> relayed \<Rightarrow> bool" where
  "failed_clean env d \<longleftrightarrow> relay_ok (r_relay d) \<and> (r_during d = [] \<longrightarrow> \<not> started (r_relay d)) \<and>
     (late_timers env = [] \<longrightarrow> r_during d = [] \<and> r_late d = [])"

lemma failed_clean_ops [simp]: "failed_clean env (d\<lparr>r_ops := ops\<rparr>) = failed_clean env d"
  by (simp add: failed_clean_def)

lemma fails_clean: "fails e l c ops = Some (Some d) \<Longrightarrow> failed_clean env d"
  using relay_ok_new by (auto simp: fails_def failed_clean_def new_relay_def)

lemma play_clean:
  assumes "play U env s u session t l c ops = Some (Some d)" and "r_error d = Some e"
  shows "failed_clean env d"
proof -
  obtain x c1 where x: "request U (wr env) ''PLAY'' u (''Session'', session) c = Some (x, c1)"
    using assms(1) by (auto simp: play_def split: option.splits)
  show ?thesis
  proof (cases x)
    case (Inl y)
    with assms x show ?thesis by (auto simp: play_def intro: fails_clean)
  next
    case (Inr resp)
    with x have ok: "request U (wr env) ''PLAY'' u (''Session'', session) c = Some (Inr resp, c1)" by simp
    from play_streamed [OF assms(1) ok] obtain m where
      m: "streamMedia U env t s (new_relay l) c1 = Some (Some m)" "r_error d = snd (stream_done m)"
      and late: "late_deliver (handle_packet UDP s (cw env)) (r_during d) (fst (stream_done m)) = Some (r_relay d)"
      and split: "r_during d = take (late_return env) (m_late m)" "r_late d = drop (late_return env) (m_late m)"
      by metis
    note str = streamMedia_ok [OF m(1) relay_ok_new]
    have un: "\<not> m_started m" "m_error m \<noteq> None" "fst (stream_done m) = m_relay m"
      using m(2) assms(2) by (cases "m_error m"; auto simp: stream_done_def split: if_splits)+
    then have "\<not> started (m_relay m)" using str by simp
    moreover have "relay_ok (r_relay d)" using late_deliver_ok [OF late] str un by simp
    ultimately show ?thesis using late un split str by (auto simp: failed_clean_def)
  qed
qed

lemma relay_setup_clean:
  "relay_setup U env s track c = Some (Some d) \<Longrightarrow> r_error d = Some e \<Longrightarrow> failed_clean env d"
  by (auto simp: relay_setup_def dest: play_clean fails_clean split: option.splits sum.splits prod.splits)

lemma Relay_clean: "Relay U env s = Some (Some d) \<Longrightarrow> r_error d = Some e \<Longrightarrow> failed_clean env d"
  by (auto simp: Relay_def Let_def dest: relay_setup_clean fails_clean split: option.splits sum.splits prod.splits if_splits)

end
