(* ===== verification/Http_Properties.thy ===== *)
theory Http_Properties
  imports Http_Routes M3u_Properties Rtsp_Late
begin

text \<open>
  Properties of the HTTP server: the lineup decodes from its JSON, the address of a lineup
  entry plays that channel, and a failed relay sends its error and no media but what late
  callbacks of flush timers write.
\<close>

subsection \<open>The lineup decodes\<close>

lemma valid_utf8_ascii: "list_all is_ascii s \<Longrightarrow> valid_utf8 s"
proof (induction s)
  case Nil
  show ?case by (subst valid_utf8.simps) simp
next
  case (Cons c s)
  then have c: "code c < 128" by (simp add: is_ascii_def)
  then have "code c \<noteq> rune_error" by (simp add: rune_error_def)
  with Cons c show ?case by (subst valid_utf8.simps) (simp add: decode_rune_def)
qed

lemma escape_char_ascii: "list_all is_ascii (escape_char m c)"
proof (cases "should_escape m c")
  case True
  have "is_ascii (hex_digit n)" if "n < 16" for n
    using that by (simp add: hex_digit_def is_ascii_def code_def)
  moreover have "code c div 16 < 16" by (rule less_mult_imp_div_less) simp
  ultimately show ?thesis
    using True by (auto simp: escape_char_def is_ascii_def code_def)
next
  case False
  have "should_escape m c" if "\<not> is_ascii c"
  proof -
    have "c \<notin> set t" if "list_all is_ascii t" for t using that \<open>\<not> is_ascii c\<close> by (auto simp: list_all_iff)
    from this [of "''!$&()*+,;=:[]<>''"] this [of "[CHR 0x22, CHR 0x27]"] this [of "''-_.~''"]
      this [of "''$&+,/:;=?@''"] this [of "''!()*''"]
    have no: "c \<notin> set ''!$&()*+,;=:[]<>'' \<union> {CHR 0x22, CHR 0x27}" "c \<notin> set ''-_.~''"
      "c \<notin> set ''$&+,/:;=?@''" "c \<notin> set ''!()*''"
      by (simp_all add: is_ascii_def code_def)
    have "\<not> is_alnum c" using that by (auto simp: is_ascii_def is_alnum_def is_lower_def is_upper_def is_digit_def)
    with no show ?thesis unfolding should_escape_def by (simp only: if_False simp_thms)
  qed
  with False show ?thesis by (auto simp: escape_char_def)
qed

lemma written_origin_ascii: "url_ok base \<Longrightarrow> list_all is_ascii (written_origin base)"
proof -
  assume "url_ok base"
  then have "list_all is_ascii (Scheme base)" by (auto simp: url_ok_def is_ascii_def code_def)
  moreover have "list_all is_ascii (escape EncHost h)" for h
    using escape_char_ascii by (simp add: escape_def list_all_iff)
  ultimately show ?thesis by (simp add: written_origin_def is_ascii_def code_def)
qed

lemma hex_id_ascii: "hex_id i \<Longrightarrow> list_all is_ascii i"
  by (auto simp: hex_id_def list_all_iff is_ascii_def is_digit_def)

lemma itoa_ascii: "list_all is_ascii (itoa i)"
proof -
  have "list_all is_ascii (itoa_nat n)" for n
    by (rule list.pred_mono_strong [OF itoa_nat_digits]) (simp add: is_digit_def is_ascii_def)
  then show ?thesis by (simp add: itoa_def) (simp add: is_ascii_def code_def)
qed

text \<open>The channels a store can hold: those of some playlist.\<close>

definition store_of :: "unicode \<Rightarrow> sorter \<Rightarrow> string \<Rightarrow> store \<Rightarrow> bool" where
  "store_of U srt playlist st \<longleftrightarrow> slice_sorter srt \<and> channels st = fst (ParseM3U U srt playlist)"

lemma store_channels:
  assumes "store_of U srt playlist st" and "c \<in> set (channels st)"
  shows "channel_ok U c" and "hex_id (ID c)" and "ID c \<noteq> []"
proof -
  have ok: "channel_ok U c"
    using assms ParseM3U_channel_ok [of srt U playlist] by (auto simp: store_of_def list_all_iff)
  then have "ID c = BuildChannelID (IdentityKey c)" by (simp add: channel_ok_def)
  then show "channel_ok U c" "hex_id (ID c)" "ID c \<noteq> []"
    using ok hex_id_BuildChannelID [of "IdentityKey c"]
    by (auto simp: BuildChannelID_def hex_encode_length length_Sum256 simp flip: length_greater_0_conv)
qed

text \<open>What a client should find in the lineup for a channel.\<close>

definition expected_entry :: "url \<Rightarrow> channel \<Rightarrow> lineup_entry" where
  "expected_entry base c =
     \<lparr>GuideNumber = (if Number c = [] then itoa (int (SourceIndex c) + 1) else Number c),
      GuideName = Name c, EntryURL = written_origin base @ playback_path (ID c)\<rparr>"

lemma BuildLineup_expected:
  assumes "store_of U srt playlist st" and "valid_config cfg"
  shows "BuildLineup (channels st) (AdvertisedBaseURL cfg) =
    map (expected_entry (AdvertisedBaseURL cfg)) (channels st)"
proof -
  have "origin_only (AdvertisedBaseURL cfg)" using assms(2) by (simp add: valid_config_def)
  then show ?thesis
    using store_channels(2) [OF assms(1)]
    by (auto simp: BuildLineup_def lineup_entry_of_def expected_entry_def entry_url)
qed

lemma lineup_route: "rq_path r = ''/lineup.json'' \<Longrightarrow> rq_method r \<noteq> ''CONNECT'' \<Longrightarrow>
  mux_handler r = Serve_pattern LineupJson"
proof -
  assume r: "rq_path r = ''/lineup.json''" "rq_method r \<noteq> ''CONNECT''"
  have "clean_path ''/lineup.json'' = ''/lineup.json''" "\<not> should_redirect ''/lineup.json''"
    "route_of_match ''/lineup.json'' = Serve_pattern LineupJson"
    by code_simp+
  with r show ?thesis by (simp add: mux_handler_def)
qed

text \<open>
  C8 The lineup decodes to the channels. For a valid configuration and the channels of any
  playlist whose names and numbers are UTF-8, a request for the lineup is answered with
  status 200 and a JSON document that, read back, has exactly one entry per channel, in
  order: the guide number (the position in the playlist where there is none), the name, and
  the address of the bridge followed by the playback path of the channel's id.
\<close>

theorem lineup_json_decodes:
  assumes "valid_config cfg" and "store_of U srt playlist st"
    and "\<forall>c \<in> set (channels st). valid_utf8 (Name c) \<and> valid_utf8 (Number c)"
    and "rq_path r = ''/lineup.json''" and "rq_method r \<noteq> ''CONNECT''" and "rq_uri r \<noteq> ''*''"
  shows "\<exists>w. serve_http U env txt cfg st r = Some (Some (w, [])) \<and> hr_status w = Some 200 \<and>
    read_json (length (hr_body w)) (hr_body w) =
      Some (lineup_json (map (expected_entry (AdvertisedBaseURL cfg)) (channels st)), nl_text)"
proof -
  let ?base = "AdvertisedBaseURL cfg"
  let ?doc = "lineup_json (map (expected_entry ?base) (channels st))"
  let ?w = "writeJSON ?doc new_response"
  have base: "url_ok ?base" using assms(1) by (simp add: valid_config_def origin_only_def)
  have "serve_http U env txt cfg st r = Some (Some (?w, []))"
    using lineup_route [OF assms(4,5)] assms(6) BuildLineup_expected [OF assms(2,1)]
    by (simp add: serve_http_def run_pattern_def quiet_def GetChannels_def)
  moreover have "hr_status ?w = Some 200" "hr_body ?w = encode_json ?doc @ nl_text"
    by (simp_all add: writeJSON_def write_body_def write_header_def set_header_def new_response_def Let_def)
  moreover have "json_ok ?doc"
  proof -
    have "valid_utf8 (written_origin ?base @ playback_path (ID c))" if "c \<in> set (channels st)" for c
      using written_origin_ascii [OF base] hex_id_ascii [OF store_channels(2) [OF assms(2) that]]
      by (intro valid_utf8_ascii) (simp add: playback_path_def is_ascii_def code_def)
    moreover have "valid_utf8 ''GuideNumber''" "valid_utf8 ''GuideName''" "valid_utf8 ''URL''"
      by (rule valid_utf8_ascii, simp add: is_ascii_def code_def)+
    moreover have "valid_utf8 (itoa i)" for i by (rule valid_utf8_ascii [OF itoa_ascii])
    ultimately show ?thesis
      using assms(3) by (auto simp: lineup_json_def lineup_entry_json_def expected_entry_def)
  qed
  then have "read_json (length (encode_json ?doc @ nl_text)) (encode_json ?doc @ nl_text) = Some (?doc, nl_text)"
    by (intro read_encode_json) (simp_all add: no_digit_def nl_text_def is_digit_def code_def)
  ultimately show ?thesis by auto
qed

subsection \<open>Playing a lineup entry\<close>

lemma client_path_entry:
  assumes "origin_only base" and "hex_id i"
  shows "client_path (written_origin base @ playback_path i) = playback_path i"
proof -
  have "Scheme base = ''http'' \<or> Scheme base = ''https''" using assms(1) by (auto simp: origin_only_def url_ok_def)
  then have s: "str_index ''://'' (written_origin base @ x) = Some (length (Scheme base))" for x
    by (auto simp: written_origin_def has_prefix_Cons)
  have "CHR ''/'' \<notin> set (escape_char EncHost c)" for c
  proof (cases "should_escape EncHost c")
    case True
    have "hex_digit n \<noteq> CHR ''/''" if "n < 16" for n
    proof -
      have "\<forall>n \<in> set [0..<16]. hex_digit n \<noteq> CHR ''/''" by code_simp
      with that show ?thesis by simp
    qed
    moreover have "code c div 16 < 16" by (rule less_mult_imp_div_less) simp
    ultimately show ?thesis using True by (simp add: escape_char_def) (metis mod_less_divisor zero_less_numeral)
  next
    case False
    moreover have "should_escape EncHost CHR ''/''" by code_simp
    ultimately show ?thesis by (auto simp: escape_char_def)
  qed
  then have "CHR ''/'' \<notin> set (escape EncHost h)" for h by (simp add: escape_def)
  then have "dropWhile (\<lambda>c. c \<noteq> CHR ''/'') (escape EncHost h @ playback_path i) = playback_path i" for h
    by (subst dropWhile_append2) (auto simp: playback_path_def)
  then show ?thesis
    using s [of "playback_path i"] by (simp add: client_path_def) (simp add: written_origin_def)
qed

lemma find_distinct_id:
  "distinct (map ID cs) \<Longrightarrow> c \<in> set cs \<Longrightarrow> find (\<lambda>d. ID d = ID c) cs = Some c"
  by (induction cs) (auto dest: imageI [of _ _ ID])

lemma playback_slug: "slice (playback_path i) 6 (length (playback_path i)) = Some (CHR ''v'' # i)"
  by (simp add: playback_path_def go_eval)

definition is_rtsp :: "string \<Rightarrow> bool" where
  "is_rtsp u \<longleftrightarrow> has_prefix ''rtsp://'' u \<or> has_prefix ''rtsps://'' u"

text \<open>What a request for the playback path of a channel does.\<close>

lemma write_body_append: "write_body b (write_body a w) = write_body (a @ b) w"
  by (simp add: write_body_def write_header_def Let_def)

text \<open>A relay without an error has sent the client what it wrote in the end.\<close>

lemma late_response_grows:
  assumes "grows r r'"
  shows "late_response r r' (relay_response r w) = relay_response r' w"
    and "relay_logged r' = relay_logged r @ drop (length (relay_logged r)) (relay_logged r')"
proof -
  obtain ws where "written r' = written r @ ws" using assms by (auto simp: grows_def)
  then show "late_response r r' (relay_response r w) = relay_response r' w"
    using assms by (auto simp: grows_def late_response_def relay_response_def write_body_append of_bytes_append)
  show "relay_logged r' = relay_logged r @ drop (length (relay_logged r)) (relay_logged r')"
    using assms by (auto simp: grows_def)
qed

lemma relay_end_some:
  obtains r' where "relay_end env u d = Some r'" and "grows (r_relay d) r'"
  using late_deliver_total [of UDP u "cw env" "r_late d" "r_relay d"] late_deliver_grows
  by (auto simp: relay_end_def)

text \<open>What a client of a channel's path is answered.\<close>

lemma serve_playback:
  assumes "store_of U srt playlist st" and "c \<in> set (channels st)" and "distinct (map ID (channels st))"
    and "rq_method r \<noteq> ''CONNECT''" and "rq_uri r \<noteq> ''*''" and "rq_path r = playback_path (ID c)"
  shows "serve_http U env txt cfg st r = handle_auto U env txt (channels st) r new_response"
    and "handlePlayback U env (channels st) r new_response =
      (let l = [PlaybackStarted (ID c) (Name c) (StreamURL c)]
       in if is_rtsp (StreamURL c) then
            (case Relay U env (StreamURL c) of
               None \<Rightarrow> None
             | Some None \<Rightarrow> Some None
             | Some (Some d) \<Rightarrow>
                 Some (Some ((relay_response (r_relay d) new_response,
                              l @ map FromRelay (relay_logged (r_relay d))),
                             map_option RelayError (r_error d), Some (StreamURL c, d))))
          else Some (Some ((http_redirect r (StreamURL c) 302
                 (set_header ''Cache-Control'' ''no-store'' new_response), l), None, None)))"
proof -
  note id = store_channels(2,3) [OF assms(1,2)]
  show "serve_http U env txt cfg st r = handle_auto U env txt (channels st) r new_response"
    using playback_route [OF id(1) assms(4,6)] assms(5)
    by (simp add: serve_http_def run_pattern_def GetChannels_def)
  show "handlePlayback U env (channels st) r new_response =
      (let l = [PlaybackStarted (ID c) (Name c) (StreamURL c)]
       in if is_rtsp (StreamURL c) then
            (case Relay U env (StreamURL c) of
               None \<Rightarrow> None
             | Some None \<Rightarrow> Some None
             | Some (Some d) \<Rightarrow>
                 Some (Some ((relay_response (r_relay d) new_response,
                              l @ map FromRelay (relay_logged (r_relay d))),
                             map_option RelayError (r_error d), Some (StreamURL c, d))))
          else Some (Some ((http_redirect r (StreamURL c) 302
                 (set_header ''Cache-Control'' ''no-store'' new_response), l), None, None)))"
    using id(2) unfolding handlePlayback_def assms(6) playback_slug
    by (simp add: find_distinct_id [OF assms(3,2)] is_rtsp_def Let_def Suc_le_eq)
qed

lemma redirect_absolute: "isAllowedStreamURL u \<Longrightarrow> redirect_target p u = u"
  by (auto simp: isAllowedStreamURL_def redirect_target_def split: option.splits)

text \<open>
  C7 A lineup entry plays its channel. Take any playlist whose channels have distinct ids, a
  channel of it and the address the lineup gives for it. A client that asks the bridge for
  the path of that address is played that channel: when its stream is not an RTSP address,
  the answer is a redirect with status 302 to the stream's address, not to be cached, and
  the playback is logged; otherwise the stream is relayed, and what the client is sent is
  what the relay wrote, its flush timers included.
\<close>

theorem lineup_playback:
  assumes "valid_config cfg" and "store_of U srt playlist st" and "distinct (map ID (channels st))"
    and "c \<in> set (channels st)" and "rq_method r \<noteq> ''CONNECT''" and "rq_uri r \<noteq> ''*''"
    and "rq_path r = client_path (EntryURL (lineup_entry_of (AdvertisedBaseURL cfg) c))"
  shows "if \<not> is_rtsp (StreamURL c) then
      \<exists>w. serve_http U env txt cfg st r =
          Some (Some (w, [PlaybackStarted (ID c) (Name c) (StreamURL c)])) \<and>
        hr_status w = Some 302 \<and>
        map_of (hr_headers w) ''Location'' = Some (hexEscapeNonASCII (StreamURL c)) \<and>
        map_of (hr_headers w) ''Cache-Control'' = Some ''no-store''
    else \<forall>d. Relay U env (StreamURL c) = Some (Some d) \<longrightarrow> r_error d = None \<longrightarrow>
      (\<exists>r'. relay_end env (StreamURL c) d = Some r' \<and> (r_late d = [] \<longrightarrow> r' = r_relay d) \<and>
        serve_http U env txt cfg st r =
          Some (Some (relay_response r' new_response,
            PlaybackStarted (ID c) (Name c) (StreamURL c) # map FromRelay (relay_logged r'))))"
proof -
  note ch = store_channels [OF assms(2,4)]
  have base: "origin_only (AdvertisedBaseURL cfg)" using assms(1) by (simp add: valid_config_def)
  have path: "rq_path r = playback_path (ID c)"
    using assms(7) client_path_entry [OF base ch(2)] lineup_entry_url [of _ c, OF base ch(2)] by simp
  note serve = serve_playback [OF assms(2,4,3,5,6) path]
  show ?thesis
  proof (cases "is_rtsp (StreamURL c)")
    case True
    have "\<exists>r'. relay_end env (StreamURL c) d = Some r' \<and> (r_late d = [] \<longrightarrow> r' = r_relay d) \<and>
        serve_http U env txt cfg st r =
          Some (Some (relay_response r' new_response,
            PlaybackStarted (ID c) (Name c) (StreamURL c) # map FromRelay (relay_logged r')))"
      if d: "Relay U env (StreamURL c) = Some (Some d)" "r_error d = None" for d
    proof -
      obtain r' where r': "relay_end env (StreamURL c) d = Some r'" "grows (r_relay d) r'" by (rule relay_end_some)
      have "map FromRelay (relay_logged r') = map FromRelay (relay_logged (r_relay d)) @ late_logs (r_relay d) r'"
        by (subst late_response_grows(2) [OF r'(2)]) (simp add: late_logs_def)
      moreover have "r_late d = [] \<longrightarrow> r' = r_relay d" using r'(1) by (auto simp: relay_end_def)
      ultimately show ?thesis
        using True d r' late_response_grows(1) [OF r'(2)] unfolding serve handle_auto_def by simp
    qed
    with True show ?thesis by simp
  next
    case False
    have "redirect_target (rq_path r) (StreamURL c) = StreamURL c"
      using ch(1) by (intro redirect_absolute) (simp add: channel_ok_def)
    then show ?thesis
      using False unfolding serve(1) handle_auto_def serve(2)
      by (auto simp: http_redirect_def Let_def write_header_def write_body_def set_header_def new_response_def)
  qed
qed

text \<open>
  The scheme of a stream is compared as it is written: an RTSP address in upper case is an
  allowed address, but not one that is relayed.
\<close>

lemma upper_case_rtsp_redirected:
  "isAllowedStreamURL ''RTSP://cam/1'' \<and> \<not> is_rtsp ''RTSP://cam/1''"
  by code_simp

subsection \<open>A failed relay\<close>

lemma http_error_fresh:
  "http_error msg n new_response = \<lparr>hr_status = Some n, hr_headers = [(''Content-Type'', ''text/plain; charset=utf-8''),
     (''X-Content-Type-Options'', ''nosniff'')], hr_body = msg @ nl_text\<rparr>"
  by (simp add: http_error_def write_header_def write_body_def set_header_def del_header_def new_response_def Let_def)

lemma http_error_written:
  "hr_status w \<noteq> None \<Longrightarrow> http_error msg n w = w\<lparr>hr_body := hr_body w @ msg @ nl_text\<rparr>"
  by (auto simp: http_error_def write_header_def write_body_def set_header_def del_header_def Let_def)

lemma relay_response_started:
  assumes "relay_ok r" and "started r"
  shows "relay_response r new_response =
    \<lparr>hr_status = Some 200, hr_headers = stream_headers, hr_body = of_bytes (concat (written r))\<rparr>"
  using assms
  by (simp add: relay_response_def relay_ok_def stream_headers_def write_body_def write_header_def set_header_def
      new_response_def Let_def)

lemma relay_response_written:
  assumes "hr_status w \<noteq> None"
  shows "relay_response r w = (if started r then w\<lparr>hr_body := hr_body w @ of_bytes (concat (written r))\<rparr> else w)"
proof -
  have "fold (\<lambda>(k, v). set_header k v) hs w = w" for hs
    using assms by (induction hs) (auto simp: set_header_def)
  with assms show ?thesis by (auto simp: relay_response_def write_body_def write_header_def Let_def)
qed

text \<open>
  C9 An error page and the media around it. When the relay of a channel returns an error,
  whatever the camera, the network and the client did, the relay itself has sent nothing of the
  stream: unless the callback of a flush timer of the reorder buffer emits a packet after the
  UDP pump has returned, the client gets status 500 and a plain-text body that is exactly the
  error's line, without the headers of a stream; so it does whenever no flush timer runs that
  late. Otherwise the body is the media those callbacks wrote before the page, the error's line
  and the media they wrote after it, under the status and headers of whatever came first.
\<close>

theorem relay_error_clean:
  assumes "store_of U srt playlist st" and "distinct (map ID (channels st))"
    and "c \<in> set (channels st)" and "rq_method r \<noteq> ''CONNECT''" and "rq_uri r \<noteq> ''*''"
    and "rq_path r = playback_path (ID c)" and "is_rtsp (StreamURL c)"
    and "Relay U env (StreamURL c) = Some (Some d)" and "r_error d = Some e"
  shows "\<exists>w l r'. serve_http U env txt cfg st r = Some (Some (w, l)) \<and>
    (late_timers env = [] \<longrightarrow> r_during d = [] \<and> r_late d = []) \<and>
    (r_during d = [] \<and> r_late d = [] \<longrightarrow> hr_status w = Some 500 \<and> hr_body w = txt e @ nl_text \<and>
      map_of (hr_headers w) ''Content-Type'' = Some ''text/plain; charset=utf-8'' \<and>
      map_of (hr_headers w) ''Cache-Control'' = None) \<and>
    relay_end env (StreamURL c) d = Some r' \<and>
    hr_body w = of_bytes (concat (written (r_relay d))) @ txt e @ nl_text @
      of_bytes (concat (drop (length (written (r_relay d))) (written r'))) \<and>
    hr_status w = Some (if started (r_relay d) then 200 else 500) \<and>
    map_of (hr_headers w) ''Content-Type'' =
      Some (if started (r_relay d) then ''video/mp2t'' else ''text/plain; charset=utf-8'')"
proof -
  let ?r = "r_relay d" and ?u = "StreamURL c"
  have clean: "failed_clean env d" by (rule Relay_clean [OF assms(8,9)])
  then have ok: "relay_ok ?r" by (simp add: failed_clean_def)
  obtain r' where r': "relay_end env ?u d = Some r'" "grows ?r r'" by (rule relay_end_some)
  have late: "r_late d = [] \<longrightarrow> r' = ?r" using r'(1) by (auto simp: relay_end_def)
  define w where "w = late_response ?r r' (http_error (txt e) 500 (relay_response ?r new_response))"
  obtain l where l: "serve_http U env txt cfg st r = Some (Some (w, l))"
    using assms(7-9) r'(1) unfolding serve_playback [OF assms(1,3,2,4-6)] handle_auto_def w_def
    by (simp add: error_text_def)
  have ok': "relay_ok r'" using late_deliver_ok [OF _ ok] r'(1) by (simp add: relay_end_def)
  have w: "w = (if started ?r
      then \<lparr>hr_status = Some 200, hr_headers = stream_headers, hr_body = of_bytes (concat (written ?r)) @ txt e @ nl_text @
             of_bytes (concat (drop (length (written ?r)) (written r')))\<rparr>
      else \<lparr>hr_status = Some 500, hr_headers = [(''Content-Type'', ''text/plain; charset=utf-8''),
             (''X-Content-Type-Options'', ''nosniff'')],
             hr_body = txt e @ nl_text @ of_bytes (concat (written r'))\<rparr>)"
  proof (cases "started ?r")
    case True
    with relay_response_started [OF ok] show ?thesis
      by (simp add: w_def late_response_def http_error_written write_body_def write_header_def Let_def)
  next
    case False
    then have "relay_response ?r new_response = new_response" by (simp add: relay_response_def)
    with False ok' show ?thesis
      by (auto simp: w_def late_response_def http_error_fresh relay_response_written relay_ok_def of_bytes_def)
  qed
  have none: "\<not> started ?r \<Longrightarrow> written ?r = []" using ok by (simp add: relay_ok_def)
  have after: "r_during d = [] \<Longrightarrow> r_late d = [] \<Longrightarrow> \<not> started ?r \<and> written r' = []"
    using clean late none by (auto simp: failed_clean_def)
  have hs: "map_of stream_headers ''Content-Type'' = Some ''video/mp2t''" by (simp add: stream_headers_def)
  show ?thesis
    using l r'(1) clean none after hs
    by (intro exI [of _ w] exI [of _ l] exI [of _ r'])
      (simp add: w failed_clean_def, auto simp: of_bytes_def)
qed

subsection \<open>Examples\<close>

definition one_entry :: "string \<Rightarrow> (parsedExtInf \<times> string) list" where
  "one_entry u = [(example_entry ''10'' ''Beta'', u)]"

definition one_store :: "string \<Rightarrow> store" where
  "one_store u = \<lparr>channels = build_channels ascii_only 0 (one_entry u), store_log = []\<rparr>"

lemma one_store_of:
  assumes "isAllowedStreamURL u" and "CHR 0x0A \<notin> set u"
  shows "store_of ascii_only insertion_sort (render_playlist (one_entry u)) (one_store u)"
proof -
  have ok: "entries_ok (one_entry u)"
    using assms example_entry_ok [of "''Beta''" "''10''"]
    by (simp add: entries_ok_def one_entry_def attr_text_def dquote_def)
  have "distinct (map IdentityKey (build_channels ascii_only 0 (one_entry u)))"
    by (simp add: one_entry_def)
  then show ?thesis
    using ParseM3U_distinct [OF ins.slice_sorter_axioms, of ascii_only "render_playlist (one_entry u)"]
      scan_rendered [OF ok, of ascii_only] ins.slice_sorter_axioms
    by (simp add: store_of_def one_store_def) (simp add: one_entry_def)
qed

lemmas http_store = one_store_of [OF example_allowed(1), simplified]
lemmas rtsp_store = one_store_of [OF example_allowed(2), simplified]

lemma one_channel:
  "\<exists>c. channels (one_store u) = [c] \<and> StreamURL c = u \<and> Name c = ''Beta'' \<and> Number c = ''10''"
  by (simp add: one_store_def one_entry_def build_channel_def example_entry_def Let_def)

definition unreachable :: relay_env where
  "unreachable = \<lparr>dial = \<lambda>tls addr name. Inl NetClosed, alive = None, wr = \<lambda>sent m. None, cw = \<lambda>sent m. None,
     rtp_port = \<lambda>n. None, rtcp_free = \<lambda>n. False, udp_events = [], watcher = False, late_timers = [],
     late_finish = 0, late_started = 0, late_return = 0\<rparr>"

lemma unreachable_fails:
  "\<exists>d. Relay ascii_only unreachable ''rtsp://a:554/c'' = Some (Some d) \<and> r_error d = Some (Net NetClosed)"
proof -
  have "map_option Scheme (parse_url ''rtsp://a:554/c'') = Some ''rtsp''" by code_simp
  then show ?thesis
    by (auto simp: Relay_def connectRtspSocket_def unreachable_def fails_def Let_def)
qed

lemma lineup_json_decodes_witness:
  "\<exists>c w. channels (one_store ''http://a/b?x=1'') = [c] \<and>
     serve_http ascii_only unreachable (\<lambda>e. []) example_config (one_store ''http://a/b?x=1'')
       (get ''/lineup.json'') = Some (Some (w, [])) \<and>
     read_json (length (hr_body w)) (hr_body w) =
       Some (lineup_json [expected_entry (AdvertisedBaseURL example_config) c], nl_text)"
proof -
  obtain c where c: "channels (one_store ''http://a/b?x=1'') = [c]" "Name c = ''Beta''" "Number c = ''10''"
    using one_channel [of "''http://a/b?x=1''"] by blast
  have utf8: "valid_utf8 ''Beta''" "valid_utf8 ''10''"
    by (rule valid_utf8_ascii, simp add: is_ascii_def code_def)+
  have "\<forall>d \<in> set (channels (one_store ''http://a/b?x=1'')). valid_utf8 (Name d) \<and> valid_utf8 (Number d)"
    using utf8 c by simp
  from lineup_json_decodes [OF example_valid http_store this, of "get ''/lineup.json''" unreachable "\<lambda>e. []"]
  show ?thesis using c(1) by (auto simp: get_def)
qed

lemma client_path_not_star: "client_path u \<noteq> ''*''"
  by (auto simp: client_path_def dropWhile_eq_Cons_conv split: option.splits)

lemma lineup_playback_witness:
  "\<exists>c w. channels (one_store ''http://a/b?x=1'') = [c] \<and>
     serve_http ascii_only unreachable (\<lambda>e. []) example_config (one_store ''http://a/b?x=1'')
       (get (client_path (EntryURL (lineup_entry_of (AdvertisedBaseURL example_config) c)))) = Some (Some w) \<and>
     map_of (hr_headers (fst w)) ''Location'' = Some ''http://a/b?x=1''"
proof -
  obtain c where c: "channels (one_store ''http://a/b?x=1'') = [c]" "StreamURL c = ''http://a/b?x=1''"
    using one_channel [of "''http://a/b?x=1''"] by blast
  then have one: "distinct (map ID (channels (one_store ''http://a/b?x=1'')))"
    "c \<in> set (channels (one_store ''http://a/b?x=1''))" by simp_all
  have "hexEscapeNonASCII ''http://a/b?x=1'' = ''http://a/b?x=1''" "\<not> is_rtsp ''http://a/b?x=1''"
    by code_simp+
  then show ?thesis
    using lineup_playback [OF example_valid http_store one,
        of "get (client_path (EntryURL (lineup_entry_of (AdvertisedBaseURL example_config) c)))" unreachable "\<lambda>e. []"] c
    by (auto simp: get_def client_path_not_star)
qed

lemma relay_error_clean_witness:
  "\<exists>c w l. channels (one_store ''rtsp://a:554/c'') = [c] \<and>
     serve_http ascii_only unreachable (\<lambda>e. ''gone'') example_config (one_store ''rtsp://a:554/c'')
       (get (playback_path (ID c))) = Some (Some (w, l)) \<and>
     hr_status w = Some 500 \<and> hr_body w = ''gone'' @ nl_text"
proof -
  obtain c where c: "channels (one_store ''rtsp://a:554/c'') = [c]" "StreamURL c = ''rtsp://a:554/c''"
    using one_channel [of "''rtsp://a:554/c''"] by blast
  then have one: "distinct (map ID (channels (one_store ''rtsp://a:554/c'')))"
    "c \<in> set (channels (one_store ''rtsp://a:554/c''))" by simp_all
  obtain d where d: "Relay ascii_only unreachable (StreamURL c) = Some (Some d)"
    "r_error d = Some (Net NetClosed)" using unreachable_fails c(2) by auto
  have "is_rtsp (StreamURL c)" "late_timers unreachable = []"
    unfolding c(2) by code_simp (simp add: unreachable_def)
  moreover have "playback_path (ID c) \<noteq> ''*''" by (simp add: playback_path_def)
  ultimately show ?thesis
    using relay_error_clean [OF rtsp_store one, of "get (playback_path (ID c))", OF _ _ _ _ d,
        of "\<lambda>e. ''gone''" example_config] c
    by (auto simp: get_def)
qed

end
