(* ===== verification/Logger.thy ===== *)
theory Logger
  imports Go_Json "HOL-Library.List_Lexorder" "HOL-Library.Char_ord"
begin

text \<open>
  internal/logging/logger.go: the log lines and the ring of the last ones. A context of the
  type \<open>any\<close> is a value of \<open>goval\<close>; what encoding/json makes of a value the logger does
  not look into is part of that value. Text is sanitised byte by byte: the delimiters of the
  pattern are ASCII, so it never cuts a rune of several bytes.
\<close>

subsection \<open>Addresses in text\<close>

definition playbackStartedMessage :: string where
  "playbackStartedMessage = ''channel playback started''"

text \<open>The class \<open>[^\s"'<>]\<close> of \<open>urlInTextPattern\<close>.\<close>

definition url_char :: "char \<Rightarrow> bool" where
  "url_char c \<longleftrightarrow> c \<notin> {CHR '' '', CHR 0x09, CHR 0x0A, CHR 0x0C, CHR 0x0D, CHR 0x22, CHR 0x27, CHR ''<'', CHR ''>''}"

text \<open>The match of the pattern that starts at the front of a text.\<close>

definition url_match :: "string \<Rightarrow> string option" where
  "url_match s =
     (let n = (if has_prefix ''http://'' s then 7 else if has_prefix ''https://'' s then 8 else 0);
          body = takeWhile url_char (drop n s)
      in if n = 0 \<or> body = [] then None else Some (take n s @ body))"

definition without_secrets :: "url \<Rightarrow> url" where
  "without_secrets u = u\<lparr>User := None, RawQuery := [], Fragment := []\<rparr>"

definition sanitize_candidate :: "string \<Rightarrow> string" where
  "sanitize_candidate candidate =
     (case parse_url candidate of
        None \<Rightarrow> fst (cut (CHR ''#'') (fst (cut (CHR ''?'') candidate)))
      | Some u \<Rightarrow> url_string (without_secrets u))"

lemma url_match_Some:
  assumes "url_match s = Some m"
  obtains r where "m \<noteq> []" "s = m @ r"
proof -
  obtain n where "m = take n s @ takeWhile url_char (drop n s)" "takeWhile url_char (drop n s) \<noteq> []"
    using assms by (auto simp: url_match_def Let_def split: if_splits)
  moreover have "s = take n s @ takeWhile url_char (drop n s) @ dropWhile url_char (drop n s)"
    by (simp only: takeWhile_dropWhile_id append_take_drop_id)
  ultimately show thesis by (intro that [of "dropWhile url_char (drop n s)"]) (simp_all only: append_assoc append_is_Nil_conv simp_thms)
qed

function sanitizeURLText :: "string \<Rightarrow> string" where
  "sanitizeURLText [] = []"
| "sanitizeURLText (c # s) =
     (case url_match (c # s) of
        None \<Rightarrow> c # sanitizeURLText s
      | Some m \<Rightarrow> sanitize_candidate m @ sanitizeURLText (drop (length m) (c # s)))"
  by pat_completeness auto
termination
proof (relation "measure length")
  fix c s m
  assume "url_match (c # s) = Some m"
  then show "(drop (length m) (c # s), c # s) \<in> measure length"
    by (auto elim: url_match_Some)
qed simp_all

declare sanitizeURLText.simps(2) [simp del]

subsection \<open>Contexts\<close>

text \<open>
  A value of the type \<open>any\<close>. A map has each key once; its order does not matter, because
  encoding/json sorts the keys. For a URL, an error and a value of another type, the last
  argument is what encoding/json makes of its fields, \<open>None\<close> where it returns an error.
\<close>

datatype goval =
    GNil
  | GString string
  | GUrl "url option" "json option"
  | GMap "(string \<times> goval) list"
  | GError string "json option"
  | GList "goval list"
  | GOther "json option"

fun sanitizeValue :: "bool \<Rightarrow> goval \<Rightarrow> goval" where
  "sanitizeValue preserveUpstreamURL (GString s) = GString (sanitizeURLText s)"
| "sanitizeValue preserveUpstreamURL (GUrl u j) =
     (case u of None \<Rightarrow> GNil | Some v \<Rightarrow> GString (url_string (without_secrets v)))"
| "sanitizeValue preserveUpstreamURL (GMap entries) =
     GMap (map (\<lambda>(key, entry).
       (key, if preserveUpstreamURL \<and> key = ''upstreamUrl'' then entry
             else sanitizeValue preserveUpstreamURL entry)) entries)"
| "sanitizeValue preserveUpstreamURL (GError s j) =
     GMap [(''name'', GString ''Error''), (''message'', GString (sanitizeURLText s))]"
| "sanitizeValue preserveUpstreamURL (GList entries) =
     GList (map (sanitizeValue preserveUpstreamURL) entries)"
| "sanitizeValue preserveUpstreamURL v = v"

text \<open>What \<open>json.Marshal\<close> makes of a value; \<open>None\<close> is its error.\<close>

fun marshal :: "goval \<Rightarrow> json option" where
  "marshal GNil = Some JNull"
| "marshal (GString s) = Some (JString s)"
| "marshal (GUrl u j) = (if u = None then Some JNull else j)"
| "marshal (GMap entries) =
     map_option (\<lambda>ms. JObject (sort_key fst ms))
       (those (map (\<lambda>(key, entry). map_option (Pair key) (marshal entry)) entries))"
| "marshal (GError s j) = j"
| "marshal (GList entries) = map_option JList (those (map marshal entries))"
| "marshal (GOther j) = j"

definition formatLogLine :: "string \<Rightarrow> goval \<Rightarrow> string" where
  "formatLogLine message context =
     (if context = GNil then sanitizeURLText message
      else case marshal (sanitizeValue (message = playbackStartedMessage) context) of
             None \<Rightarrow> sanitizeURLText message
           | Some encoded \<Rightarrow> sanitizeURLText message @ '' '' @ encode_json encoded)"

subsection \<open>The logger\<close>

text \<open>\<open>printed\<close> are the lines of the standard output. \<open>log_append\<close> is one critical section.\<close>

record logger =
  Sink :: "string list"
  printed :: "string list"

definition New :: logger where
  "New = \<lparr>Sink = [], printed = []\<rparr>"

definition log_append :: "string \<Rightarrow> logger \<Rightarrow> logger" where
  "log_append line l =
     (let s = Sink l @ [line]
      in \<lparr>Sink = (if 200 < length s then drop (length s - 200) s else s), printed = printed l @ [line]\<rparr>)"

definition Info :: "string \<Rightarrow> goval \<Rightarrow> logger \<Rightarrow> logger" where
  "Info message context l = log_append (formatLogLine message context) l"

definition Warn :: "string \<Rightarrow> goval \<Rightarrow> logger \<Rightarrow> logger" where
  "Warn message context l = log_append (formatLogLine message context) l"

definition Error :: "string \<Rightarrow> goval \<Rightarrow> logger \<Rightarrow> logger" where
  "Error message context l = log_append (formatLogLine message context) l"

datatype log_event = LogInfo string goval | LogWarn string goval | LogError string goval

fun log_call :: "log_event \<Rightarrow> logger \<Rightarrow> logger" where
  "log_call (LogInfo m c) l = Info m c l"
| "log_call (LogWarn m c) l = Warn m c l"
| "log_call (LogError m c) l = Error m c l"

end
