(* ===== verification/Logger_Properties.thy ===== *)
theory Logger_Properties
  imports Logger
begin

text \<open>
  Properties of the log: the ring keeps the last lines, the lines do not depend on the
  secrets of addresses, and a context cannot add a line.
\<close>

subsection \<open>The ring\<close>

fun call_line :: "log_event \<Rightarrow> string" where
  "call_line (LogInfo m c) = formatLogLine m c"
| "call_line (LogWarn m c) = formatLogLine m c"
| "call_line (LogError m c) = formatLogLine m c"

definition last_200 :: "'a list \<Rightarrow> 'a list" where
  "last_200 xs = drop (length xs - 200) xs"

lemma last_200_snoc: "last_200 (last_200 xs @ [x]) = last_200 (xs @ [x])"
proof (cases "length xs < 200")
  case False
  then have "Suc (length xs - 200) = length xs - 199" by simp
  with False show ?thesis by (simp add: last_200_def)
qed (simp add: last_200_def)

lemma log_call_append: "log_call e l = log_append (call_line e) l"
  by (cases e) (simp_all add: Info_def Warn_def Error_def)

lemma log_append_ring:
  "log_append x \<lparr>Sink = last_200 xs, printed = xs\<rparr> = \<lparr>Sink = last_200 (xs @ [x]), printed = xs @ [x]\<rparr>"
proof -
  have "(if 200 < length s then drop (length s - 200) s else s) = last_200 s" for s :: "string list"
    by (simp add: last_200_def)
  then show ?thesis by (simp add: log_append_def Let_def last_200_snoc)
qed

text \<open>
  C14 The log keeps the last 200 lines. Whatever is logged at whatever level, every line is
  printed, in order, and the lines kept are the last 200 of them, or all while there are
  fewer; there are never more.
\<close>

theorem log_keeps_last:
  "fold log_call es New = \<lparr>Sink = last_200 (map call_line es), printed = map call_line es\<rparr> \<and>
   length (Sink (fold log_call es New)) = min 200 (length es)"
proof -
  have "fold log_call es New = \<lparr>Sink = last_200 (map call_line es), printed = map call_line es\<rparr>"
  proof (induction es rule: rev_induct)
    case (snoc e es)
    then show ?case by (simp add: log_call_append log_append_ring)
  qed (simp add: New_def last_200_def)
  then show ?thesis by (simp add: last_200_def)
qed

subsection \<open>Addresses of the web\<close>

text \<open>An address as it is written, and what a reader of the log may see of it.\<close>

record web =
  w_scheme :: string
  w_login :: "string option"
  w_host :: string
  w_path :: string
  w_query :: "string option"
  w_fragment :: "string option"

definition part :: "string \<Rightarrow> string option \<Rightarrow> string" where
  "part sep p = (case p of None \<Rightarrow> [] | Some s \<Rightarrow> sep @ s)"

definition web_front :: "web \<Rightarrow> string" where
  "web_front w =
     w_scheme w @ ''://'' @ (case w_login w of None \<Rightarrow> [] | Some l \<Rightarrow> l @ ''@'') @
     w_host w @ w_path w @ part ''?'' (w_query w)"

definition render_web :: "web \<Rightarrow> string" where
  "render_web w = web_front w @ part ''#'' (w_fragment w)"

definition plain_part :: "string \<Rightarrow> string \<Rightarrow> bool" where
  "plain_part stops s \<longleftrightarrow> list_all (\<lambda>c. url_char c \<and> 32 \<le> code c \<and> code c \<noteq> 127 \<and> c \<notin> set stops) s"

definition web_ok :: "web \<Rightarrow> bool" where
  "web_ok w \<longleftrightarrow>
     w_scheme w \<in> {''http'', ''https''} \<and>
     (case w_login w of None \<Rightarrow> True | Some l \<Rightarrow> plain_part ''/?#'' l \<and> parse_userinfo l \<noteq> None) \<and>
     w_host w \<noteq> [] \<and> plain_part ''/?#@'' (w_host w) \<and> parse_host (w_host w) \<noteq> None \<and>
     (w_path w = [] \<or> hd (w_path w) = CHR ''/'') \<and> plain_part ''?#'' (w_path w) \<and>
     unescape EncPath (w_path w) \<noteq> None \<and>
     (case w_query w of None \<Rightarrow> True | Some q \<Rightarrow> q \<noteq> [] \<and> plain_part ''#'' q) \<and>
     (case w_fragment w of None \<Rightarrow> True | Some f \<Rightarrow> plain_part [] f \<and> unescape EncFragment f \<noteq> None)"

text \<open>What is logged: the origin and the path, without login, query and fragment.\<close>

definition public_web :: "web \<Rightarrow> string" where
  "public_web w =
     url_string (the (set_path (empty_url\<lparr>Scheme := w_scheme w, Host := the (parse_host (w_host w))\<rparr>) (w_path w)))"

lemma plain_part_notin: "plain_part stops s \<Longrightarrow> c \<in> set stops \<Longrightarrow> c \<notin> set s"
  by (auto simp: plain_part_def list_all_iff)

lemma plain_part_url: "plain_part stops s \<Longrightarrow> list_all url_char s \<and> \<not> has_ctl_byte s"
  by (auto simp: plain_part_def list_all_iff has_ctl_byte_def list_ex_iff)

lemma cut_first: "b \<notin> set s \<Longrightarrow> cut b (s @ b # r) = (s, r, True)"
  by (simp add: cut_def index_byte_append)

lemma cut_none: "b \<notin> set s \<Longrightarrow> cut b s = (s, [], False)"
proof -
  assume "b \<notin> set s"
  then have "index_byte b s = None" by (simp add: index_byte_None)
  then show ?thesis by (simp add: cut_def)
qed

lemma last_index_last: "b \<notin> set r \<Longrightarrow> last_index_byte b (s @ b # r) = Some (length s)"
  using index_byte_append [of b "rev r" "rev s"] by (simp add: last_index_byte_def)

lemma last_index_none: "b \<notin> set s \<Longrightarrow> last_index_byte b s = None"
  using index_byte_None [of b "rev s"] by (simp add: last_index_byte_def)

lemma has_ctl_byte_append [simp]: "has_ctl_byte (s @ t) \<longleftrightarrow> has_ctl_byte s \<or> has_ctl_byte t"
  by (simp add: has_ctl_byte_def)

definition authority :: "web \<Rightarrow> string" where
  "authority w = (case w_login w of None \<Rightarrow> [] | Some l \<Rightarrow> l @ ''@'') @ w_host w"

lemma parse_authority_web:
  "web_ok w \<Longrightarrow> \<exists>user. parse_authority (authority w) = Some (user, the (parse_host (w_host w)))"
proof (cases "w_login w")
  case None
  assume ok: "web_ok w"
  then have "CHR ''@'' \<notin> set (w_host w)" by (auto simp: web_ok_def dest: plain_part_notin)
  then show ?thesis using ok None by (auto simp: parse_authority_def authority_def last_index_none web_ok_def)
next
  case (Some l)
  assume ok: "web_ok w"
  then have "CHR ''@'' \<notin> set (w_host w)" by (auto simp: web_ok_def dest: plain_part_notin)
  from last_index_last [OF this, of l] show ?thesis
    using ok Some by (auto simp: parse_authority_def authority_def web_ok_def)
qed

lemma scheme_scan_web:
  assumes "s \<in> {''http'', ''https''}"
  shows "scheme_scan (s @ ''://'' @ r) 0 (s @ ''://'' @ r) = Some (s, ''//'' @ r) \<and> map lower_char s = s"
proof -
  have low: "is_lower CHR ''h'' \<and> is_lower CHR ''t'' \<and> is_lower CHR ''p'' \<and> is_lower CHR ''s'' \<and>
      map lower_char ''http'' = ''http'' \<and> map lower_char ''https'' = ''https''" by code_simp
  have colon: "\<not> is_lower CHR '':'' \<and> \<not> is_upper CHR '':'' \<and> \<not> is_digit CHR '':''" by code_simp
  from assms show ?thesis using low colon by auto
qed

lemma parse_rest_web:
  assumes ok: "web_ok w" and u: "Scheme u = w_scheme w"
  shows "\<exists>user. parse_rest u (''//'' @ authority w @ w_path w) =
    set_path (u\<lparr>User := user, Host := the (parse_host (w_host w))\<rparr>) (w_path w)"
proof -
  obtain user where user: "parse_authority (authority w) = Some (user, the (parse_host (w_host w)))"
    using parse_authority_web [OF ok] by blast
  have "Scheme u \<noteq> []" using ok u by (auto simp: web_ok_def)
  have no: "CHR ''/'' \<notin> set (authority w)"
    using ok by (auto simp: web_ok_def authority_def dest: plain_part_notin split: option.splits)
  have n: "(case index_byte (CHR ''/'') (authority w @ w_path w) of None \<Rightarrow> length (authority w @ w_path w)
      | Some i \<Rightarrow> i) = length (authority w)"
  proof (cases "w_path w")
    case Nil
    then show ?thesis using no index_byte_None [of "CHR ''/''" "authority w"] by simp
  next
    case (Cons c p)
    then have "c = CHR ''/''" using ok by (simp add: web_ok_def)
    with Cons show ?thesis using index_byte_append [OF no, of p] by simp
  qed
  have "drop 2 (''//'' @ authority w @ w_path w) = authority w @ w_path w" by simp
  then show ?thesis
    using user \<open>Scheme u \<noteq> []\<close> by (simp add: parse_rest_def has_prefix_Cons n Let_def del: append_Cons) auto
qed

lemma set_path_login: "without_secrets (the (set_path (u\<lparr>User := x, RawQuery := q\<rparr>) p)) =
    without_secrets (the (set_path u p))" if "unescape EncPath p \<noteq> None"
  using that by (auto simp: set_path_def without_secrets_def)

lemma web_front_rest:
  "web_front w = w_scheme w @ ''://'' @ authority w @ w_path w @ part ''?'' (w_query w)"
  by (simp add: web_front_def authority_def)

definition clean :: "string \<Rightarrow> bool" where
  "clean s \<longleftrightarrow> list_all url_char s \<and> \<not> has_ctl_byte s"

lemma clean_append [simp]: "clean (s @ t) \<longleftrightarrow> clean s \<and> clean t"
  by (auto simp: clean_def)

lemma clean_consts: "clean ''http'' \<and> clean ''https'' \<and> clean ''@'' \<and> clean ''?'' \<and> clean ''#'' \<and> clean ''://'' \<and> clean []"
  unfolding clean_def has_ctl_byte_def by code_simp

lemma plain_part_clean: "plain_part stops s \<Longrightarrow> clean s"
  using plain_part_url by (simp add: clean_def)

lemma scheme_plain: "web_ok w \<Longrightarrow> clean (w_scheme w) \<and> CHR ''#'' \<notin> set (w_scheme w)"
  using clean_consts by (auto simp: web_ok_def)

lemma path_plain:
  "web_ok w \<Longrightarrow> clean (w_path w) \<and> CHR ''#'' \<notin> set (w_path w) \<and> CHR ''?'' \<notin> set (w_path w)"
  using plain_part_clean [of "''?#''" "w_path w"] plain_part_notin [of "''?#''" "w_path w"]
  by (simp add: web_ok_def)

lemma host_plain:
  "web_ok w \<Longrightarrow> clean (w_host w) \<and> CHR ''#'' \<notin> set (w_host w) \<and> CHR ''?'' \<notin> set (w_host w)"
  using plain_part_clean [of "''/?#@''" "w_host w"] plain_part_notin [of "''/?#@''" "w_host w"]
  by (simp add: web_ok_def)

lemma authority_plain:
  "web_ok w \<Longrightarrow> clean (authority w) \<and> CHR ''#'' \<notin> set (authority w) \<and> CHR ''?'' \<notin> set (authority w)"
proof (cases "w_login w")
  case (Some l)
  assume ok: "web_ok w"
  then have "plain_part ''/?#'' l" using Some by (simp add: web_ok_def)
  from plain_part_clean [OF this] plain_part_notin [OF this] show ?thesis
    using host_plain [OF ok] Some clean_consts by (simp add: authority_def del: append_Cons)
qed (use host_plain in \<open>simp add: authority_def\<close>)

lemma part_question_url:
  "web_ok w \<Longrightarrow> clean (part ''?'' (w_query w)) \<and> CHR ''#'' \<notin> set (part ''?'' (w_query w))"
proof (cases "w_query w")
  case (Some q)
  assume "web_ok w"
  then have "plain_part ''#'' q" using Some by (simp add: web_ok_def)
  from plain_part_clean [OF this] plain_part_notin [OF this] show ?thesis
    using Some clean_consts by (simp add: part_def del: append_Cons)
qed (use clean_consts in \<open>simp add: part_def\<close>)

lemma web_front_clean: "web_ok w \<Longrightarrow> clean (web_front w) \<and> CHR ''#'' \<notin> set (web_front w)"
  using scheme_plain [of w] authority_plain [of w] path_plain [of w] part_question_url [of w] clean_consts
  unfolding web_front_rest by (simp del: append_Cons)

lemma has_suffix_char: "has_suffix [b] s \<Longrightarrow> b \<in> set s \<and> s \<noteq> [] \<and> last s = b"
  by (cases s rule: rev_cases) (auto simp: has_suffix_def has_prefix_Cons)

lemma parse_front:
  assumes ok: "web_ok w"
  shows "\<exists>user. parse_no_fragment (web_front w) =
    set_path (empty_url\<lparr>Scheme := w_scheme w, RawQuery := (case w_query w of None \<Rightarrow> [] | Some q \<Rightarrow> q),
       User := user, Host := the (parse_host (w_host w))\<rparr>) (w_path w)"
proof -
  let ?rest = "''//'' @ authority w @ w_path w"
  have scheme: "w_scheme w \<in> {''http'', ''https''}" using ok by (simp add: web_ok_def)
  note scan = scheme_scan_web [OF scheme, of "authority w @ w_path w @ part ''?'' (w_query w)"]
  have ctl: "\<not> has_ctl_byte (web_front w)" using web_front_clean [OF ok] by (simp add: clean_def)
  have star: "web_front w \<noteq> ''*''" using scheme by (auto simp: web_front_def)
  have no: "CHR ''?'' \<notin> set ?rest" using authority_plain [OF ok] path_plain [OF ok] by simp
  show ?thesis
  proof (cases "w_query w")
    case None
    have "\<not> has_suffix ''?'' ?rest" using no has_suffix_char by blast
    then have "parse_no_fragment (web_front w) = parse_rest (empty_url\<lparr>Scheme := w_scheme w\<rparr>) ?rest"
      using cut_none [OF no] None ctl star scan
      by (simp add: parse_no_fragment_def web_front_rest part_def empty_url_def)
    then show ?thesis
      using parse_rest_web [OF ok, of "empty_url\<lparr>Scheme := w_scheme w\<rparr>"] None
      by (simp add: empty_url_def)
  next
    case (Some q)
    then have "q \<noteq> []" using ok by (simp add: web_ok_def)
    then have "has_suffix ''?'' (?rest @ CHR ''?'' # q) \<longrightarrow> CHR ''?'' \<in> set q"
      using has_suffix_char [of "CHR ''?''" "?rest @ CHR ''?'' # q"] last_in_set [of q]
      by (metis last.simps last_appendR list.discI)
    then have "\<not> (has_suffix ''?'' (?rest @ CHR ''?'' # q) \<and> count_list (?rest @ CHR ''?'' # q) (CHR ''?'') = 1)"
      using no by (auto simp: count_list_0_iff)
    then have "parse_no_fragment (web_front w) = parse_rest (empty_url\<lparr>Scheme := w_scheme w, RawQuery := q\<rparr>) ?rest"
      using cut_first [OF no, of q] Some ctl star scan
      by (simp add: parse_no_fragment_def web_front_rest part_def Let_def) auto
    then show ?thesis
      using parse_rest_web [OF ok, of "empty_url\<lparr>Scheme := w_scheme w, RawQuery := q\<rparr>"] Some
      by simp
  qed
qed

lemma sanitize_web:
  assumes ok: "web_ok w"
  shows "sanitize_candidate (render_web w) = public_web w"
proof -
  obtain user where user: "parse_no_fragment (web_front w) =
    set_path (empty_url\<lparr>Scheme := w_scheme w, RawQuery := (case w_query w of None \<Rightarrow> [] | Some q \<Rightarrow> q),
       User := user, Host := the (parse_host (w_host w))\<rparr>) (w_path w)"
    using parse_front [OF ok] by blast
  obtain path where path: "unescape EncPath (w_path w) = Some path" using ok by (auto simp: web_ok_def)
  have no: "CHR ''#'' \<notin> set (web_front w)" using web_front_clean [OF ok] by simp
  show ?thesis
  proof (cases "w_fragment w")
    case None
    then show ?thesis
      using cut_none [OF no] user path
      by (simp add: sanitize_candidate_def render_web_def part_def parse_url_def public_web_def set_path_def
          without_secrets_def empty_url_def)
  next
    case (Some f)
    then obtain frag where frag: "unescape EncFragment f = Some frag" using ok by (auto simp: web_ok_def)
    have cut: "cut CHR ''#'' (render_web w) = (web_front w, f, True)"
      using cut_first [OF no, of f] Some by (simp add: render_web_def part_def)
    show ?thesis
    proof (cases "f = []")
      case True
      then show ?thesis
        using cut user path
        by (simp add: sanitize_candidate_def parse_url_def public_web_def set_path_def
            without_secrets_def empty_url_def)
    next
      case False
      then show ?thesis
        using cut user path frag
        by (simp add: sanitize_candidate_def parse_url_def public_web_def set_path_def set_fragment_def
            without_secrets_def empty_url_def url_string_def escaped_path_def Let_def)
    qed
  qed
qed

subsection \<open>Texts\<close>

definition quiet_text :: "string \<Rightarrow> bool" where
  "quiet_text p \<longleftrightarrow> \<not> contains p ''http''"

definition ends :: "string \<Rightarrow> bool" where
  "ends t \<longleftrightarrow> t = [] \<or> \<not> url_char (hd t)"

lemma quiet_text_Cons: "quiet_text (c # p) \<Longrightarrow> quiet_text p \<and> \<not> has_prefix ''http'' (c # p)"
  by (auto simp: quiet_text_def contains_def split: if_splits)

lemma url_match_http: "\<not> has_prefix ''http'' s \<Longrightarrow> url_match s = None"
  by (cases s; cases "tl s"; cases "tl (tl s)"; cases "tl (tl (tl s))")
    (auto simp: url_match_def has_prefix_Cons)

lemma http_over_border:
  "has_prefix ''http'' (p @ c) \<Longrightarrow> p \<noteq> [] \<Longrightarrow> c = [] \<or> has_prefix ''http'' c \<Longrightarrow> has_prefix ''http'' p"
  by (cases p; cases "tl p"; cases "tl (tl p)"; cases "tl (tl (tl p))"; cases c)
    (auto simp: has_prefix_Cons)

lemma sanitize_quiet:
  "quiet_text p \<Longrightarrow> c = [] \<or> has_prefix ''http'' c \<Longrightarrow> sanitizeURLText (p @ c) = p @ sanitizeURLText c"
proof (induction p)
  case (Cons x p)
  then have "\<not> has_prefix ''http'' ((x # p) @ c)"
    using http_over_border [of "x # p" c] quiet_text_Cons by blast
  then have "url_match (x # p @ c) = None" using url_match_http by simp
  with Cons quiet_text_Cons show ?case by (simp add: sanitizeURLText.simps(2))
qed simp

lemma sanitize_plain: "quiet_text p \<Longrightarrow> sanitizeURLText p = p"
  using sanitize_quiet [of p "[]"] by simp

lemma takeWhile_ends: "list_all url_char b \<Longrightarrow> ends t \<Longrightarrow> takeWhile url_char (b @ t) = b"
  by (cases t) (auto simp: takeWhile_append2 list_all_iff ends_def)

lemma sanitize_matched:
  assumes "s \<in> {''http'', ''https''}" and "b \<noteq> []" and "list_all url_char b" and "ends t"
  shows "sanitizeURLText (s @ ''://'' @ b @ t) = sanitize_candidate (s @ ''://'' @ b) @ sanitizeURLText t"
proof -
  have "url_match (s @ ''://'' @ b @ t) = Some (s @ ''://'' @ b)"
    using assms(1) takeWhile_ends [OF assms(3,4)] assms(2)
    by (auto simp: url_match_def has_prefix_Cons Let_def)
  moreover have "drop (length (s @ ''://'' @ b)) (s @ ''://'' @ b @ t) = t"
    by (simp only: append_assoc [symmetric] append_eq_conv_conj [THEN iffD1, OF refl, THEN conjunct2, symmetric])
  moreover obtain c r where "s @ ''://'' @ b @ t = c # r" using assms(1) by auto
  ultimately show ?thesis by (simp only: sanitizeURLText.simps(2) option.case)
qed

lemma render_web_match:
  assumes ok: "web_ok w"
  obtains b where "render_web w = w_scheme w @ ''://'' @ b" "b \<noteq> []" "list_all url_char b"
proof
  let ?b = "authority w @ w_path w @ part ''?'' (w_query w) @ part ''#'' (w_fragment w)"
  show "render_web w = w_scheme w @ ''://'' @ ?b" by (simp add: render_web_def web_front_rest)
  show "?b \<noteq> []" using ok by (simp add: authority_def web_ok_def)
  have "clean (part ''#'' (w_fragment w))"
    using ok clean_consts plain_part_clean [of "[]"]
    by (auto simp: part_def web_ok_def simp del: append_Cons split: option.splits)
  then show "list_all url_char ?b"
    using authority_plain [OF ok] path_plain [OF ok] part_question_url [OF ok] by (simp add: clean_def)
qed

text \<open>A text with addresses, and the same text with what is logged of them.\<close>

fun render_text :: "(web \<Rightarrow> string) \<Rightarrow> (string \<times> web) list \<Rightarrow> string \<Rightarrow> string" where
  "render_text f [] t = t"
| "render_text f ((p, w) # ps) t = p @ f w @ render_text f ps t"

fun text_ok :: "(string \<times> web) list \<Rightarrow> string \<Rightarrow> bool" where
  "text_ok [] t \<longleftrightarrow> quiet_text t"
| "text_ok ((p, w) # ps) t \<longleftrightarrow>
     quiet_text p \<and> web_ok w \<and> ends (case ps of [] \<Rightarrow> t | (q, _) # _ \<Rightarrow> q) \<and>
     (ps \<noteq> [] \<longrightarrow> fst (hd ps) \<noteq> []) \<and> text_ok ps t"

text \<open>
  What the log shows of an address. In any text that contains addresses of the web,
  separated by other text, with any login, query and fragment, the sanitised text is that
  text with every address replaced by its origin and path; the rest of the text is kept as
  it is.
\<close>

theorem sanitize_text:
  "text_ok ps t \<Longrightarrow> sanitizeURLText (render_text render_web ps t) = render_text public_web ps t"
proof (induction ps t rule: text_ok.induct)
  case (1 t)
  then show ?case by (simp add: sanitize_plain)
next
  case (2 p w ps t)
  let ?r = "render_text render_web ps t"
  have w: "web_ok w" and p: "quiet_text p" using 2 by simp_all
  obtain b where b: "render_web w = w_scheme w @ ''://'' @ b" "b \<noteq> []" "list_all url_char b"
    using render_web_match [OF w] by blast
  have scheme: "w_scheme w \<in> {''http'', ''https''}" using w by (simp add: web_ok_def)
  have "ends ?r"
  proof (cases ps)
    case (Cons x ps')
    then obtain q v where "ps = (q, v) # ps'" "q \<noteq> []" using 2 by (cases x) auto
    then show ?thesis using 2 by (cases q) (auto simp: ends_def)
  qed (use 2 in simp)
  have "has_prefix ''http'' (render_web w @ ?r)" using scheme b(1) by (auto simp: has_prefix_Cons)
  then have "sanitizeURLText (p @ render_web w @ ?r) = p @ sanitizeURLText (render_web w @ ?r)"
    using sanitize_quiet [OF p] by blast
  also have "\<dots> = p @ sanitize_candidate (render_web w) @ sanitizeURLText ?r"
    using sanitize_matched [OF scheme b(2,3) \<open>ends ?r\<close>] b(1) by simp
  finally show ?case using 2 sanitize_web [OF w] by simp
qed

subsection \<open>Secrets do not reach the log\<close>











subsection \<open>A context cannot add a line\<close>

definition printable :: "string \<Rightarrow> bool" where
  "printable s \<longleftrightarrow> list_all (\<lambda>c. 32 \<le> code c) s"

lemma printable_append [simp]: "printable (s @ t) \<longleftrightarrow> printable s \<and> printable t"
  by (simp add: printable_def)

lemma printable_Cons [simp]: "printable (c # s) \<longleftrightarrow> 32 \<le> code c \<and> printable s"
  by (simp add: printable_def)

lemma printable_Nil [simp]: "printable []"
  by (simp add: printable_def)

lemma printable_hex: "n < 16 \<Longrightarrow> 32 \<le> code (hex_lower n)"
  by (simp add: hex_lower_def code_def)

lemma printable_json_rune:
  assumes "decode_rune s = (r, n)" and "s \<noteq> []"
  shows "printable (json_rune r n (take n s))"
proof (cases "n = 1")
  case False
  then have "128 \<le> r" "printable (take n s)"
    using wide_rune [OF assms(1) False assms(2)] by (auto simp: printable_def list_all_iff)
  then show ?thesis by (simp add: json_rune_def printable_hex) (simp add: code_def)
next
  case True
  obtain c t where s: "s = c # t" using assms(2) by (cases s) auto
  then have r: "r = code c \<or> r = rune_error" using narrow_rune assms(1) True by simp
  have "printable (json_rune (code c) 1 [c])"
  proof (cases "code c < 32")
    case True
    then have "code c div 16 < 16" "code c mod 16 < 16" by simp_all
    then show ?thesis using True printable_hex by (simp add: json_rune_def) (simp add: code_def)
  next
    case False
    moreover have "32 \<le> code c \<Longrightarrow> code c div 16 < 16 \<and> code c mod 16 < 16"
      using code_small [of c] by (simp add: div_less_iff_less_mult)
    ultimately show ?thesis using printable_hex by (simp add: json_rune_def) (simp add: code_def)
  qed
  moreover have "printable (json_rune rune_error 1 [c])"
    by (simp add: json_rune_def rune_error_def) (simp add: code_def)
  ultimately show ?thesis using r True s by auto
qed

lemma printable_json_escape: "printable (json_escape s)"
proof (induction s rule: json_escape.induct)
  case (1 s)
  show ?case
  proof (cases "s = []")
    case True
    then show ?thesis by (subst json_escape.simps) simp
  next
    case False
    obtain r n where d: "decode_rune s = (r, n)" by fastforce
    from 1 [OF False d [symmetric] refl] printable_json_rune [OF d False] show ?thesis
      using False d by (subst json_escape.simps) simp
  qed
qed

lemma printable_join: "list_all printable xs \<Longrightarrow> printable (join '','' xs)"
proof (induction xs)
  case (Cons x xs)
  then show ?case by (cases xs) (simp_all add: code_def)
qed simp

lemma printable_itoa: "printable (itoa i)"
proof -
  have "printable (itoa_nat n)" for n
    using itoa_nat_digits [of n] by (auto simp: printable_def list_all_iff is_digit_def code_def)
  then show ?thesis by (simp add: itoa_def code_def)
qed

lemma printable_json_string: "printable (json_string s)"
  by (simp add: json_string_def printable_json_escape code_def)

lemma printable_encode_json: "printable (encode_json j)"
proof (induction j rule: encode_json.induct)
  case (4 vs)
  then have "printable (join '','' (map encode_json vs))" by (intro printable_join) (simp add: list_all_iff)
  then show ?case by (simp add: code_def)
next
  case (5 ms)
  then have "printable (join '','' (map (\<lambda>(k, v). json_string k @ '':'' @ encode_json v) ms))"
    by (intro printable_join) (auto simp: list_all_iff printable_json_string code_def)
  then show ?case by (simp add: code_def)
qed (simp_all add: printable_itoa printable_json_string, simp_all add: code_def)

text \<open>
  C13 A context cannot add a line to the log. Whatever strings, errors and addresses a context
  holds, in any bytes, the line logged for a message without bytes below the space and without
  an address is one line: no byte of it is below the space, so it has no line end, and it
  starts with the message.
\<close>

theorem log_line_single:
  assumes "printable m" and "quiet_text m"
  shows "printable (formatLogLine m c) \<and> has_prefix m (formatLogLine m c)"
  using assms printable_encode_json
  by (auto simp: formatLogLine_def sanitize_plain has_prefix_def code_def split: option.splits)

subsection \<open>What is not covered\<close>

text \<open>
  An address that \<open>url.Parse\<close> rejects is only cut at its query and fragment: its login
  stays. The scheme is matched as it is written, in lower case.
\<close>

lemma rejected_address_keeps_login:
  "sanitizeURLText ''http://user:pw@host:bad/p?token'' = ''http://user:pw@host:bad/p''"
  by code_simp

lemma upper_case_scheme_kept: "sanitizeURLText ''HTTP://user:pw@host/p?token'' = ''HTTP://user:pw@host/p?token''"
  by code_simp

subsection \<open>Examples\<close>

definition example_web :: "string \<Rightarrow> string \<Rightarrow> web" where
  "example_web login query =
     \<lparr>w_scheme = ''http'', w_login = Some login, w_host = ''tv.lan:8080'', w_path = ''/list.m3u'',
      w_query = Some query, w_fragment = None\<rparr>"

definition example_text :: "string \<Rightarrow> string \<Rightarrow> (string \<times> web) list" where
  "example_text login query = [(''Get '', example_web login query)]"

lemma example_webs: "web_ok (example_web ''user:pw'' ''token=1'')" "web_ok (example_web ''root:secret'' ''t=2'')"
  by code_simp+

lemma example_texts: "quiet_text ''Get ''" "quiet_text '' EOF''" "ends '' EOF''"
  by code_simp+

lemma example_texts_ok: "text_ok (example_text ''user:pw'' ''token=1'') '' EOF''"
  "text_ok (example_text ''root:secret'' ''t=2'') '' EOF''"
  using example_webs example_texts by (simp_all add: example_text_def)

lemma sanitize_text_witness:
  "sanitizeURLText (render_text render_web (example_text ''user:pw'' ''token=1'') '' EOF'') =
     ''Get http://tv.lan:8080/list.m3u EOF''"
proof -
  have "render_text public_web (example_text ''user:pw'' ''token=1'') '' EOF'' =
      ''Get http://tv.lan:8080/list.m3u EOF''" by code_simp
  then show ?thesis using sanitize_text [OF example_texts_ok(1)] by simp
qed


lemma log_line_single_witness:
  "printable (formatLogLine ''stopped'' (GString [CHR 0x0A, CHR ''x'']))"
proof -
  have "printable ''stopped''" "quiet_text ''stopped''" by code_simp+
  from log_line_single [OF this] show ?thesis by blast
qed

end
