(* ===== verification/Playback_Log.thy ===== *)
theory Playback_Log
  imports Http_Properties Logger_Properties
begin

text \<open>
  What a playback logs: the log calls of internal/httpapi/server.go and internal/rtsp, as the
  events of \<open>Logger\<close>. The line of a playback decodes to the channel.
\<close>

definition kind_text :: "transport_kind \<Rightarrow> string" where
  "kind_text tkind = (case tkind of TCP \<Rightarrow> ''tcp'' | UDP \<Rightarrow> ''udp'')"

definition GInt :: "int \<Rightarrow> goval" where
  "GInt i = GOther (Some (JInt i))"

definition GNat :: "nat \<Rightarrow> goval" where
  "GNat n = GInt (int n)"


fun diagnostic_event :: "transport_kind \<Rightarrow> string \<Rightarrow> diagnostic \<Rightarrow> log_event" where
  "diagnostic_event tkind u (RtpGap expected sequence missed) = LogWarn ''rtsp relay detected RTP sequence gap''
     (GMap [(''transport'', GString (kind_text tkind)), (''upstreamUrl'', GString u),
       (''expectedSequence'', GNat (unat expected)), (''actualSequence'', GNat (unat sequence)),
       (''missedPackets'', GNat missed)])"
| "diagnostic_event tkind u (SyncLoss offset firstByte) = LogWarn ''rtsp relay detected MPEG-TS sync loss''
     (GMap [(''transport'', GString (kind_text tkind)), (''upstreamUrl'', GString u),
       (''offset'', GNat offset), (''firstByte'', GNat (unat firstByte))])"
| "diagnostic_event tkind u (ContinuityMismatch pid expected actual) =
     LogWarn ''rtsp relay detected MPEG-TS continuity mismatch''
     (GMap [(''transport'', GString (kind_text tkind)), (''upstreamUrl'', GString u),
       (''pid'', GNat (unat pid)), (''expectedContinuity'', GNat (unat expected)),
       (''actualContinuity'', GNat (unat actual))])"
| "diagnostic_event tkind u (MediaEnded bytes rtp missing ts losses errs) = LogInfo ''rtsp relay media ended''
     (GMap [(''transport'', GString (kind_text tkind)), (''upstreamUrl'', GString u),
       (''byteCount'', GNat bytes), (''rtpPacketCount'', GNat rtp),
       (''rtpMissingPacketCount'', GNat missing), (''tsPacketCount'', GNat ts),
       (''tsSyncLossCount'', GNat losses), (''tsContinuityErrorCount'', GNat errs)])"





end
