(* ===== verification/Bridge_Main.thy ===== *)
theory Bridge_Main
  imports Playback_Log Discovery_Server
begin

text \<open>
  cmd/plex-octotuner/main.go: the environment, the fetch of the playlist, the start of the
  services with its clean-up, the refresh loop as a transition system, the exits of \<open>main\<close>
  and its end after a signal. What the network answers is a parameter. The goroutine that
  serves HTTP appears as the event that starts it.
\<close>

subsection \<open>Environment and playlist\<close>

definition env_keys :: "string list" where
  "env_keys = [''M3U_URL'', ''ADVERTISED_BASE_URL'', ''SERVER_PORT'', ''HDHR_FRIENDLY_NAME'',
     ''PLAYLIST_REFRESH_SECONDS'', ''HDHR_TUNER_COUNT'', ''HDHR_DEVICE_ID'', ''HDHR_DEVICE_AUTH'']"

text \<open>\<open>os_env\<close> is \<open>os.Getenv\<close>: the empty string for a variable that is not set.\<close>

definition readEnv :: "(string \<Rightarrow> string) \<Rightarrow> environment" where
  "readEnv os_env = map_of (map (\<lambda>k. (k, os_env k)) env_keys)"

text \<open>The answer to a GET: an error, or a response whose body may fail while it is read.\<close>

type_synonym web_server = "string \<Rightarrow> string + (string + string)"

datatype fetch_op = BodyClosed

definition fetchM3U :: "web_server \<Rightarrow> string \<Rightarrow> fetch_op list \<times> (string + string)" where
  "fetchM3U http_get rawURL =
     (case http_get rawURL of
        Inl e \<Rightarrow> ([], Inl e)
      | Inr (Inl e) \<Rightarrow> ([BodyClosed], Inl e)
      | Inr (Inr text) \<Rightarrow> ([BodyClosed], Inr text))"

subsection \<open>Starting the services\<close>

datatype bridge_error = ListenError string | DiscoveryError discovery_error

datatype bridge_event = Listened string | Served | ServerClosed | ListenerClosed

definition no_options :: discovery_options where
  "no_options = \<lparr>BindAddress = [], ControlPort = 0, SSDPPort = 0, HDHomerunPort = 0,
     SSDPMulticastHost = [], JoinSSDPMulticast = None, StartControl = None, StartupNotify = None\<rparr>"

type_synonym ('w, 'h) starter = "config \<Rightarrow> discovery_options \<Rightarrow> 'w \<Rightarrow> ((discovery_error + 'h) \<times> 'w) go"

definition startDiscovery :: "config \<Rightarrow> ('w, 'h) starter \<Rightarrow> 'w \<Rightarrow> ((discovery_error + 'h) \<times> 'w) go" where
  "startDiscovery cfg start w = start cfg no_options w"

definition startBridgeServices ::
  "config \<Rightarrow> (string \<Rightarrow> string \<Rightarrow> string option) \<Rightarrow> ('w, 'h) starter \<Rightarrow> 'w \<Rightarrow>
   ((bridge_error + 'h) \<times> bridge_event list \<times> 'w) go" where
  "startBridgeServices cfg listen start w =
     (let addr = ''0.0.0.0:'' @ itoa (ServerPort cfg)
      in case listen ''tcp'' addr of
           Some e \<Rightarrow> Some (Inl (ListenError e), [], w)
         | None \<Rightarrow>
             (case startDiscovery cfg start w of
                None \<Rightarrow> None
              | Some (Inl e, w') \<Rightarrow>
                  Some (Inl (DiscoveryError e), [Listened addr, Served, ServerClosed, ListenerClosed], w')
              | Some (Inr h, w') \<Rightarrow> Some (Inr h, [Listened addr, Served], w')))"

subsection \<open>The refresh loop\<close>

text \<open>
  The goroutine waits on two channels, fetches, or has returned; \<open>l_tick\<close> is the one slot of
  the ticker's channel. The caller closes \<open>stopCh\<close> and waits for \<open>doneCh\<close>.
\<close>

datatype loop_phase = Waiting | Fetching | Exited

record loop =
  l_phase :: loop_phase
  l_tick :: bool
  l_stop_closed :: bool
  l_stopped :: bool
  l_store :: store
  l_logged :: "log_event list"

definition startRefreshLoop :: "store \<Rightarrow> loop" where
  "startRefreshLoop st = \<lparr>l_phase = Waiting, l_tick = False, l_stop_closed = False, l_stopped = False,
     l_store = st, l_logged = []\<rparr>"

text \<open>The error of \<open>store.Refresh\<close>, as text.\<close>

definition refresh_text :: "refresh_error \<Rightarrow> string" where
  "refresh_text e = (case e of FetchError x \<Rightarrow> x | ZeroValidChannels \<Rightarrow> ''zero valid channels'')"

definition finish_fetch :: "unicode \<Rightarrow> sorter \<Rightarrow> string + string \<Rightarrow> loop \<Rightarrow> loop" where
  "finish_fetch U srt r l =
     (let (result, st) = Refresh U srt r (l_store l);
          warnings = map (\<lambda>m. LogWarn m GNil) (drop (length (store_log (l_store l))) (store_log st))
      in l\<lparr>l_phase := Waiting, l_store := st,
           l_logged := l_logged l @ warnings @
             (case result of
                Inl e \<Rightarrow> [LogError ''playlist refresh failed'' (GError (refresh_text e) None)]
              | Inr cs \<Rightarrow> [])\<rparr>)"

datatype loop_action = Tick | TakeTick | FetchDone "string + string" | CloseStop | TakeStop | StopReturns

inductive loop_step :: "unicode \<Rightarrow> sorter \<Rightarrow> loop \<Rightarrow> loop_action \<Rightarrow> loop \<Rightarrow> bool" for U srt where
  tick: "loop_step U srt l Tick (l\<lparr>l_tick := True\<rparr>)"
| take_tick: "l_phase l = Waiting \<Longrightarrow> l_tick l \<Longrightarrow>
    loop_step U srt l TakeTick (l\<lparr>l_phase := Fetching, l_tick := False\<rparr>)"
| fetched: "l_phase l = Fetching \<Longrightarrow> loop_step U srt l (FetchDone r) (finish_fetch U srt r l)"
| close_stop: "\<not> l_stop_closed l \<Longrightarrow> loop_step U srt l CloseStop (l\<lparr>l_stop_closed := True\<rparr>)"
| take_stop: "l_phase l = Waiting \<Longrightarrow> l_stop_closed l \<Longrightarrow>
    loop_step U srt l TakeStop (l\<lparr>l_phase := Exited\<rparr>)"
| stop_returns: "l_stop_closed l \<Longrightarrow> l_phase l = Exited \<Longrightarrow> \<not> l_stopped l \<Longrightarrow>
    loop_step U srt l StopReturns (l\<lparr>l_stopped := True\<rparr>)"

inductive loop_run :: "unicode \<Rightarrow> sorter \<Rightarrow> loop \<Rightarrow> loop_action list \<Rightarrow> loop \<Rightarrow> bool" for U srt where
  stay: "loop_run U srt l [] l"
| step: "loop_step U srt l a m \<Longrightarrow> loop_run U srt m as n \<Longrightarrow> loop_run U srt l (a # as) n"

inductive_cases loop_stepE: "loop_step U srt l a m"
inductive_simps loop_run_Nil [simp]: "loop_run U srt l [] n"

subsection \<open>main\<close>

datatype main_error = ConfigError config_error | PlaylistError string | NoValidChannels | ServicesError bridge_error

text \<open>
  The goroutine that serves HTTP: what it logs first, and whether the program exits with
  status 1 when \<open>Serve\<close> returns. It runs beside the rest, so its line has no fixed place among
  those of \<open>main_up\<close>.
\<close>

datatype serve_result = ServeNil | ServeServerClosed | ServeNetClosed | ServeFailed string

definition listening_event :: "config \<Rightarrow> log_event" where
  "listening_event cfg = LogInfo (''Listening on http://0.0.0.0:'' @ itoa (ServerPort cfg)) GNil"

definition serve_exits :: "serve_result \<Rightarrow> string option" where
  "serve_exits r = (case r of ServeFailed e \<Rightarrow> Some e | _ \<Rightarrow> None)"

text \<open>The program once it waits for a signal.\<close>

record bridge =
  m_config :: config
  m_period :: int
  m_handle :: stop_handle
  m_events :: "bridge_event list"
  m_world :: world
  m_loop :: loop
  m_logger :: logger

definition startup_event :: "config \<Rightarrow> log_event" where
  "startup_event cfg = LogInfo ''bridge startup config''
     (GMap [(''m3uUrl'', GString (url_string (M3UURL cfg))),
       (''advertisedBaseUrl'', GString (url_string (AdvertisedBaseURL cfg))),
       (''serverPort'', GInt (ServerPort cfg)), (''friendlyName'', GString (FriendlyName cfg)),
       (''playlistRefreshSeconds'', GInt (PlaylistRefreshSeconds cfg)), (''tunerCount'', GInt (TunerCount cfg)),
       (''deviceId'', GString (DeviceID cfg))])"

text \<open>\<open>time.Duration(s) * time.Second\<close> on 64-bit integers; \<open>NewTicker\<close> panics unless it is positive.\<close>

definition refresh_period :: "int \<Rightarrow> int" where
  "refresh_period s = signed_take_bit 63 (s * 1000000000)"

text \<open>The environment of the program.\<close>

record machine =
  os_env :: "string \<Rightarrow> string"
  http_get :: web_server
  tcp_listen :: "string \<Rightarrow> string \<Rightarrow> string option"
  the_host :: host

text \<open>\<open>None\<close> is a panic, \<open>Inl\<close> an exit with status 1.\<close>

definition main_up :: "unicode \<Rightarrow> sorter \<Rightarrow> machine \<Rightarrow> (main_error + bridge) go" where
  "main_up U srt m =
     (case Load U (readEnv (os_env m)) of
        Inl e \<Rightarrow> Some (Inl (ConfigError e))
      | Inr cfg \<Rightarrow>
          let l1 = log_call (startup_event cfg) New
          in case fetchM3U (http_get m) (url_string (M3UURL cfg)) of
               (_, Inl e) \<Rightarrow> Some (Inl (PlaylistError e))
             | (_, Inr playlist) \<Rightarrow>
                 let st = snd (ReplaceFromRaw U srt playlist NewStore);
                     l2 = fold log_call (map (\<lambda>w. LogWarn w GNil) (store_log st)) l1
                 in if GetChannels st = [] then Some (Inl NoValidChannels)
                    else
                      let l3 = log_call (LogInfo (''loaded '' @ itoa (int (length (GetChannels st))) @ '' channels'') GNil) l2
                      in case startBridgeServices cfg (tcp_listen m) (StartDiscoveryServer (the_host m)) fresh_world of
                           None \<Rightarrow> None
                         | Some (Inl e, _, _) \<Rightarrow> Some (Inl (ServicesError e))
                         | Some (Inr h, es, w) \<Rightarrow>
                             let period = refresh_period (PlaylistRefreshSeconds cfg)
                             in if period \<le> 0 then None
                                else Some (Inr \<lparr>m_config = cfg, m_period = period, m_handle = h, m_events = es,
                                       m_world = w, m_loop = startRefreshLoop st, m_logger = l3\<rparr>))"

text \<open>What follows the signal once the refresh loop has been stopped.\<close>

definition main_down :: "machine \<Rightarrow> bridge \<Rightarrow> bridge" where
  "main_down m b =
     (let ((h, w), _) = Stop (Some (server_stop (the_host m))) (Some (m_handle b)) (m_world b)
      in b\<lparr>m_events := m_events b @ [ServerClosed], m_world := w,
           m_handle := (case h of None \<Rightarrow> m_handle b | Some s \<Rightarrow> s)\<rparr>)"

end
