(* ===== verification/Bridge_Properties.thy ===== *)
theory Bridge_Properties
  imports Bridge_Main
begin

text \<open>
  Properties of the program's start, its refresh loop and its end.
\<close>

subsection \<open>The environment is read as it is\<close>

lemma readEnv_key: "k \<in> set env_keys \<Longrightarrow> readEnv os k = Some (os k)"
  by (simp only: readEnv_def map_of_map_restrict restrict_map_def if_True comp_apply)

lemma getenv_readEnv: "k \<in> set env_keys \<Longrightarrow> getenv (readEnv os) k = os k"
  by (simp only: getenv_def readEnv_key option.case)

lemma parseURL_readEnv: "k \<in> set env_keys \<Longrightarrow> parseURL (readEnv (getenv env)) k = parseURL env k"
  by (cases "env k") (simp_all only: parseURL_def readEnv_key getenv_def option.case if_True if_False simp_thms)

lemma Load_readEnv: "Load U (readEnv (getenv env)) = Load U env"
  unfolding Load_def by (simp only: parseURL_readEnv getenv_readEnv env_keys_def list.set insert_iff simp_thms)

subsection \<open>The services start together or not at all\<close>

text \<open>
  What the bridge relies on in the start of the discovery server: a failure leaves the world
  clean, a success leaves it up. The laws are those of the server that comes up with the
  default options.
\<close>

locale discovery_starter =
  fixes start :: "('w, 'h) starter"
    and fresh :: 'w
    and clean_world :: "'w \<Rightarrow> bool"
    and up :: "'h \<Rightarrow> 'w \<Rightarrow> bool"
  assumes start_fails: "start cfg no_options fresh = Some (Inl e, w) \<Longrightarrow> clean_world w"
    and start_works: "start cfg no_options fresh = Some (Inr h, w) \<Longrightarrow> up h w"
begin

lemma bridge_fails:
  assumes "startBridgeServices cfg listen start fresh = Some (Inl (DiscoveryError e), es, w)"
  shows "Listened (''0.0.0.0:'' @ itoa (ServerPort cfg)) \<in> set es \<and> ServerClosed \<in> set es \<and>
    last es = ListenerClosed \<and> clean_world w"
  using assms start_fails
  by (auto simp: startBridgeServices_def startDiscovery_def Let_def split: option.splits sum.splits)

lemma bridge_no_port:
  assumes "startBridgeServices cfg listen start fresh = Some (Inl (ListenError e), es, w)"
  shows "es = [] \<and> w = fresh"
  using assms
  by (auto simp: startBridgeServices_def startDiscovery_def Let_def split: option.splits sum.splits)

lemma bridge_works:
  assumes "startBridgeServices cfg listen start fresh = Some (Inr h, es, w)"
  shows "es = [Listened (''0.0.0.0:'' @ itoa (ServerPort cfg)), Served] \<and> up h w"
  using assms start_works
  by (auto simp: startBridgeServices_def startDiscovery_def Let_def split: option.splits sum.splits)

end

lemma no_options_control: "starts_control no_options"
  by (simp add: starts_control_def no_options_def)

interpretation ds: discovery_starter "StartDiscoveryServer h" fresh_world
  "\<lambda>w. distinct (opened_sockets (w_trace w)) \<and>
     filter (\<lambda>s. s \<notin> range ControlConn) (closed_sockets (w_trace w)) = rev (opened_sockets (w_trace w))"
  "\<lambda>hdl w. hdl = newStopHandle \<and> running True w \<and> closed_sockets (w_trace w) = [] \<and>
     opened_sockets (w_trace w) = [SsdpSocket, HdhomerunSocket, ControlListener]"
  by unfold_locales (use start_outcome no_options_control in fastforce)+

text \<open>
  C5 The services start together or not at all. Whatever the network answers, a failed start
  of the bridge leaves nothing open: either the HTTP port was not bound and discovery was not
  tried, or discovery failed, and then the HTTP server and its listener have been closed, and
  so has every socket discovery opened. A start that succeeds has bound the HTTP port and
  serves it, and holds the two UDP sockets and the control listener.
\<close>

theorem services_start_together:
  assumes "startBridgeServices cfg listen (StartDiscoveryServer h) fresh_world = Some (r, es, w)"
  shows "case r of
      Inl (ListenError e) \<Rightarrow> es = [] \<and> w = fresh_world
    | Inl (DiscoveryError e) \<Rightarrow> Listened (''0.0.0.0:'' @ itoa (ServerPort cfg)) \<in> set es \<and>
        ServerClosed \<in> set es \<and> last es = ListenerClosed \<and> distinct (opened_sockets (w_trace w)) \<and>
        filter (\<lambda>s. s \<notin> range ControlConn) (closed_sockets (w_trace w)) = rev (opened_sockets (w_trace w))
    | Inr hdl \<Rightarrow> es = [Listened (''0.0.0.0:'' @ itoa (ServerPort cfg)), Served] \<and> hdl = newStopHandle \<and>
        closed_sockets (w_trace w) = [] \<and>
        opened_sockets (w_trace w) = [SsdpSocket, HdhomerunSocket, ControlListener]"
  using assms ds.bridge_fails ds.bridge_no_port ds.bridge_works
  by (auto split: sum.split bridge_error.split)

subsection \<open>The refresh loop\<close>

fun fetches :: "loop_action list \<Rightarrow> store_op list" where
  "fetches [] = []"
| "fetches (FetchDone r # as) = Fetched r # fetches as"
| "fetches (_ # as) = fetches as"

lemma finish_fetch_store: "l_store (finish_fetch U srt r l) = store_step U srt (Fetched r) (l_store l)"
  by (simp add: finish_fetch_def split_beta Let_def)

lemma loop_step_store:
  "loop_step U srt l a m \<Longrightarrow> l_store m = fold (store_step U srt) (fetches [a]) (l_store l)"
  by (elim loop_stepE) (auto simp: finish_fetch_store)

lemma fetches_Cons: "fetches (a # as) = fetches [a] @ fetches as"
  by (cases a) simp_all

lemma loop_run_store:
  "loop_run U srt l as n \<Longrightarrow> l_store n = fold (store_step U srt) (fetches as) (l_store l)"
proof (induction rule: loop_run.induct)
  case (step l a m as n)
  then show ?case using fetches_Cons [of a as] loop_step_store [OF step(1)] by simp
qed simp

lemma refresh_keeps_channels: "channels s \<noteq> [] \<Longrightarrow> channels (store_step U srt (Fetched r) s) \<noteq> []"
  using store_step_channels [of U srt "Fetched r" s] by (cases r) (auto split: if_splits)

lemma refreshes_keep_channels:
  "channels s \<noteq> [] \<Longrightarrow> channels (fold (store_step U srt) (fetches as) s) \<noteq> []"
proof (induction as arbitrary: s)
  case (Cons a as)
  have "channels (fold (store_step U srt) (fetches [a]) s) \<noteq> []"
    using Cons.prems refresh_keeps_channels [of s] by (cases a) auto
  then show ?case using Cons.IH fetches_Cons [of a as] by (simp add: fold_append)
qed simp

text \<open>What is logged for a fetch: one error, exactly when the refresh was not accepted.\<close>

definition failure_events :: "log_event list \<Rightarrow> log_event list" where
  "failure_events es = filter (\<lambda>e. case e of LogError m c \<Rightarrow> True | _ \<Rightarrow> False) es"

lemma failure_events_fetch:
  "failure_events (l_logged (finish_fetch U srt r l)) = failure_events (l_logged l) @
     (if accepted U srt (Fetched r) = None
      then [LogError ''playlist refresh failed'' (GError (case r of Inl e \<Rightarrow> e | Inr p \<Rightarrow> ''zero valid channels'') None)]
      else [])"
proof -
  have "failure_events (map (\<lambda>m. LogWarn m GNil) ws) = []" for ws by (simp add: failure_events_def)
  moreover have "failure_events (xs @ ys) = failure_events xs @ failure_events ys" for xs ys
    by (simp add: failure_events_def)
  ultimately show ?thesis
    by (cases r) (auto simp: finish_fetch_def Refresh_def refresh_text_def Let_def split_beta failure_events_def)
qed

lemma loop_run_failures:
  "loop_run U srt l as n \<Longrightarrow> length (failure_events (l_logged n)) =
     length (failure_events (l_logged l)) + length (filter (\<lambda>op. accepted U srt op = None) (fetches as))"
proof (induction rule: loop_run.induct)
  case (step l a m as n)
  have "length (failure_events (l_logged m)) =
     length (failure_events (l_logged l)) + length (filter (\<lambda>op. accepted U srt op = None) (fetches [a]))"
    using step(1) by (elim loop_stepE) (auto simp: failure_events_fetch)
  with step fetches_Cons [of a as] show ?case by simp
qed simp

text \<open>
  C10 The refresh loop refines the store. Whatever the interleaving of ticks, fetches and the
  stop, the store after any run of the loop is the store after its fetches, one by one, in
  order; a lineup that was not empty never becomes empty; and the log has exactly one error
  for every fetch that failed or brought no channel.
\<close>

theorem refresh_loop_refines:
  assumes "loop_run U srt (startRefreshLoop st) as l"
  shows "l_store l = fold (store_step U srt) (fetches as) st \<and>
    (GetChannels st \<noteq> [] \<longrightarrow> GetChannels (l_store l) \<noteq> []) \<and>
    length (failure_events (l_logged l)) = length (filter (\<lambda>op. accepted U srt op = None) (fetches as))"
  using loop_run_store [OF assms] refreshes_keep_channels loop_run_failures [OF assms]
  by (simp add: startRefreshLoop_def GetChannels_def failure_events_def)

definition loop_inv :: "loop \<Rightarrow> bool" where
  "loop_inv l \<longleftrightarrow> (l_phase l = Exited \<longrightarrow> l_stop_closed l) \<and> (l_stopped l \<longrightarrow> l_phase l = Exited)"

lemma loop_inv_step: "loop_step U srt l a m \<Longrightarrow> loop_inv l \<Longrightarrow> loop_inv m"
  by (elim loop_stepE) (auto simp: loop_inv_def finish_fetch_def split_beta Let_def)

interpretation rl: step_system "loop_step U srt" "loop_run U srt"
proof
  fix s ls t and I :: "loop \<Rightarrow> bool"
  assume "loop_run U srt s ls t" and "I s" and "\<And>u a v. loop_step U srt u a v \<Longrightarrow> I u \<Longrightarrow> I v"
  then show "I t" by (induction rule: loop_run.induct) auto
qed

lemma loop_inv_run: "loop_run U srt l as n \<Longrightarrow> loop_inv l \<Longrightarrow> loop_inv n"
  by (rule rl.run_keeps [where I = loop_inv]) (auto dest: loop_inv_step)

lemma exited_step:
  "loop_step U srt l a m \<Longrightarrow> l_phase l = Exited \<Longrightarrow>
   l_phase m = Exited \<and> l_store m = l_store l \<and> l_logged m = l_logged l"
  by (elim loop_stepE) auto

lemma exited_run:
  assumes "loop_run U srt l as n" and "l_phase l = Exited"
  shows "l_store n = l_store l \<and> l_logged n = l_logged l"
proof -
  have "l_phase n = Exited \<and> (l_store n, l_logged n) = (l_store l, l_logged l)"
    using assms by (rule rl.run_freezes [rotated]) (simp add: exited_step)
  then show ?thesis by simp
qed

lemma run_one: "loop_step U srt l a m \<Longrightarrow> loop_run U srt l [a] m"
  by (rule loop_run.step) (auto intro: loop_run.stay)

lemma waiting_stops:
  assumes "l_stop_closed l" and "l_phase l = Waiting" and "\<not> l_stopped l"
  shows "\<exists>n. loop_run U srt l [TakeStop, StopReturns] n \<and> l_stopped n"
proof -
  have "loop_step U srt l TakeStop (l\<lparr>l_phase := Exited\<rparr>)" using assms by (intro loop_step.take_stop)
  moreover have "loop_step U srt (l\<lparr>l_phase := Exited\<rparr>) StopReturns (l\<lparr>l_phase := Exited, l_stopped := True\<rparr>)"
    using assms loop_step.stop_returns [of "l\<lparr>l_phase := Exited\<rparr>" U srt] by simp
  ultimately show ?thesis
    by (intro exI [of _ "l\<lparr>l_phase := Exited, l_stopped := True\<rparr>"])
      (auto intro: loop_run.step loop_run.stay)
qed

lemma fetching_only_by_fetch:
  "loop_run U srt l as n \<Longrightarrow> l_phase l = Fetching \<Longrightarrow> l_phase n = Fetching \<or> (\<exists>r. FetchDone r \<in> set as)"
proof (induction rule: loop_run.induct)
  case (step l a m as n)
  from step(1) show ?case using step by (elim loop_stepE) auto
qed simp

text \<open>
  C11 Stopping the refresh loop. After the stop function has returned, the store and the log
  of the loop never change again. Once it has been called, the loop can always be brought to
  its end: from every state a run exists that returns, of the end of the current fetch, if
  there is one, and two more steps. And there is no other way: while a fetch is in progress
  no run returns without the fetch ending, so that a playlist server that does not answer
  holds up the end of the program.
\<close>

theorem refresh_loop_stops:
  assumes "loop_run U srt (startRefreshLoop st) as l"
  shows "(l_stopped l \<longrightarrow> (\<forall>bs n. loop_run U srt l bs n \<longrightarrow> l_store n = l_store l \<and> l_logged n = l_logged l)) \<and>
    (l_stop_closed l \<longrightarrow> \<not> l_stopped l \<longrightarrow>
       (\<exists>bs n. loop_run U srt l bs n \<and> l_stopped n \<and> length bs \<le> 3 \<and>
          (l_phase l \<noteq> Fetching \<longrightarrow> fetches bs = []))) \<and>
    (l_phase l = Fetching \<longrightarrow>
       (\<forall>bs n. loop_run U srt l bs n \<longrightarrow> l_stopped n \<longrightarrow> (\<exists>r. FetchDone r \<in> set bs)))"
proof -
  have inv: "loop_inv l" using loop_inv_run [OF assms] by (simp add: loop_inv_def startRefreshLoop_def)
  have "\<exists>bs n. loop_run U srt l bs n \<and> l_stopped n \<and> length bs \<le> 3 \<and> (l_phase l \<noteq> Fetching \<longrightarrow> fetches bs = [])"
    if stop: "l_stop_closed l" "\<not> l_stopped l"
  proof (cases "l_phase l")
    case Waiting
    then show ?thesis using waiting_stops [OF stop(1) _ stop(2), of U srt] by force
  next
    case Fetching
    let ?m = "finish_fetch U srt (Inl []) l"
    have m: "l_stop_closed ?m" "l_phase ?m = Waiting" "\<not> l_stopped ?m"
      using stop by (simp_all add: finish_fetch_def split_beta Let_def)
    obtain n where n: "loop_run U srt ?m [TakeStop, StopReturns] n" "l_stopped n"
      using waiting_stops [OF m] by blast
    have "loop_run U srt l [FetchDone (Inl []), TakeStop, StopReturns] n"
      using loop_step.fetched [OF Fetching] n(1) by (rule loop_run.step)
    with n(2) Fetching show ?thesis by force
  next
    case Exited
    have "loop_step U srt l StopReturns (l\<lparr>l_stopped := True\<rparr>)"
      using loop_step.stop_returns stop Exited by blast
    from run_one [OF this] show ?thesis by force
  qed
  moreover have "\<exists>r. FetchDone r \<in> set bs"
    if "l_phase l = Fetching" "loop_run U srt l bs n" "l_stopped n" for bs n
  proof -
    have "l_phase n = Exited" using loop_inv_run [OF that(2) inv] that(3) by (simp add: loop_inv_def)
    then show ?thesis using fetching_only_by_fetch [OF that(2,1)] by simp
  qed
  ultimately show ?thesis using inv exited_run unfolding loop_inv_def by blast
qed

subsection \<open>main\<close>

lemma refresh_period_small: "1 \<le> s \<Longrightarrow> s \<le> 9223372036 \<Longrightarrow> refresh_period s = s * 1000000000"
  unfolding refresh_period_def by (rule signed_take_bit_int_eq_self) simp_all

text \<open>The interval that a period of 64 bits cannot hold: 292 years and a few weeks.\<close>

lemma refresh_period_overflow: "refresh_period 9223372037 < 0"
  by (simp add: refresh_period_def signed_take_bit_def take_bit_int_def bit_iff_odd)

lemma StartDiscoveryServer_total: "valid_config cfg \<Longrightarrow> StartDiscoveryServer h cfg o' w \<noteq> None"
  by (auto simp: StartDiscoveryServer_def StartHdhomerunControlServer_def newTunerRegistry_def valid_config_def
      Let_def split: sum.splits option.splits)

text \<open>
  C6 The program runs only when everything is in place. If \<open>main\<close> comes to wait for its
  signal, the configuration is valid; the store holds the channels of the playlist fetched
  from its address, and there is one at least; the HTTP port is served and the three
  discovery sockets are open, nothing closed; the refresh period is positive; and whatever
  the refresh loop does from there, there are channels to serve. After the signal the HTTP
  server is closed, and so are, each once, the control listener with its connections and the
  two UDP sockets.
\<close>

theorem main_up_complete:
  assumes "slice_sorter srt" and "main_up U srt m = Some (Inr b)"
  shows "valid_config (m_config b) \<and> 0 < m_period b \<and>
    (\<exists>playlist. snd (fetchM3U (http_get m) (url_string (M3UURL (m_config b)))) = Inr playlist \<and>
       store_of U srt playlist (l_store (m_loop b))) \<and>
    m_events b = [Listened (''0.0.0.0:'' @ itoa (ServerPort (m_config b))), Served] \<and>
    opened_sockets (w_trace (m_world b)) = [SsdpSocket, HdhomerunSocket, ControlListener] \<and>
    closed_sockets (w_trace (m_world b)) = [] \<and>
    (\<forall>as l. loop_run U srt (m_loop b) as l \<longrightarrow> GetChannels (l_store l) \<noteq> []) \<and>
    last (m_events (main_down m b)) = ServerClosed \<and>
    closed_sockets (w_trace (m_world (main_down m b))) = held (the_host m) True"
proof -
  obtain cfg playlist st es w h where F: "Load U (readEnv (os_env m)) = Inr cfg"
    "snd (fetchM3U (http_get m) (url_string (M3UURL cfg))) = Inr playlist"
    "st = snd (ReplaceFromRaw U srt playlist NewStore)" "GetChannels st \<noteq> []"
    "startBridgeServices cfg (tcp_listen m) (StartDiscoveryServer (the_host m)) fresh_world = Some (Inr h, es, w)"
    "0 < refresh_period (PlaylistRefreshSeconds cfg)"
    and b: "m_config b = cfg" "m_period b = refresh_period (PlaylistRefreshSeconds cfg)" "m_events b = es"
    "m_world b = w" "m_loop b = startRefreshLoop st" "m_handle b = h"
    using assms(2) by (auto simp: main_up_def Let_def split: sum.splits prod.splits option.splits if_splits)
  have "store_of U srt playlist st"
    using assms(1) F(3) by (simp add: store_of_def ReplaceFromRaw_def split_beta Let_def)
  moreover have "GetChannels (l_store l) \<noteq> []" if "loop_run U srt (m_loop b) as l" for as l
    using loop_run_store [OF that] refreshes_keep_channels F(4) b(5)
    by (simp add: startRefreshLoop_def GetChannels_def)
  moreover note up = ds.bridge_works [OF F(5)]
  moreover obtain w' where "server_stop (the_host m) w = (w', foldl first_error None (map (h_close (the_host m)) (held (the_host m) True)))"
    "w_trace w' = w_trace w @ map Closed (held (the_host m) True)"
    using server_stop_running [of True w] up by blast
  then have "last (m_events (main_down m b)) = ServerClosed"
    "closed_sockets (w_trace (m_world (main_down m b))) = held (the_host m) True"
    using b up by (simp_all add: main_down_def Stop_def newStopHandle_def)
  ultimately show ?thesis
    using F(1,2,6) b Load_valid [OF F(1)] by (auto simp: startRefreshLoop_def)
qed

text \<open>
  C15 The program does not panic on start. For every environment, whatever the network
  answers, \<open>main\<close> comes to wait for its signal or exits with an error, as long as the refresh
  interval is at most 9223372036 seconds; the period of the ticker is then the interval in
  nanoseconds. A longer interval overflows: the next one gives a negative period, for which
  the ticker panics when the services are already up.
\<close>

theorem main_does_not_panic:
  assumes "\<And>cfg. Load U (readEnv (os_env m)) = Inr cfg \<Longrightarrow> PlaylistRefreshSeconds cfg \<le> 9223372036"
  shows "main_up U srt m \<noteq> None \<and>
    (\<forall>b. main_up U srt m = Some (Inr b) \<longrightarrow>
       m_period b = PlaylistRefreshSeconds (m_config b) * 1000000000) \<and>
    refresh_period (9223372036 + 1) < 0"
proof (cases "Load U (readEnv (os_env m))")
  case (Inl e)
  then show ?thesis using refresh_period_overflow by (simp add: main_up_def)
next
  case (Inr cfg)
  have valid: "valid_config cfg" by (rule Load_valid [OF Inr])
  then have period: "refresh_period (PlaylistRefreshSeconds cfg) = PlaylistRefreshSeconds cfg * 1000000000"
    "0 < PlaylistRefreshSeconds cfg"
    using refresh_period_small assms [OF Inr] by (simp_all add: valid_config_def)
  have total: "startBridgeServices cfg listen (StartDiscoveryServer h) fresh_world \<noteq> None" for listen h
    using StartDiscoveryServer_total [OF valid, of h no_options fresh_world]
    by (auto simp: startBridgeServices_def startDiscovery_def Let_def split: option.splits sum.splits)
  show ?thesis
    using Inr period refresh_period_overflow total [of "tcp_listen m" "the_host m"]
    by (auto simp: main_up_def Let_def split: sum.splits prod.splits option.splits)
qed

subsection \<open>Examples\<close>

text \<open>A host on the advertised address; \<open>e\<close> is the error of the control listener, if any.\<close>

definition bridge_host :: "string option \<Rightarrow> host" where
  "bridge_host e =
     \<lparr>h_interfaces = Inr [\<lparr>if_name = ''eth0'', if_addrs = Some [IPNet [10, 0, 0, 2]]\<rparr>],
      h_multicast = \<lambda>i a p. None, h_udp = \<lambda>t a p. None, h_tcp = \<lambda>a p. e,
      h_close = \<lambda>s. None, h_write = \<lambda>d. False, h_active = []\<rparr>"

definition example_machine :: machine where
  "example_machine = \<lparr>os_env = getenv example_env,
     http_get = \<lambda>u. Inr (Inr (render_playlist (one_entry ''http://a/b?x=1''))),
     tcp_listen = \<lambda>n a. None, the_host = bridge_host None\<rparr>"

lemma example_hostname: "url_hostname (AdvertisedBaseURL example_config) = ''10.0.0.2''"
  by code_simp

lemma example_address: "ParseIP ''10.0.0.2'' = Some (v4_prefix @ [10, 0, 0, 2])"
  by code_simp

lemma bridge_ssdp:
  "\<exists>b. open_ssdp (bridge_host e) example_config (applyDiscoveryDefaults no_options) a fresh_world =
    Inr (emit [Opened SsdpSocket b 1900] fresh_world)"
  by (rule exI [of _ "ParseIP ssdpMulticastHost"])
    (simp add: open_ssdp_def resolveSsdpMulticastInterface_def bridge_host_def no_options_def
      applyDiscoveryDefaults_def defaultTrue_def example_hostname example_address To4_mapped has_addr_def
      defaultPort_def ssdpMulticastPort_def To4_four)

lemma notify_sent: "fst (start_notify (bridge_host e) cfg (applyDiscoveryDefaults no_options) w) = Inr newStopHandle"
proof -
  obtain d where "sendStartupNotify cfg (SSDPMulticastHost (applyDiscoveryDefaults no_options))
      (trace_write (bridge_host e)) w = (emit [Sent d] w, h_write (bridge_host e) d)"
    using notify_trace by blast
  then show ?thesis by (simp add: start_notify_def bridge_host_def)
qed

lemma bridge_start:
  "\<exists>w. StartDiscoveryServer (bridge_host None) example_config no_options fresh_world = Some (Inr newStopHandle, w)"
proof -
  have "BindAddress (applyDiscoveryDefaults no_options) = []" "StartControl (applyDiscoveryDefaults no_options) = Some True"
    by (simp_all add: applyDiscoveryDefaults_def no_options_def defaultTrue_def)
  moreover have "h_udp (bridge_host None) t a p = None" "h_tcp (bridge_host None) a p = None" for t a p
    by (simp_all add: bridge_host_def)
  ultimately show ?thesis
    using bridge_ssdp [of None None] notify_sent [of None example_config]
    by (auto simp: StartDiscoveryServer_def StartHdhomerunControlServer_def parseBindIP_def example_tuners Let_def)
      (metis prod.collapse)+
qed

lemma services_start_together_witness:
  "\<exists>w. startBridgeServices example_config (\<lambda>n a. None) (StartDiscoveryServer (bridge_host None)) fresh_world =
     Some (Inr newStopHandle, [Listened (''0.0.0.0:'' @ itoa (ServerPort example_config)), Served], w) \<and>
   opened_sockets (w_trace w) = [SsdpSocket, HdhomerunSocket, ControlListener]"
proof -
  obtain w where "startBridgeServices example_config (\<lambda>n a. None) (StartDiscoveryServer (bridge_host None)) fresh_world =
     Some (Inr newStopHandle, [Listened (''0.0.0.0:'' @ itoa (ServerPort example_config)), Served], w)"
    using bridge_start by (auto simp: startBridgeServices_def startDiscovery_def Let_def)
  from services_start_together [OF this] this show ?thesis by auto
qed

lemma example_refresh:
  "loop_run ascii_only insertion_sort (startRefreshLoop st) [Tick, TakeTick, CloseStop]
     (startRefreshLoop st\<lparr>l_phase := Fetching, l_stop_closed := True\<rparr>)"
proof -
  let ?l = "startRefreshLoop st"
  have "loop_step ascii_only insertion_sort ?l Tick (?l\<lparr>l_tick := True\<rparr>)" by (rule loop_step.tick)
  moreover have "loop_step ascii_only insertion_sort (?l\<lparr>l_tick := True\<rparr>) TakeTick (?l\<lparr>l_phase := Fetching\<rparr>)"
    using loop_step.take_tick [of "?l\<lparr>l_tick := True\<rparr>"] by (simp add: startRefreshLoop_def)
  moreover have "loop_step ascii_only insertion_sort (?l\<lparr>l_phase := Fetching\<rparr>) CloseStop
      (?l\<lparr>l_phase := Fetching, l_stop_closed := True\<rparr>)"
    using loop_step.close_stop [of "?l\<lparr>l_phase := Fetching\<rparr>"] by (simp add: startRefreshLoop_def)
  ultimately show ?thesis by (auto intro: loop_run.step loop_run.stay)
qed

text \<open>
  A run with a refresh that times out and one that brings another playlist: the channels are
  those of the second, and one error is logged.
\<close>

abbreviation failed_then_good :: "loop_action list" where
  "failed_then_good \<equiv> [Tick, TakeTick, FetchDone (Inl ''timeout''), Tick, TakeTick,
     FetchDone (Inr (render_playlist (one_entry ''rtsp://a:554/c'')))]"

lemma refresh_round:
  assumes "l_phase l = Waiting" and "\<not> l_tick l"
  shows "loop_run U srt l [Tick, TakeTick, FetchDone r] (finish_fetch U srt r (l\<lparr>l_phase := Fetching\<rparr>))"
proof -
  have "loop_step U srt (l\<lparr>l_tick := True\<rparr>) TakeTick (l\<lparr>l_phase := Fetching\<rparr>)"
    using assms loop_step.take_tick [of "l\<lparr>l_tick := True\<rparr>" U srt] by (cases l) simp
  moreover have "loop_step U srt (l\<lparr>l_phase := Fetching\<rparr>) (FetchDone r) (finish_fetch U srt r (l\<lparr>l_phase := Fetching\<rparr>))"
    by (rule loop_step.fetched) simp
  ultimately show ?thesis by (blast intro: loop_run.step loop_run.stay loop_step.tick)
qed

lemma loop_run_append: "loop_run U srt l as m \<Longrightarrow> loop_run U srt m bs n \<Longrightarrow> loop_run U srt l (as @ bs) n"
  by (induction rule: loop_run.induct) (auto intro: loop_run.step)

lemma failed_then_good_run:
  "\<exists>l. loop_run U srt (startRefreshLoop st) failed_then_good l"
proof -
  define l1 where "l1 = finish_fetch U srt (Inl ''timeout'') (startRefreshLoop st\<lparr>l_phase := Fetching\<rparr>)"
  have "l_phase l1 = Waiting" "\<not> l_tick l1"
    by (simp_all add: l1_def finish_fetch_def Let_def split_beta startRefreshLoop_def)
  moreover have "loop_run U srt (startRefreshLoop st) [Tick, TakeTick, FetchDone (Inl ''timeout'')] l1"
    unfolding l1_def by (rule refresh_round) (simp_all add: startRefreshLoop_def)
  ultimately show ?thesis
    using loop_run_append [OF _ refresh_round] by fastforce
qed

lemma refresh_loop_refines_witness:
  "\<exists>l. loop_run ascii_only insertion_sort (startRefreshLoop (one_store ''http://a/b?x=1'')) failed_then_good l \<and>
     GetChannels (l_store l) = GetChannels (one_store ''rtsp://a:554/c'') \<and> GetChannels (l_store l) \<noteq> [] \<and>
     length (failure_events (l_logged l)) = 1"
proof -
  let ?p = "render_playlist (one_entry ''rtsp://a:554/c'')"
  obtain l where run: "loop_run ascii_only insertion_sort (startRefreshLoop (one_store ''http://a/b?x=1'')) failed_then_good l"
    using failed_then_good_run by blast
  have good: "fst (ParseM3U ascii_only insertion_sort ?p) = channels (one_store ''rtsp://a:554/c'')"
    "channels (one_store ''rtsp://a:554/c'') \<noteq> []"
    using rtsp_store one_channel [of "''rtsp://a:554/c''"] by (auto simp: store_of_def)
  note accepted.simps [simp del] store_step.simps [simp del]
  have "accepted ascii_only insertion_sort (Fetched (Inl ''timeout'')) = None"
    "accepted ascii_only insertion_sort (Fetched (Inr ?p)) = Some (channels (one_store ''rtsp://a:554/c''))"
    using good by (simp_all add: accepted.simps)
  with run good refresh_loop_refines [OF run] show ?thesis
    by (auto simp: GetChannels_def store_step_channels)
qed

lemma refresh_loop_stops_witness:
  "\<exists>bs n. loop_run ascii_only insertion_sort
     (startRefreshLoop NewStore\<lparr>l_phase := Fetching, l_stop_closed := True\<rparr>) bs n \<and> l_stopped n"
  using refresh_loop_stops [OF example_refresh, of NewStore] by (auto simp: startRefreshLoop_def)

lemma example_main_config: "Load ascii_only (readEnv (os_env example_machine)) = Inr example_config"
  using Load_readEnv [of ascii_only example_env] example_load by (simp add: example_machine_def)

lemma main_does_not_panic_witness: "main_up ascii_only insertion_sort example_machine \<noteq> None"
proof -
  have "PlaylistRefreshSeconds example_config \<le> 9223372036" by (simp add: example_config_def)
  with main_does_not_panic [of ascii_only example_machine insertion_sort] example_main_config
  show ?thesis by simp
qed

lemma main_up_complete_witness:
  "\<exists>b. main_up ascii_only insertion_sort example_machine = Some (Inr b) \<and> valid_config (m_config b) \<and> 0 < m_period b"
proof -
  let ?st = "snd (ReplaceFromRaw ascii_only insertion_sort (render_playlist (one_entry ''http://a/b?x=1'')) NewStore)"
  have "channels ?st = channels (one_store ''http://a/b?x=1'')"
    using http_store by (simp add: store_of_def ReplaceFromRaw_def split_beta Let_def)
  then have st: "GetChannels ?st \<noteq> []" using one_channel [of "''http://a/b?x=1''"] by (auto simp: GetChannels_def)
  have "refresh_period (PlaylistRefreshSeconds example_config) = 300000000000"
    using refresh_period_small [of 300] by (simp add: example_config_def)
  then obtain b where b: "main_up ascii_only insertion_sort example_machine = Some (Inr b)"
    using bridge_start st example_main_config
    by (auto simp: main_up_def fetchM3U_def startBridgeServices_def startDiscovery_def Let_def example_machine_def)
  with main_up_complete [OF ins.slice_sorter_axioms b] show ?thesis by blast
qed

end
