(* ===== verification/Bump_Version.thy ===== *)
theory Bump_Version
  imports Go_Strings "HOL-Library.Product_Lexorder"
begin

text \<open>
  tools/bumpversion/main.go: the release helper that reads the version file, increments the
  minor number and writes the file back. Reading and writing the file may fail; \<open>int\<close> has 64
  bits.
\<close>

record semver =
  major :: int
  minor :: int
  patch :: int

text \<open>Versions in their order of precedence.\<close>

instantiation semver_ext :: (linorder) linorder
begin

definition precedence :: "'a semver_scheme \<Rightarrow> int \<times> int \<times> int \<times> 'a" where
  "precedence v = (major v, minor v, patch v, semver.more v)"

definition less_eq_semver_ext :: "'a semver_scheme \<Rightarrow> 'a semver_scheme \<Rightarrow> bool" where
  "v \<le> w \<longleftrightarrow> precedence v \<le> precedence w"

definition less_semver_ext :: "'a semver_scheme \<Rightarrow> 'a semver_scheme \<Rightarrow> bool" where
  "v < w \<longleftrightarrow> precedence v < precedence w"

instance
proof
  fix v w :: "'a semver_scheme"
  show "v \<le> w \<Longrightarrow> w \<le> v \<Longrightarrow> v = w"
    by (simp add: less_eq_semver_ext_def) (simp add: precedence_def)
qed (auto simp: less_eq_semver_ext_def less_semver_ext_def)

end

definition semver_String :: "semver \<Rightarrow> string" where
  "semver_String v = itoa (major v) @ ''.'' @ itoa (minor v) @ ''.'' @ itoa (patch v)"

datatype bump_error =
    UnsupportedRelease string | ReadFailed string | NotThreeParts | NotNumber string | WriteFailed string

text \<open>\<open>raw\<close> is what \<open>os.ReadFile\<close> returns.\<close>

definition parse_part :: "string \<Rightarrow> string \<Rightarrow> bump_error + int" where
  "parse_part name s = (case atoi s of (n, err) \<Rightarrow> if err then Inl (NotNumber name) else Inr n)"

definition readVersion :: "string + string \<Rightarrow> bump_error + semver" where
  "readVersion raw =
     (case raw of
        Inl e \<Rightarrow> Inl (ReadFailed e)
      | Inr text \<Rightarrow>
          (case split_on ''.'' (trim_space text) of
             [a, b, c] \<Rightarrow>
               (case parse_part ''major'' a of Inl e \<Rightarrow> Inl e | Inr major_part \<Rightarrow>
               (case parse_part ''minor'' b of Inl e \<Rightarrow> Inl e | Inr minor_part \<Rightarrow>
               (case parse_part ''patch'' c of Inl e \<Rightarrow> Inl e | Inr patch_part \<Rightarrow>
                  Inr \<lparr>major = major_part, minor = minor_part, patch = patch_part\<rparr>)))
           | _ \<Rightarrow> Inl NotThreeParts))"

definition bumped :: "semver \<Rightarrow> semver" where
  "bumped v = v\<lparr>minor := signed_take_bit 63 (minor v + 1), patch := 0\<rparr>"

text \<open>
  One run: what is written to the file, if anything, and the error or the line printed.
  \<open>write_file\<close> is the error of writing a text, if any.
\<close>

definition bump_main ::
  "string \<Rightarrow> string + string \<Rightarrow> (string \<Rightarrow> string option) \<Rightarrow> string option \<times> (bump_error + string)" where
  "bump_main releaseType raw write_file =
     (if releaseType \<noteq> ''minor'' then (None, Inl (UnsupportedRelease releaseType))
      else case readVersion raw of
             Inl e \<Rightarrow> (None, Inl e)
           | Inr version \<Rightarrow>
               let next = bumped version;
                   text = semver_String next @ [CHR 0x0A]
               in case write_file text of
                    Some e \<Rightarrow> (Some text, Inl (WriteFailed e))
                  | None \<Rightarrow> (Some text, Inr (semver_String next)))"

subsection \<open>Reading what was written\<close>

definition semver_ok :: "semver \<Rightarrow> bool" where
  "semver_ok v \<longleftrightarrow> {major v, minor v, patch v} \<subseteq> {0..max_int}"

definition version_char :: "char \<Rightarrow> bool" where
  "version_char c \<longleftrightarrow> is_digit c \<or> c = CHR ''.''"

lemma version_char_not_space: "version_char c \<Longrightarrow> never_space c"
proof -
  have "list_all (list_all (\<lambda>d. \<not> version_char d)) space_runes" by code_simp
  then show "version_char c \<Longrightarrow> never_space c" by (auto simp: never_space_def list_all_iff)
qed

lemma trim_space_line:
  assumes "s \<noteq> []" and "list_all version_char s"
  shows "trim_space (s @ [CHR 0x0A]) = s"
proof -
  obtain x c where s: "s = x @ [c]" using assms(1) by (cases s rule: rev_cases) auto
  have c: "never_space c" "never_space (hd s)" using assms s version_char_not_space by (cases x; auto)+
  have "strip space_runes (s @ [CHR 0x0A]) = s @ [CHR 0x0A]"
  proof -
    obtain d y where "s = d # y" using assms(1) by (cases s) auto
    then show ?thesis
      using c(2) strip_at [of d space_runes "[]" "y @ [CHR 0x0A]"] by (simp add: never_space_def)
  qed
  moreover have "strip (map rev space_runes) [CHR 0x0A] = []" by code_simp
  then have "strip (map rev space_runes) ([CHR 0x0A] @ c # rev x) = c # rev x"
    using c(1) strip_at [of c "map rev space_runes" "[CHR 0x0A]" "rev x"] by (auto simp: never_space_def)
  ultimately show ?thesis by (simp add: trim_space_def s)
qed

lemma itoa_digits: "0 \<le> i \<Longrightarrow> list_all is_digit (itoa i) \<and> itoa i \<noteq> []"
  by (simp add: itoa_def itoa_nat_digits itoa_nat_nonempty)

lemma digits_no_dot: "list_all is_digit s \<Longrightarrow> CHR ''.'' \<notin> set s"
  by (auto simp: list_all_iff is_digit_def code_def)

lemma readVersion_String:
  assumes "semver_ok v"
  shows "readVersion (Inr (semver_String v @ [CHR 0x0A])) = Inr v"
proof -
  let ?a = "itoa (major v)" and ?b = "itoa (minor v)" and ?c = "itoa (patch v)"
  have r: "0 \<le> major v" "major v \<le> max_int" "0 \<le> minor v" "minor v \<le> max_int" "0 \<le> patch v" "patch v \<le> max_int"
    using assms by (auto simp: semver_ok_def)
  note d = itoa_digits [OF r(1)] itoa_digits [OF r(3)] itoa_digits [OF r(5)]
  have "list_all version_char s" if "list_all is_digit s" for s
    using that by (auto simp: list_all_iff version_char_def)
  then have "trim_space (semver_String v @ [CHR 0x0A]) = semver_String v"
    using d by (intro trim_space_line) (simp_all add: semver_String_def version_char_def)
  moreover have "split_on ''.'' (semver_String v) = [?a, ?b, ?c]"
    using d digits_no_dot split_on_append [of "CHR ''.''" ?a "?b @ ''.'' @ ?c"]
      split_on_append [of "CHR ''.''" ?b ?c] split_on_notin [of "CHR ''.''" ?c]
    by (simp add: semver_String_def)
  ultimately show ?thesis
    using atoi_itoa r by (simp add: readVersion_def parse_part_def)
qed

text \<open>The version file after a number of releases, each of which writes what it means to.\<close>

fun releases :: "nat \<Rightarrow> string \<Rightarrow> string" where
  "releases 0 file = file"
| "releases (Suc n) file =
     (case bump_main ''minor'' (Inr file) (\<lambda>t. None) of
        (Some text, Inr printed) \<Rightarrow> releases n text
      | _ \<Rightarrow> file)"

lemma bump_once:
  assumes "semver_ok v" and "minor v < max_int"
  shows "bump_main ''minor'' (Inr (semver_String v @ [CHR 0x0A])) (\<lambda>t. None) =
    (Some (semver_String (v\<lparr>minor := minor v + 1, patch := 0\<rparr>) @ [CHR 0x0A]),
     Inr (semver_String (v\<lparr>minor := minor v + 1, patch := 0\<rparr>)))"
proof -
  have "signed_take_bit 63 (minor v + 1) = minor v + 1"
    using assms by (intro signed_take_bit_int_eq_self) (simp_all add: semver_ok_def max_int_def)
  then show ?thesis
    using readVersion_String [OF assms(1)] by (simp add: bump_main_def bumped_def Let_def)
qed

text \<open>
  Releases count up. A version file that holds a version with non-negative numbers reads
  back as it was written; after any number of minor releases, while the number fits a 64-bit
  integer, the file holds that version with the minor number increased by their count and
  the patch number 0, which is a later version; and a run that fails before writing leaves
  the file alone.
\<close>

theorem releases_count_up:
  assumes "semver_ok v" and "minor v + int n < max_int"
  shows "readVersion (Inr (semver_String v @ [CHR 0x0A])) = Inr v \<and>
    releases (Suc n) (semver_String v @ [CHR 0x0A]) =
      semver_String (v\<lparr>minor := minor v + int n + 1, patch := 0\<rparr>) @ [CHR 0x0A] \<and>
    v < v\<lparr>minor := minor v + int n + 1, patch := 0\<rparr> \<and>
    (\<forall>raw w. readVersion raw \<in> range Inl \<longrightarrow> fst (bump_main ''minor'' raw w) = None)"
proof -
  have "releases (Suc n) (semver_String v @ [CHR 0x0A]) =
      semver_String (v\<lparr>minor := minor v + int n + 1, patch := 0\<rparr>) @ [CHR 0x0A]"
    using assms
  proof (induction n arbitrary: v)
    case 0
    then show ?case using bump_once [of v] by simp
  next
    case (Suc n)
    let ?w = "v\<lparr>minor := minor v + 1, patch := 0\<rparr>"
    have w: "semver_ok ?w" "minor ?w + int n < max_int"
      using Suc.prems by (auto simp: semver_ok_def max_int_def)
    have "releases (Suc (Suc n)) (semver_String v @ [CHR 0x0A]) = releases (Suc n) (semver_String ?w @ [CHR 0x0A])"
      using bump_once [OF Suc.prems(1)] Suc.prems(2) by simp
    with Suc.IH [OF w] show ?case by (simp add: algebra_simps)
  qed
  then show ?thesis
    using readVersion_String [OF assms(1)]
    by (auto simp: bump_main_def less_semver_ext_def precedence_def)
qed

lemma releases_count_up_witness:
  "releases (Suc 1) (''1.11.0'' @ [CHR 0x0A]) = ''1.13.0'' @ [CHR 0x0A]"
proof -
  let ?v = "\<lparr>major = 1, minor = 11, patch = 0\<rparr>"
  have "semver_String ?v = ''1.11.0''" "semver_String \<lparr>major = 1, minor = 13, patch = 0\<rparr> = ''1.13.0''"
    by code_simp+
  moreover have "semver_ok ?v" "minor ?v + int 1 < max_int" by (simp_all add: semver_ok_def max_int_def)
  ultimately show ?thesis using releases_count_up [of ?v 1] by simp
qed

end
