(* ===== verification/Spec2Isabelle.thy ===== *)
theory Spec2Isabelle
  imports Control_Server Discovery_Server Device_Xml Rtp_Properties M3u_Properties Rtsp_Witnesses
    Bridge_Properties Bump_Version
begin

text \<open>
  plex-octotuner presents an IPTV playlist to Plex as an HDHomeRun network tuner.

  The program. \<open>cmd/plex-octotuner\<close> reads its configuration from the environment, fetches an
  M3U playlist over HTTP, keeps the channels in a store that a loop refreshes, and starts two
  groups of services. The discovery server answers SSDP searches and HDHomeRun discovery
  datagrams over UDP and HDHomeRun control requests over TCP. The HTTP server gives out the
  identity documents and the lineup, and plays a channel, either by a redirect to its stream
  or by relaying an RTSP stream: RTSP dialogue over TCP, media interleaved on that connection
  or as RTP datagrams that are put in order, MPEG-TS payload to the client. A logger prints
  sanitised lines.

  Conventions. A computation that may panic has type \<open>'a go\<close>, an option whose \<open>None\<close> is the
  panic; error returns are values of sums. Bytes, 16- and 32-bit integers are words and wrap;
  Go's \<open>int\<close> is an integer, with the wrap at 64 bits written out where a value can get there.
  Strings are lists of bytes. A struct is a record with the fields' names; where several
  structs share a field name, the record prefixes it. Nondeterminism of the host (what sockets
  deliver, which operations fail, what other goroutines do) is a parameter, a script of
  events or a labelled step relation. Unicode case tables and \<open>sort.Slice\<close> are parameters with
  the laws the code relies on.

  Theories, from the bottom.
  \<^item> \<open>Prelude\<close>: words, checked indexing and slicing, error returns; the locales
    \<open>stream_consumer\<close> (a reader that takes units off the front of a stream; interpreted by the
    control connection and by the interleaved RTSP reader) and \<open>step_system\<close> (invariants along
    runs; interpreted by the control server and the refresh loop).
  \<^item> \<open>Go_Strings\<close>, \<open>Go_Utf8\<close>, \<open>Net_Url\<close>, \<open>Go_Net\<close>, \<open>Go_Json\<close>, \<open>Go_Sort\<close>, \<open>Crc32\<close>, \<open>Sha256\<close>: what the
    program uses of Go's standard library (strings, strconv, unicode/utf8, net/url, net,
    encoding/json, sort, hash/crc32, crypto/sha256). \<open>Go_Sort\<close> has the contract of the unstable
    sort as the locale \<open>slice_sorter\<close>, with two interpretations.
  \<^item> \<open>Config\<close>: internal/config. \<open>Load\<close> accepts only valid configurations.
  \<^item> \<open>Tlv\<close>, \<open>Frames\<close>, \<open>Packets\<close>: internal/discovery/tlv.go and packets.go; the variable-length
    integers as the locale \<open>varlen_codec\<close>; the datagram parser refines an abstract reading of
    frames and tags.
  \<^item> \<open>Control\<close>, \<open>Tuners\<close>, \<open>Control_Server\<close>: internal/discovery/control.go: frames and requests of
    one connection, the tuner registry, and the server with its goroutines and its stop as a
    labelled step relation, in which \<open>stop\<close> holds the mutex of the active connections and closes
    them one by one while their handlers go on; chunking does not matter, the registry is
    linearizable, stop ends the connections it finds.
  \<^item> \<open>Discovery_Server\<close>: internal/discovery/server.go and types.go: answers to datagrams, start-up
    with its clean-up on every error, the stop handle.
  \<^item> \<open>Hdhr\<close>, \<open>Device_Xml\<close>, \<open>Lineup\<close>: internal/hdhr with the XML and JSON forms, each read back.
  \<^item> \<open>Channels\<close>, \<open>M3u\<close>, \<open>M3u_Render\<close>, \<open>M3u_Properties\<close>: internal/channels: identity, playlist
    parser, order and deduplication, the store; written playlists are read back.
  \<^item> \<open>Rtp\<close>, \<open>Rtp_Properties\<close>, \<open>Reorder\<close>, \<open>Reorder_Properties\<close>: internal/rtsp/diagnostics.go and the
    depacketizer: the counters, and the reorder buffer with its timer as a transition system.
  \<^item> \<open>Rtsp_Messages\<close>, \<open>Rtsp_Connection\<close>, \<open>Rtsp_Interleaved\<close>, \<open>Rtsp_Relay\<close>, \<open>Rtsp_Properties\<close>,
    \<open>Rtsp_Protocol\<close>, \<open>Rtsp_Late\<close>, \<open>Rtsp_Witnesses\<close>: internal/rtsp/relay.go: messages, reading, the
    two pumps, negotiation and clean-up; delivery in order, sockets closed, requests in protocol
    order. The callbacks of flush timers that run after the UDP pump has returned (\<open>late_timers\<close>)
    go on writing to the response while \<open>streamMedia\<close>, \<open>Relay\<close> and the HTTP handler return; the
    goroutine that watches the context (\<open>watcher\<close>) may close the RTP socket before the relay does.
  \<^item> \<open>Http_Api\<close>, \<open>Http_Routes\<close>, \<open>Http_Properties\<close>: internal/httpapi/server.go with \<open>ServeMux\<close>: a
    lineup entry plays its channel, the lineup decodes, an error page is all the client gets
    unless a late callback writes media before or after it.
  \<^item> \<open>Logger\<close>, \<open>Logger_Properties\<close>, \<open>Playback_Log\<close>: internal/logging/logger.go and the log calls of
    a playback: secrets of web addresses do not reach the log, a context cannot add a line, the
    line of a playback decodes to its channel.
  \<^item> \<open>Bridge_Main\<close>, \<open>Bridge_Properties\<close>: cmd/plex-octotuner/main.go; the locale
    \<open>discovery_starter\<close> is what the bridge relies on in the start of the discovery server.
  \<^item> \<open>Bump_Version\<close>: tools/bumpversion/main.go.

  Composition. \<open>main_up\<close> joins configuration, playlist, store, services and refresh loop: the
  store it yields is the one the HTTP properties assume (\<open>store_of\<close>), and the address
  a lineup entry gives (\<open>Lineup\<close>) is the path the HTTP server plays.

  Fuel and termination. Loops are total functions with a measure; the exceptions are
  \<open>flushRemainingLoop\<close> (fuel: the pending packets, each round emits one) and the JSON reader
  (fuel: the length of the text, enough by \<open>read_encode_json\<close>). A relay whose socket script
  ends while it waits is the value \<open>Some None\<close>, not a result.

  Not modelled. The byte transport of the operating system, TLS, and \<open>net/http\<close> below the
  handler: they are the parameters named above. The goroutine of \<open>Server.Serve\<close> is the event
  that starts it. The memory model: critical sections are atomic steps, and so is the handling of
  one RTP packet. What flush timers do when the HTTP handler has returned, which \<open>net/http\<close> does
  not allow for. The goroutine \<open>readMore\<close> leaves behind when the context is done, whose result
  nobody receives. Error texts of the standard library are opaque strings. The type switch of the logger sees the types of
  \<open>goval\<close>; the JSON of any other value is given with it. Interfaces, import blocks and the
  helpers no code calls (\<open>parseTransportHeader\<close>, \<open>errorString\<close>) have no definition.
\<close>

end
